(* ===== verification/Fcgi_Prelude.thy ===== *)
theory Fcgi_Prelude
  imports Main "HOL-Library.Word"
begin

text \<open>
  Shared vocabulary of the development: bytes and C strings, the ways a C run can go wrong
  (\<open>fault\<close>), the result type of fallible code with its sequencing operator, writes into a
  byte buffer, and the list lemmas the component theories use.

  Two named collections carry the component proofs: \<open>fault_simps\<close> (sequencing of fallible
  code) and \<open>buffer_simps\<close> (windows and writes of a byte buffer).
\<close>

named_theorems fault_simps "sequencing of fallible code"
named_theorems buffer_simps "windows and writes of byte buffers"

section \<open>Faults and fallible code\<close>

text \<open>
  What stops a C run: a failed \<open>ASSERT\<close>, a write past an allocated block, a read or write
  through a null pointer or into a freed block, \<open>exit(code)\<close>, a call that blocks for ever.  \<open>OutOfFuel\<close> is not an
  event of the program: it marks a loop that was given too few rounds.
\<close>

datatype fault = Assertion | HeapOverflow | StackOverflow | OutOfBounds | NullDeref | UseAfterFree
  | Exit int | Blocked | OutOfFuel

type_synonym 'a res = "fault + 'a"

definition bindR :: "'a res \<Rightarrow> ('a \<Rightarrow> 'b res) \<Rightarrow> 'b res" where
  "bindR m f = (case m of Inl e \<Rightarrow> Inl e | Inr a \<Rightarrow> f a)"

definition ASSERT :: "bool \<Rightarrow> unit res" where
  "ASSERT b = (if b then Inr () else Inl Assertion)"

lemma bindR_Inl [simp, fault_simps]: "bindR (Inl e) f = Inl e"
  by (simp add: bindR_def)

lemma bindR_Inr [simp, fault_simps]: "bindR (Inr a) f = f a"
  by (simp add: bindR_def)

lemma bindR_assoc: "bindR (bindR m f) g = bindR m (\<lambda>a. bindR (f a) g)"
  by (cases m) simp_all

lemma bindR_eq_Inr [fault_simps]: "bindR m f = Inr b \<longleftrightarrow> (\<exists>a. m = Inr a \<and> f a = Inr b)"
  by (cases m) simp_all

lemma bindR_eq_Inl [fault_simps]:
  "bindR m f = Inl e \<longleftrightarrow> m = Inl e \<or> (\<exists>a. m = Inr a \<and> f a = Inl e)"
  by (cases m) auto

lemma ASSERT_True [simp, fault_simps]: "ASSERT True = Inr ()"
  by (simp add: ASSERT_def)

lemma ASSERT_False [simp, fault_simps]: "ASSERT False = Inl Assertion"
  by (simp add: ASSERT_def)

lemma ASSERT_eq_Inr [fault_simps]: "ASSERT b = Inr u \<longleftrightarrow> b"
  by (simp add: ASSERT_def)

section \<open>Bytes, C strings and machine limits\<close>

type_synonym byte = "8 word"
type_synonym bytes = "byte list"

abbreviation (input) INT_MAX :: int where "INT_MAX \<equiv> 2147483647"
abbreviation (input) INT_MIN :: int where "INT_MIN \<equiv> - 2147483648"

text \<open>\<open>EOF\<close> of \<open>stdio.h\<close>.\<close>

abbreviation (input) EOF :: int where "EOF \<equiv> - 1"

text \<open>The value a two's complement 32-bit \<open>int\<close> holds after the mathematical result \<open>x\<close>.\<close>

definition wrap32 :: "int \<Rightarrow> int" where
  "wrap32 x = (x + 2147483648) mod 4294967296 - 2147483648"

lemma wrap32_id [simp]: "INT_MIN \<le> x \<Longrightarrow> x \<le> INT_MAX \<Longrightarrow> wrap32 x = x"
  by (simp add: wrap32_def)

lemma wrap32_range: "INT_MIN \<le> wrap32 x" "wrap32 x \<le> INT_MAX"
  using pos_mod_bound [of "4294967296 :: int" "x + 2147483648"]
    pos_mod_sign [of "4294967296 :: int" "x + 2147483648"]
  by (simp_all add: wrap32_def del: pos_mod_bound pos_mod_sign)

text \<open>A \<open>size_t\<close> (64 bits) receiving an \<open>int\<close>.\<close>

definition size_of_int :: "int \<Rightarrow> nat" where
  "size_of_int x = nat (x mod 18446744073709551616)"

lemma size_of_int_nonneg [simp]: "0 \<le> x \<Longrightarrow> x \<le> INT_MAX \<Longrightarrow> size_of_int x = nat x"
  by (simp add: size_of_int_def)

lemma size_of_int_negative:
  assumes "INT_MIN \<le> x" "x < 0"
  shows "size_of_int x > 2 ^ 63"
proof -
  have "x mod 18446744073709551616 = x + 18446744073709551616"
    using assms mod_pos_pos_trivial [of "x + 18446744073709551616" 18446744073709551616] by simp
  then show ?thesis using assms by (simp add: size_of_int_def)
qed

text \<open>
  A C string in a block is the bytes before the first NUL; \<open>chars\<close> turns a HOL string literal
  into the bytes of a C string literal.
\<close>

definition cstr :: "bytes \<Rightarrow> bytes" where
  "cstr bs = takeWhile (\<lambda>b. b \<noteq> 0) bs"

definition chars :: "string \<Rightarrow> bytes" where
  "chars = map (\<lambda>c. of_nat (of_char c))"

lemma cstr_no_nul: "0 \<notin> set (cstr bs)"
  by (auto simp: cstr_def dest: set_takeWhileD)

lemma cstr_id: "0 \<notin> set bs \<Longrightarrow> cstr bs = bs"
  unfolding cstr_def by (subst takeWhile_eq_all_conv) auto

lemma cstr_append: "0 \<notin> set xs \<Longrightarrow> cstr (xs @ ys) = xs @ cstr ys"
  unfolding cstr_def by (subst takeWhile_append2) auto

text \<open>\<open>atoi\<close> of the C library: white space, a sign, decimal digits.\<close>

definition is_space :: "byte \<Rightarrow> bool" where "is_space b = (b = 32 \<or> 9 \<le> b \<and> b \<le> 13)"
definition is_digit :: "byte \<Rightarrow> bool" where "is_digit b = (48 \<le> b \<and> b \<le> 57)"

definition digits_value :: "bytes \<Rightarrow> int" where
  "digits_value ds = foldl (\<lambda>n d. 10 * n + (uint d - 48)) 0 ds"

definition atoi :: "bytes \<Rightarrow> int" where
  "atoi str =
     (case dropWhile is_space str of
        [] \<Rightarrow> 0
      | c # r \<Rightarrow>
          if c = 45 then - digits_value (takeWhile is_digit r)
          else if c = 43 then digits_value (takeWhile is_digit r)
          else digits_value (takeWhile is_digit (c # r)))"

section \<open>Buffers\<close>

text \<open>
  \<open>seg i j b\<close> are the bytes of \<open>b\<close> between the offsets \<open>i\<close> and \<open>j\<close>; \<open>blit i xs b\<close> is
  \<open>b\<close> after \<open>memcpy\<close> of \<open>xs\<close> to offset \<open>i\<close>.
\<close>

definition seg :: "nat \<Rightarrow> nat \<Rightarrow> 'a list \<Rightarrow> 'a list" where
  "seg i j b = drop i (take j b)"

definition blit :: "nat \<Rightarrow> 'a list \<Rightarrow> 'a list \<Rightarrow> 'a list" where
  "blit i xs b = take i b @ xs @ drop (i + length xs) b"

lemma length_seg [simp, buffer_simps]:
  "j \<le> length b \<Longrightarrow> length (seg i j b) = j - i"
  by (simp add: seg_def)

lemma seg_empty [simp, buffer_simps]: "j \<le> i \<Longrightarrow> seg i j b = []"
  by (simp add: seg_def)

lemma seg_split: "i \<le> j \<Longrightarrow> j \<le> k \<Longrightarrow> seg i k b = seg i j b @ seg j k b"
proof -
  assume "i \<le> j" "j \<le> k"
  then have "take k b = take j b @ drop j (take k b)"
    by (metis append_take_drop_id min.absorb_iff1 take_take)
  then have "drop i (take k b) = drop i (take j b) @ drop (i - length (take j b)) (drop j (take k b))"
    by (metis drop_append)
  with \<open>i \<le> j\<close> show ?thesis by (cases "j \<le> length b") (simp_all add: seg_def min_def)
qed

lemma take_seg [buffer_simps]: "i + n \<le> j \<Longrightarrow> take n (seg i j b) = seg i (i + n) b"
  by (simp add: seg_def take_drop min_def add.commute)

lemma drop_seg [buffer_simps]: "drop n (seg i j b) = seg (i + n) j b"
  by (simp add: seg_def add.commute)

lemma seg_Cons: "i < j \<Longrightarrow> j \<le> length b \<Longrightarrow> seg i j b = b ! i # seg (Suc i) j b"
  by (simp add: seg_def Cons_nth_drop_Suc [symmetric])

lemma length_blit [simp, buffer_simps]:
  "i + length xs \<le> length b \<Longrightarrow> length (blit i xs b) = length b"
  by (simp add: blit_def)

lemma seg_blit_below [buffer_simps]:
  "k \<le> i \<Longrightarrow> i \<le> length b \<Longrightarrow> seg j k (blit i xs b) = seg j k b"
  by (simp add: seg_def blit_def min_def)

lemma seg_blit_same [buffer_simps]:
  "i \<le> length b \<Longrightarrow> seg i (i + length xs) (blit i xs b) = xs"
  by (simp add: seg_def blit_def)

lemma seg_blit_above [buffer_simps]:
  "i + length xs \<le> j \<Longrightarrow> i \<le> length b \<Longrightarrow> seg j k (blit i xs b) = seg j k b"
  by (simp only: seg_def drop_take) (simp add: blit_def)

lemma blit_Nil [simp, buffer_simps]: "blit i [] b = b"
  by (simp add: blit_def)

end
