(* ===== verification/Fcgi_Protocol.thy ===== *)
theory Fcgi_Protocol
  imports Fcgi_Prelude
begin

text \<open>
  The wire format of \<open>include/fastcgi.h\<close> and the record constructors of
  \<open>libfcgi/fcgiapp.c\<close> (\<open>MakeHeader\<close>, \<open>MakeEndRequestBody\<close>, \<open>MakeUnknownTypeBody\<close>,
  \<open>AlignInt8\<close>, \<open>AlignPtr8\<close>).  A C struct of \<open>unsigned char\<close> is a record of bytes; its image
  in memory is the list of its bytes in field order.
\<close>

unbundle bit_operations_syntax

section \<open>Constants of fastcgi.h\<close>

abbreviation (input) FCGI_LISTENSOCK_FILENO :: int where "FCGI_LISTENSOCK_FILENO \<equiv> 0"
abbreviation (input) FCGI_MAX_LENGTH :: int where "FCGI_MAX_LENGTH \<equiv> 65535"
abbreviation (input) FCGI_HEADER_LEN :: nat where "FCGI_HEADER_LEN \<equiv> 8"
abbreviation (input) FCGI_VERSION_1 :: int where "FCGI_VERSION_1 \<equiv> 1"
abbreviation (input) FCGI_BEGIN_REQUEST :: int where "FCGI_BEGIN_REQUEST \<equiv> 1"
abbreviation (input) FCGI_ABORT_REQUEST :: int where "FCGI_ABORT_REQUEST \<equiv> 2"
abbreviation (input) FCGI_END_REQUEST :: int where "FCGI_END_REQUEST \<equiv> 3"
abbreviation (input) FCGI_PARAMS :: int where "FCGI_PARAMS \<equiv> 4"
abbreviation (input) FCGI_STDIN :: int where "FCGI_STDIN \<equiv> 5"
abbreviation (input) FCGI_STDOUT :: int where "FCGI_STDOUT \<equiv> 6"
abbreviation (input) FCGI_STDERR :: int where "FCGI_STDERR \<equiv> 7"
abbreviation (input) FCGI_DATA :: int where "FCGI_DATA \<equiv> 8"
abbreviation (input) FCGI_GET_VALUES :: int where "FCGI_GET_VALUES \<equiv> 9"
abbreviation (input) FCGI_GET_VALUES_RESULT :: int where "FCGI_GET_VALUES_RESULT \<equiv> 10"
abbreviation (input) FCGI_UNKNOWN_TYPE :: int where "FCGI_UNKNOWN_TYPE \<equiv> 11"
abbreviation (input) FCGI_NULL_REQUEST_ID :: int where "FCGI_NULL_REQUEST_ID \<equiv> 0"
abbreviation (input) FCGI_KEEP_CONN :: byte where "FCGI_KEEP_CONN \<equiv> 1"
abbreviation (input) FCGI_RESPONDER :: int where "FCGI_RESPONDER \<equiv> 1"
abbreviation (input) FCGI_AUTHORIZER :: int where "FCGI_AUTHORIZER \<equiv> 2"
abbreviation (input) FCGI_FILTER :: int where "FCGI_FILTER \<equiv> 3"
abbreviation (input) FCGI_REQUEST_COMPLETE :: int where "FCGI_REQUEST_COMPLETE \<equiv> 0"
abbreviation (input) FCGI_CANT_MPX_CONN :: int where "FCGI_CANT_MPX_CONN \<equiv> 1"

definition FCGI_MAX_CONNS :: bytes where "FCGI_MAX_CONNS = chars ''FCGI_MAX_CONNS''"
definition FCGI_MAX_REQS :: bytes where "FCGI_MAX_REQS = chars ''FCGI_MAX_REQS''"
definition FCGI_MPXS_CONNS :: bytes where "FCGI_MPXS_CONNS = chars ''FCGI_MPXS_CONNS''"

section \<open>Record headers and bodies\<close>

record FCGI_Header =
  version :: byte
  htype :: byte
  requestIdB1 :: byte
  requestIdB0 :: byte
  contentLengthB1 :: byte
  contentLengthB0 :: byte
  paddingLength :: byte
  reserved :: byte

record FCGI_BeginRequestBody =
  roleB1 :: byte
  roleB0 :: byte
  bflags :: byte
  breserved :: bytes

record FCGI_EndRequestBody =
  appStatusB3 :: byte
  appStatusB2 :: byte
  appStatusB1 :: byte
  appStatusB0 :: byte
  protocolStatus :: byte
  ereserved :: bytes

record FCGI_UnknownTypeBody =
  utype :: byte
  ureserved :: bytes

text \<open>\<open>(unsigned char) ((x >> k) & 0xff)\<close>\<close>

definition byte_at :: "nat \<Rightarrow> int \<Rightarrow> byte" where
  "byte_at k x = word_of_int (drop_bit k x AND 255)"

definition MakeHeader :: "int \<Rightarrow> int \<Rightarrow> int \<Rightarrow> int \<Rightarrow> FCGI_Header res" where
  "MakeHeader type requestId contentLength padLength =
     bindR (ASSERT (contentLength \<ge> 0 \<and> contentLength \<le> FCGI_MAX_LENGTH)) (\<lambda>_.
     bindR (ASSERT (padLength \<ge> 0 \<and> padLength \<le> 255)) (\<lambda>_.
     Inr \<lparr>version = word_of_int FCGI_VERSION_1,
          htype = word_of_int type,
          requestIdB1 = byte_at 8 requestId,
          requestIdB0 = byte_at 0 requestId,
          contentLengthB1 = byte_at 8 contentLength,
          contentLengthB0 = byte_at 0 contentLength,
          paddingLength = word_of_int padLength,
          reserved = 0\<rparr>))"

definition MakeEndRequestBody :: "int \<Rightarrow> int \<Rightarrow> FCGI_EndRequestBody" where
  "MakeEndRequestBody appStatus protStatus =
     \<lparr>appStatusB3 = byte_at 24 appStatus,
      appStatusB2 = byte_at 16 appStatus,
      appStatusB1 = byte_at 8 appStatus,
      appStatusB0 = byte_at 0 appStatus,
      protocolStatus = word_of_int protStatus,
      ereserved = replicate 3 0\<rparr>"

definition MakeUnknownTypeBody :: "int \<Rightarrow> FCGI_UnknownTypeBody" where
  "MakeUnknownTypeBody type = \<lparr>utype = word_of_int type, ureserved = replicate 7 0\<rparr>"

definition header_bytes :: "FCGI_Header \<Rightarrow> bytes" where
  "header_bytes h = [version h, htype h, requestIdB1 h, requestIdB0 h,
     contentLengthB1 h, contentLengthB0 h, paddingLength h, reserved h]"

definition header_of :: "bytes \<Rightarrow> FCGI_Header" where
  "header_of bs = \<lparr>version = bs ! 0, htype = bs ! 1, requestIdB1 = bs ! 2, requestIdB0 = bs ! 3,
     contentLengthB1 = bs ! 4, contentLengthB0 = bs ! 5, paddingLength = bs ! 6,
     reserved = bs ! 7\<rparr>"

definition begin_body_of :: "bytes \<Rightarrow> FCGI_BeginRequestBody" where
  "begin_body_of bs = \<lparr>roleB1 = bs ! 0, roleB0 = bs ! 1, bflags = bs ! 2, breserved = drop 3 bs\<rparr>"

definition end_body_bytes :: "FCGI_EndRequestBody \<Rightarrow> bytes" where
  "end_body_bytes b = [appStatusB3 b, appStatusB2 b, appStatusB1 b, appStatusB0 b,
     protocolStatus b] @ ereserved b"

definition unknown_body_bytes :: "FCGI_UnknownTypeBody \<Rightarrow> bytes" where
  "unknown_body_bytes b = utype b # ureserved b"

text \<open>\<open>(B1 << 8) + B0\<close>, as \<open>ProcessHeader\<close> and \<open>ProcessBeginRecord\<close> put two bytes together.\<close>

definition short_of :: "byte \<Rightarrow> byte \<Rightarrow> int" where
  "short_of b1 b0 = push_bit 8 (uint b1) + uint b0"

text \<open>\<open>(n + 7) & ~7\<close>, on an \<open>intptr_t\<close> length and on a 64-bit address.\<close>

definition AlignInt8 :: "int \<Rightarrow> int" where
  "AlignInt8 n = (n + 7) AND NOT 7"

definition AlignPtr8 :: "64 word \<Rightarrow> 64 word" where
  "AlignPtr8 p = (p + 7) AND NOT 7"

section \<open>Lemmas\<close>

lemma and_255 [simp]: "x AND 255 = (x :: int) mod 256"
proof -
  have "(255 :: int) = mask 8" by (simp add: mask_eq_exp_minus_1)
  then have "x AND 255 = take_bit 8 x" by (simp only: take_bit_eq_mask)
  then show ?thesis by (simp add: take_bit_eq_mod)
qed

lemma and_not_7: "x AND NOT 7 = push_bit 3 (drop_bit 3 (x :: 'a :: ring_bit_operations))"
proof -
  have "x AND NOT (mask 3) = push_bit 3 (drop_bit 3 x)"
    by (intro bit_eqI) (auto simp: bit_simps)
  moreover have "mask 3 = (7 :: 'a)" by (simp add: mask_eq_exp_minus_1)
  ultimately show ?thesis by simp
qed

lemma uint_byte_at: "uint (byte_at k x) = (x div 2 ^ k) mod 256"
  by (simp add: byte_at_def drop_bit_eq_div word_of_int_inverse)

lemma short_of_eq: "short_of b1 b0 = 256 * uint b1 + uint b0"
  by (simp add: short_of_def push_bit_eq_mult mult.commute)

lemma uint_byte: "0 \<le> uint (b :: byte)" "uint b < 256"
  using uint_bounded [of b] by simp_all

lemma short_of_range: "0 \<le> short_of b1 b0" "short_of b1 b0 \<le> FCGI_MAX_LENGTH"
  using uint_byte [of b1] uint_byte [of b0] by (simp_all add: short_of_eq)

lemma short_of_bytes: "0 \<le> x \<Longrightarrow> x \<le> FCGI_MAX_LENGTH \<Longrightarrow> short_of (byte_at 8 x) (byte_at 0 x) = x"
  by (simp add: short_of_eq uint_byte_at)

lemma AlignInt8_eq: "AlignInt8 n = 8 * ((n + 7) div 8)"
  unfolding AlignInt8_def and_not_7 by (simp add: push_bit_eq_mult drop_bit_eq_div mult.commute)

lemma length_header_bytes [simp]: "length (header_bytes h) = 8"
  by (simp add: header_bytes_def)

lemma header_of_bytes [simp]: "header_of (header_bytes h @ bs) = h"
  by (simp add: header_of_def header_bytes_def)

lemma short_of_mod: "short_of (byte_at 8 x) (byte_at 0 x) = x mod 65536"
  using zmod_zmult2_eq [of 256 x 256] by (simp add: short_of_eq uint_byte_at)

lemma length_end_body_bytes [simp]: "length (end_body_bytes (MakeEndRequestBody a p)) = 8"
  by (simp add: end_body_bytes_def MakeEndRequestBody_def)

lemma length_unknown_body_bytes [simp]: "length (unknown_body_bytes (MakeUnknownTypeBody t)) = 8"
  by (simp add: unknown_body_bytes_def MakeUnknownTypeBody_def)

lemma AlignPtr8_bound:
  assumes "unat p \<le> 2 ^ 64 - 8"
  shows "unat p \<le> unat (AlignPtr8 p)" "unat (AlignPtr8 p) \<le> unat p + 7" "8 dvd unat (AlignPtr8 p)"
proof -
  have "unat (p + 7) = unat p + 7"
    using assms unat_add_lem [of p 7] by simp
  then have *: "unat (AlignPtr8 p) = 8 * ((unat p + 7) div 8)"
    unfolding AlignPtr8_def and_not_7 using assms
    by (simp add: push_bit_eq_mult unat_word_ariths unat_drop_bit_eq drop_bit_eq_div mult.commute)
  show "unat p \<le> unat (AlignPtr8 p)" "unat (AlignPtr8 p) \<le> unat p + 7" "8 dvd unat (AlignPtr8 p)"
    unfolding * by simp_all
qed

end
