(* ===== verification/Os_Unix.thy ===== *)
theory Os_Unix
  imports Fcgi_Protocol
begin

text \<open>
  The Unix operating system layer, \<open>libfcgi/os_unix.c\<close>: its static variables, the pass-through
  reads and writes, closing, the accept loop with its cross-process lock, and the check of the
  client's address.

  The kernel is not code of the repository.  It is an argument of every operation: for each
  descriptor a script of what the next \<open>read\<close> and \<open>write\<close> calls on it answer and the error of
  \<open>shutdown\<close>, a script of what \<open>accept\<close>, \<open>socket\<close>, \<open>select\<close> and \<open>fcntl\<close> answer, the errors of the
  calls that set a socket up (0 for none), the addresses \<open>malloc\<close> returns, the contents of
  fresh memory, the memory asynchronous transfers use, and the library functions \<open>inet_addr\<close> and \<open>gethostbyname\<close>.  A script is
  finite; after it \<open>read\<close> reports end of file, \<open>write\<close> takes everything, \<open>fcntl\<close> succeeds,
  \<open>socket\<close> fails and \<open>accept\<close> blocks for ever.  The build is the one of
  \<open>Clib/libfcgi/fcgi_config.h\<close> (\<open>USE_LOCKING\<close> defined, the others not).
\<close>

section \<open>The kernel's side\<close>

datatype rd_event = RData bytes | RErr int | RStall
datatype wr_event = WAccept nat | WErr int

text \<open>
  What has been done to close a connection, in order: a \<open>shutdown\<close> with its direction, input that
  was read only to be thrown away, and the \<open>close\<close> of the descriptor.
\<close>

datatype closing = Shut int | Discard bytes | Closed

record conn =
  rx :: "rd_event list"
  txq :: "wr_event list"
  sent :: bytes
  shutErr :: int
  opened :: bool
  ending :: "closing list"

datatype sockaddr = Sockaddr_un | Sockaddr_in "32 word" | Sockaddr_other

text \<open>
  One answer of \<open>accept\<close>: a connection with its descriptor and peer address, or an \<open>errno\<close>;
  the flag says that \<open>SIGUSR1\<close> was delivered during the call.  Likewise for the lock.
\<close>

datatype acc_event = AccConn int sockaddr conn bool | AccFail int bool
datatype lk_event = LkOk | LkErr int bool

text \<open>What a socket is bound to, a resolved host, and what is installed for a signal.\<close>

datatype sockname = Inet "32 word" "16 word" | Path bytes

record hostent =
  h_inet :: bool
  h_addr_list :: "32 word list"

datatype sig_handler = SIG_DFL | SIG_IGN | SigpipeHandler | Sigusr1Handler | OtherHandler nat

section \<open>Static state of os\_unix.c\<close>

record AioInfo =
  procPtr :: "nat option"
  clientData :: int
  aioFd :: int
  aioLen :: int
  aioOffset :: int
  aioBuf :: nat
  inUse :: bool

record os_unix =
  osLibInitialized :: bool
  asyncIoInUse :: bool
  asyncIoTableSize :: nat
  asyncIoTable :: "AioInfo list option"
  readFdSet :: "int set"
  writeFdSet :: "int set"
  readFdSetPost :: "int set"
  numRdPosted :: int
  writeFdSetPost :: "int set"
  numWrPosted :: int
  maxFd :: int
  shutdownPending :: bool
  shutdownNow :: bool
  errno :: int
  conns :: "int \<Rightarrow> conn"
  accepts :: "acc_event list"
  locks :: "lk_event list"
  unlocks :: "int list"
  lockHeld :: bool
  inet_addr :: "bytes \<Rightarrow> 32 word"
  heapLimit :: nat
  mallocAddr :: "nat \<Rightarrow> 64 word"
  fresh :: "nat \<Rightarrow> byte"
  mallocCount :: nat
  sigactions :: "int \<Rightarrow> sig_handler"
  peerErr :: "int \<Rightarrow> int"
  getfl :: "int \<Rightarrow> int + int"
  setflErr :: int
  sockets :: "(int + int) list"
  setsockoptErr :: int
  bindErr :: int
  listenErr :: int
  connectErr :: int
  gethostbyname :: "bytes \<Rightarrow> hostent option"
  bound :: "int \<Rightarrow> sockname option"
  listening :: "int \<Rightarrow> int option"
  connected :: "int \<Rightarrow> sockname option"
  unlinked :: "bytes list"
  selects :: "(int + int set \<times> int set) list"
  mem :: "nat \<Rightarrow> byte"

section \<open>System calls\<close>

abbreviation (input) EINTR :: int where "EINTR \<equiv> 4"
abbreviation (input) EBADF :: int where "EBADF \<equiv> 9"

fun rx_read :: "nat \<Rightarrow> rd_event list \<Rightarrow> (int + bytes) \<times> rd_event list" where
  "rx_read n [] = (Inr [], [])"
| "rx_read n (RStall # es) = rx_read n es"
| "rx_read n (RErr e # es) = (Inl e, es)"
| "rx_read n (RData bs # es) =
     (Inr (take n bs), if length bs \<le> n then es else RData (drop n bs) # es)"

definition sys_read :: "int \<Rightarrow> nat \<Rightarrow> os_unix \<Rightarrow> (int \<times> bytes) \<times> os_unix" where
  "sys_read fd n os =
     (case rx_read n (rx (conns os fd)) of
        (Inl e, es) \<Rightarrow> ((- 1, []),
          os\<lparr>errno := e, conns := (conns os)(fd := (conns os fd)\<lparr>rx := es\<rparr>)\<rparr>)
      | (Inr bs, es) \<Rightarrow> ((int (length bs), bs),
          os\<lparr>conns := (conns os)(fd := (conns os fd)\<lparr>rx := es\<rparr>)\<rparr>))"

definition sys_write :: "int \<Rightarrow> bytes \<Rightarrow> os_unix \<Rightarrow> int \<times> os_unix" where
  "sys_write fd bs os =
     (let c = conns os fd in
      case txq c of
        [] \<Rightarrow> (int (length bs), os\<lparr>conns := (conns os)(fd := c\<lparr>sent := sent c @ bs\<rparr>)\<rparr>)
      | WAccept k # es \<Rightarrow> (int (min k (length bs)),
          os\<lparr>conns := (conns os)(fd := c\<lparr>txq := es, sent := sent c @ take k bs\<rparr>)\<rparr>)
      | WErr e # es \<Rightarrow> (- 1, os\<lparr>errno := e, conns := (conns os)(fd := c\<lparr>txq := es\<rparr>)\<rparr>))"

definition sys_close :: "int \<Rightarrow> os_unix \<Rightarrow> int \<times> os_unix" where
  "sys_close fd os =
     (if opened (conns os fd)
      then (0, os\<lparr>conns := (conns os)(fd := (conns os fd)\<lparr>opened := False, ending := ending (conns os fd) @ [Closed]\<rparr>)\<rparr>)
      else (- 1, os\<lparr>errno := EBADF\<rparr>))"

text \<open>\<open>shutdown\<close> of a direction succeeds or fails with the \<open>errno\<close> the connection says.\<close>

definition sys_shutdown :: "int \<Rightarrow> int \<Rightarrow> os_unix \<Rightarrow> int \<times> os_unix" where
  "sys_shutdown fd how os =
     (if shutErr (conns os fd) = 0
      then (0, os\<lparr>conns := (conns os)(fd := (conns os fd)\<lparr>ending := ending (conns os fd) @ [Shut how]\<rparr>)\<rparr>)
      else (- 1, os\<lparr>errno := shutErr (conns os fd)\<rparr>))"

text \<open>\<open>select\<close> on one descriptor with a timeout: readable unless the peer stalls.\<close>

definition readable :: "rd_event list \<Rightarrow> bool" where
  "readable es = (case es of RStall # _ \<Rightarrow> False | _ \<Rightarrow> True)"

definition raise_sig :: "bool \<Rightarrow> os_unix \<Rightarrow> os_unix" where
  "raise_sig sig os = (if sig then os\<lparr>shutdownPending := True\<rparr> else os)"

definition sys_accept :: "os_unix \<Rightarrow> ((int \<times> sockaddr option) \<times> os_unix) res" where
  "sys_accept os =
     (case accepts os of
        [] \<Rightarrow> Inl Blocked
      | AccConn fd sa c sig # es \<Rightarrow> Inr ((fd, Some sa),
          raise_sig sig (os\<lparr>accepts := es, conns := (conns os)(fd := c)\<rparr>))
      | AccFail e sig # es \<Rightarrow> Inr ((- 1, None),
          raise_sig sig (os\<lparr>accepts := es, errno := e\<rparr>)))"

section \<open>Operations\<close>

definition OS_ShutdownPending :: "os_unix \<Rightarrow> os_unix" where
  "OS_ShutdownPending os = os\<lparr>shutdownPending := True\<rparr>"

definition OS_Sigusr1Handler :: "int \<Rightarrow> os_unix \<Rightarrow> os_unix" where
  "OS_Sigusr1Handler signo os = OS_ShutdownPending os"

definition OS_Read :: "int \<Rightarrow> nat \<Rightarrow> os_unix \<Rightarrow> (int \<times> bytes) \<times> os_unix" where
  "OS_Read fd len os = (if shutdownNow os then ((- 1, []), os) else sys_read fd len os)"

definition OS_Write :: "int \<Rightarrow> bytes \<Rightarrow> os_unix \<Rightarrow> int \<times> os_unix" where
  "OS_Write fd buf os = (if shutdownNow os then (- 1, os) else sys_write fd buf os)"

text \<open>The descriptor-set macros and one entry of the table of asynchronous operations.\<close>

abbreviation (input) FD_SETSIZE :: int where "FD_SETSIZE \<equiv> 1024"

definition fd_guard :: "int \<Rightarrow> unit res" where
  "fd_guard fd = (if 0 \<le> fd \<and> fd < FD_SETSIZE then Inr () else Inl OutOfBounds)"

definition AIO_RD_IX :: "int \<Rightarrow> int" where "AIO_RD_IX fd = fd * 2"
definition AIO_WR_IX :: "int \<Rightarrow> int" where "AIO_WR_IX fd = fd * 2 + 1"

definition aio_release :: "int \<Rightarrow> os_unix \<Rightarrow> os_unix res" where
  "aio_release ix os =
     (case asyncIoTable os of
        None \<Rightarrow> Inl NullDeref
      | Some t \<Rightarrow>
          if ix < 0 \<or> int (length t) \<le> ix then Inl OutOfBounds
          else if inUse (t ! nat ix)
          then Inr (os\<lparr>asyncIoTable := Some (t[nat ix := (t ! nat ix)\<lparr>inUse := False\<rparr>])\<rparr>)
          else Inr os)"

text \<open>
  The lingering close of \<open>OS_Close\<close>: poll and discard until end of file, an error, or a
  poll that times out.  The result has the pieces discarded, the \<open>errno\<close> afterwards and what is
  left of the script.  A descriptor that is polled alone, here and in \<open>is_af_unix_keeper\<close>, is taken
  to be a member of a descriptor set, that is below \<open>FD_SETSIZE\<close>.
\<close>

definition rx_weight :: "rd_event list \<Rightarrow> nat" where
  "rx_weight es = sum_list (map (\<lambda>e. case e of RData bs \<Rightarrow> Suc (length bs) | _ \<Rightarrow> 1) es)"

lemma rx_weight_simps [simp]:
  "rx_weight [] = 0" "rx_weight (RData bs # es) = Suc (length bs) + rx_weight es"
  "rx_weight (RErr e # es) = Suc (rx_weight es)" "rx_weight (RStall # es) = Suc (rx_weight es)"
  by (simp_all add: rx_weight_def)

lemma rx_read_weight:
  "rx_read n es = (Inr bs, es') \<Longrightarrow> rx_weight es' + length bs \<le> rx_weight es"
  by (induction n es rule: rx_read.induct) (auto split: if_splits)

function rx_drain :: "int \<Rightarrow> rd_event list \<Rightarrow> bytes list \<times> int \<times> rd_event list" where
  "rx_drain err es =
     (if \<not> readable es then ([], err, es)
      else case rx_read 1024 es of
          (Inl e, es') \<Rightarrow> ([], e, es')
        | (Inr bs, es') \<Rightarrow>
            if bs = [] then ([], err, es')
            else (case rx_drain err es' of (trash, r) \<Rightarrow> (bs # trash, r)))"
  by pat_completeness auto
termination
  by (relation "measure (\<lambda>(err, es). rx_weight es)")
    (auto dest!: rx_read_weight [OF sym] simp: neq_Nil_conv)

definition drain_conn :: "int \<Rightarrow> os_unix \<Rightarrow> os_unix" where
  "drain_conn fd os =
     (case rx_drain (errno os) (rx (conns os fd)) of (trash, e, es) \<Rightarrow>
        os\<lparr>errno := e,
           conns := (conns os)(fd := (conns os fd)\<lparr>rx := es, ending := ending (conns os fd) @ map Discard trash\<rparr>)\<rparr>)"

definition OS_Close :: "int \<Rightarrow> os_unix \<Rightarrow> (int \<times> os_unix) res" where
  "OS_Close fd os =
     (if fd = - 1 then Inr (0, os)
      else bindR
        (if asyncIoInUse os
         then bindR (fd_guard fd) (\<lambda>_.
              bindR (aio_release (AIO_RD_IX fd)
                (os\<lparr>readFdSet := readFdSet os - {fd}, readFdSetPost := readFdSetPost os - {fd}\<rparr>)) (\<lambda>os.
              bindR (aio_release (AIO_WR_IX fd)
                (os\<lparr>writeFdSet := writeFdSet os - {fd}, writeFdSetPost := writeFdSetPost os - {fd}\<rparr>)) (\<lambda>os.
              Inr (if maxFd os = fd then os\<lparr>maxFd := maxFd os - 1\<rparr> else os))))
         else Inr os) (\<lambda>os.
        Inr (sys_close fd
          (case sys_shutdown fd 1 os of (rc, os) \<Rightarrow> if rc = 0 then drain_conn fd os else os))))"

definition OS_CloseRead :: "int \<Rightarrow> os_unix \<Rightarrow> (int \<times> os_unix) res" where
  "OS_CloseRead fd os =
     (case asyncIoTable os of
        None \<Rightarrow> Inl NullDeref
      | Some t \<Rightarrow>
          let ix = AIO_RD_IX fd in
          if ix < 0 \<or> int (length t) \<le> ix then Inl OutOfBounds
          else Inr (sys_shutdown fd 0
            (if inUse (t ! nat ix)
             then os\<lparr>asyncIoTable := Some (t[nat ix := (t ! nat ix)\<lparr>inUse := False\<rparr>]),
                     readFdSet := readFdSet os - {fd}\<rparr>
             else os)))"

definition OS_IpcClose :: "int \<Rightarrow> os_unix \<Rightarrow> (int \<times> os_unix) res" where
  "OS_IpcClose ipcFd os = OS_Close ipcFd os"

section \<open>Accepting connections\<close>

text \<open>\<open>ClientAddrOK\<close> walks the comma separated list of allowed addresses.\<close>

function ClientAddr_loop :: "(bytes \<Rightarrow> 32 word) \<Rightarrow> 32 word \<Rightarrow> bytes \<Rightarrow> bool" where
  "ClientAddr_loop ia addr cur =
     (if ia (takeWhile (\<lambda>b. b \<noteq> 44) cur) = addr then True
      else case dropWhile (\<lambda>b. b \<noteq> 44) cur of
          [] \<Rightarrow> False
        | _ # next \<Rightarrow> ClientAddr_loop ia addr next)"
  by pat_completeness auto
termination
proof (relation "measure (\<lambda>(ia, a, cur). length cur)")
  show "wf (measure (\<lambda>(ia :: bytes \<Rightarrow> 32 word, a :: 32 word, cur :: bytes). length cur))" by simp
next
  fix ia :: "bytes \<Rightarrow> 32 word" and addr :: "32 word" and cur x :: bytes and b :: byte
  assume "dropWhile (\<lambda>b. b \<noteq> 44) cur = b # x"
  then have "length (b # x) \<le> length cur" by (metis length_dropWhile_le)
  then show "((ia, addr, x), ia, addr, cur) \<in> measure (\<lambda>(ia, a, cur). length cur)" by simp
qed

declare ClientAddr_loop.simps [simp del] rx_drain.simps [simp del]

definition str_dup :: "nat \<Rightarrow> bytes \<Rightarrow> bytes option" where
  "str_dup lim str = (if length (cstr str) + 1 \<le> lim then Some (cstr str) else None)"

definition ClientAddrOK :: "nat \<Rightarrow> (bytes \<Rightarrow> 32 word) \<Rightarrow> 32 word \<Rightarrow> bytes option \<Rightarrow> bool" where
  "ClientAddrOK lim ia addr clientList =
     (case clientList of
        None \<Rightarrow> True
      | Some l \<Rightarrow>
          if cstr l = [] then True
          else case str_dup lim l of None \<Rightarrow> False | Some copy \<Rightarrow> ClientAddr_loop ia addr copy)"

text \<open>The advisory lock on the listening socket; \<open>fcntl\<close> is restarted after a signal.\<close>

fun acquire_loop :: "bool \<Rightarrow> bool \<Rightarrow> lk_event list \<Rightarrow> (int option \<times> bool) \<times> lk_event list" where
  "acquire_loop fail pend [] = ((None, pend), [])"
| "acquire_loop fail pend (LkOk # es) = ((None, pend), es)"
| "acquire_loop fail pend (LkErr e sig # es) =
     (let pend' = pend \<or> sig in
      if e = EINTR \<and> \<not> fail \<and> \<not> pend' then acquire_loop fail pend' es else ((Some e, pend'), es))"

definition AcquireLock :: "int \<Rightarrow> bool \<Rightarrow> os_unix \<Rightarrow> int \<times> os_unix" where
  "AcquireLock sock fail_on_intr os =
     (case acquire_loop fail_on_intr (shutdownPending os) (locks os) of
        ((None, pend), es) \<Rightarrow> (0, os\<lparr>locks := es, shutdownPending := pend, lockHeld := True\<rparr>)
      | ((Some e, pend), es) \<Rightarrow> (- 1, os\<lparr>locks := es, shutdownPending := pend, errno := e\<rparr>))"

definition ReleaseLock :: "int \<Rightarrow> os_unix \<Rightarrow> int \<times> os_unix" where
  "ReleaseLock sock os =
     (case dropWhile (\<lambda>e. e = EINTR) (unlocks os) of
        [] \<Rightarrow> (0, os\<lparr>unlocks := [], lockHeld := False\<rparr>)
      | e # es \<Rightarrow>
          if e = 0 then (0, os\<lparr>unlocks := es, lockHeld := False\<rparr>)
          else (- 1, os\<lparr>unlocks := es, errno := e\<rparr>))"

text \<open>\<open>EPROTO\<close>, \<open>ECONNABORTED\<close>, \<open>ECONNRESET\<close>, \<open>ETIMEDOUT\<close>, \<open>EHOSTUNREACH\<close>, \<open>ENETUNREACH\<close> (Linux).\<close>

definition is_reasonable_accept_errno :: "int \<Rightarrow> bool" where
  "is_reasonable_accept_errno e = (e \<in> {71, 103, 104, 110, 113, 101})"

definition is_af_unix_keeper :: "int \<Rightarrow> os_unix \<Rightarrow> bool" where
  "is_af_unix_keeper fd os = (opened (conns os fd) \<and> readable (rx (conns os fd)))"

text \<open>The \<open>do ... while\<close> around \<open>accept\<close>; \<open>socket\<close> and \<open>sa\<close> keep their old value on the \<open>break\<close>.\<close>

function accept_retry :: "bool \<Rightarrow> int \<Rightarrow> sockaddr \<Rightarrow> os_unix \<Rightarrow> ((int \<times> sockaddr) \<times> os_unix) res" where
  "accept_retry fail_on_intr socket sa os =
     (if shutdownPending os then Inr ((socket, sa), os)
      else case sys_accept os of
          Inl f \<Rightarrow> Inl f
        | Inr ((s, sao), os') \<Rightarrow>
            let sa' = (case sao of Some a \<Rightarrow> a | None \<Rightarrow> sa) in
            if s < 0 \<and> errno os' = EINTR \<and> \<not> fail_on_intr \<and> \<not> shutdownPending os'
            then accept_retry fail_on_intr s sa' os'
            else Inr ((s, sa'), os'))"
  by pat_completeness auto
termination
  by (relation "measure (\<lambda>(f, s, sa, os). length (accepts os))")
    (auto simp: sys_accept_def raise_sig_def split: list.splits acc_event.splits if_splits)

declare accept_retry.simps [simp del]

text \<open>
  The two nested \<open>for (;;)\<close> loops of \<open>OS_Accept\<close>.  \<open>atLock\<close> says which of them the next round
  starts: the outer one, which takes the lock, or the inner one, which accepts.
\<close>

fun OS_Accept_loop ::
  "nat \<Rightarrow> bool \<Rightarrow> int \<Rightarrow> bool \<Rightarrow> bytes option \<Rightarrow> int \<Rightarrow> sockaddr \<Rightarrow> os_unix \<Rightarrow> (int \<times> os_unix) res" where
  "OS_Accept_loop 0 atLock ls foi addrs socket sa os = Inl OutOfFuel"
| "OS_Accept_loop (Suc k) True ls foi addrs socket sa os =
     (case AcquireLock ls foi os of (rc, os) \<Rightarrow>
        if rc \<noteq> 0 then Inr (- 1, os) else OS_Accept_loop k False ls foi addrs socket sa os)"
| "OS_Accept_loop (Suc k) False ls foi addrs socket sa os =
     bindR (accept_retry foi socket sa os) (\<lambda>((socket, sa), os).
       if socket < 0 then
         if shutdownPending os \<or> \<not> is_reasonable_accept_errno (errno os) then
           (let os' = snd (ReleaseLock ls os) in
            Inr (- 1, if shutdownPending os' then os' else os'\<lparr>errno := errno os\<rparr>))
         else OS_Accept_loop k False ls foi addrs socket sa (os\<lparr>errno := 0\<rparr>)
       else
         if (case sa of Sockaddr_in a \<Rightarrow> ClientAddrOK (heapLimit os) (inet_addr os) a addrs | _ \<Rightarrow> True) then
           (case ReleaseLock ls os of (rc, os) \<Rightarrow>
              if rc \<noteq> 0 then Inr (- 1, os)
              else if sa \<noteq> Sockaddr_un \<or> is_af_unix_keeper socket os then Inr (socket, os)
              else OS_Accept_loop k True ls foi addrs socket sa (snd (sys_close socket os)))
         else OS_Accept_loop k False ls foi addrs socket sa (snd (sys_close socket os)))"

definition OS_Accept ::
  "nat \<Rightarrow> int \<Rightarrow> bool \<Rightarrow> bytes option \<Rightarrow> os_unix \<Rightarrow> (int \<times> os_unix) res" where
  "OS_Accept fuel listen_sock fail_on_intr webServerAddrs os =
     OS_Accept_loop fuel True listen_sock fail_on_intr webServerAddrs (- 1) Sockaddr_un os"

section \<open>A machine at rest\<close>

text \<open>A kernel without pending events, on which concrete runs can start.\<close>

definition idle_conn :: conn where
  "idle_conn = \<lparr>rx = [], txq = [], sent = [], shutErr = 0, opened = True, ending = []\<rparr>"

definition idle_os :: os_unix where
  "idle_os = \<lparr>osLibInitialized = True, asyncIoInUse = False, asyncIoTableSize = 16, asyncIoTable = None,
     readFdSet = {}, writeFdSet = {}, readFdSetPost = {}, numRdPosted = 0, writeFdSetPost = {}, numWrPosted = 0,
     maxFd = - 1, shutdownPending = False, shutdownNow = False, errno = 0, conns = (\<lambda>_. idle_conn),
     accepts = [], locks = [], unlocks = [], lockHeld = False, inet_addr = (\<lambda>_. - 1), heapLimit = 16777216,
     mallocAddr = (\<lambda>_. 4096), fresh = (\<lambda>_. 0), mallocCount = 0, sigactions = (\<lambda>_. SIG_DFL),
     peerErr = (\<lambda>_. 107), getfl = (\<lambda>_. Inr 0), setflErr = 0, sockets = [], setsockoptErr = 0, bindErr = 0,
     listenErr = 0, connectErr = 0, gethostbyname = (\<lambda>_. None), bound = (\<lambda>_. None), listening = (\<lambda>_. None),
     connected = (\<lambda>_. None), unlinked = [], selects = [], mem = (\<lambda>_. 0)\<rparr>"

lemma idle_os_simps [simp]:
  "shutdownPending idle_os = False" "shutdownNow idle_os = False" "locks idle_os = []" "unlocks idle_os = []"
  "accepts idle_os = []" "conns idle_os = (\<lambda>_. idle_conn)" "heapLimit idle_os = 16777216" "fresh idle_os = (\<lambda>_. 0)"
  "asyncIoInUse idle_os = False" "inet_addr idle_os = (\<lambda>_. - 1)" "lockHeld idle_os = False" "errno idle_os = 0"
  "mallocAddr idle_os = (\<lambda>_. 4096)" "mallocCount idle_os = 0" "asyncIoTable idle_os = None"
  by (simp_all add: idle_os_def)

lemma idle_conn_simps [simp]:
  "rx idle_conn = []" "txq idle_conn = []" "sent idle_conn = []" "shutErr idle_conn = 0" "opened idle_conn" "ending idle_conn = []"
  by (simp_all add: idle_conn_def)

end
