(* ===== verification/Fcgi_Stream.thy ===== *)
theory Fcgi_Stream
  imports Os_Unix
begin

text \<open>
  The byte streams of \<open>libfcgi/fcgiapp.c\<close>: the state of a stream and the operations an
  application calls on it.  The operations are independent of FastCGI: like the C code, which
  calls through the pointers \<open>fillBuffProc\<close> and \<open>emptyBuffProc\<close> of the stream, they take the
  procedure that refills or empties the buffer as an argument.

  All pointers of a stream point into its buffer, so they are offsets from \<open>data->buff\<close>.  A
  stream and its \<open>FCGX_Stream_Data\<close> are allocated and freed together and are one extensible
  record here; an operation on a stream also reaches the request it belongs to
  (\<open>data->reqDataPtr\<close>) and the operating system.

  The interfaces between the stream operations and the buffer procedures are the locales
  \<open>byte_source\<close> and \<open>byte_sink\<close>.
\<close>

section \<open>State\<close>

record FCGX_Stream =
  rdNext :: nat
  wrNext :: nat
  stop :: nat
  stopUnget :: "nat option"
  isReader :: bool
  isClosed :: bool
  wasFCloseCalled :: bool
  FCGI_errno :: int

record FCGX_Stream_Data = FCGX_Stream +
  buff :: bytes
  bufflen :: nat
  mBuff :: "64 word"
  buffStop :: nat
  stype :: int
  eorStop :: bool
  skip :: bool
  contentLen :: nat
  paddingLen :: nat
  isAnythingWritten :: bool
  rawWrite :: bool

text \<open>The fields of \<open>FCGX_Request\<close> that stream operations use.\<close>

record ReqData =
  requestId :: int
  role :: int
  ipcFd :: int
  isBeginProcessed :: bool
  keepConnection :: bool
  appStatus :: int
  nWriters :: int
  flags :: int
  listen_sock :: int

record stream_io = FCGX_Stream_Data +
  reqDataPtr :: ReqData
  os :: os_unix

abbreviation (input) FCGX_UNSUPPORTED_VERSION :: int where "FCGX_UNSUPPORTED_VERSION \<equiv> - 2"
abbreviation (input) FCGX_PROTOCOL_ERROR :: int where "FCGX_PROTOCOL_ERROR \<equiv> - 3"
abbreviation (input) FCGX_PARAMS_ERROR :: int where "FCGX_PARAMS_ERROR \<equiv> - 4"
abbreviation (input) FCGX_CALL_SEQ_ERROR :: int where "FCGX_CALL_SEQ_ERROR \<equiv> - 5"

type_synonym fill_proc = "stream_io \<Rightarrow> stream_io res"
type_synonym empty_proc = "bool \<Rightarrow> stream_io \<Rightarrow> stream_io res"

section \<open>Reading\<close>

text \<open>\<open>*stream->rdNext++\<close>\<close>

definition next_byte :: "stream_io \<Rightarrow> (int \<times> stream_io) res" where
  "next_byte s =
     (if rdNext s < length (buff s)
      then Inr (uint (buff s ! rdNext s), s\<lparr>rdNext := Suc (rdNext s)\<rparr>)
      else Inl OutOfBounds)"

definition FCGX_GetChar :: "fill_proc \<Rightarrow> stream_io \<Rightarrow> (int \<times> stream_io) res" where
  "FCGX_GetChar fill s =
     (if isClosed s \<or> \<not> isReader s then Inr (EOF, s)
      else if rdNext s \<noteq> stop s then next_byte s
      else bindR (fill s) (\<lambda>s.
        if isClosed s then Inr (EOF, s)
        else let s = s\<lparr>stopUnget := Some (rdNext s)\<rparr> in
          if rdNext s \<noteq> stop s then next_byte s
          else bindR (ASSERT (isClosed s)) (\<lambda>_. Inr (EOF, s))))"

text \<open>\<open>memcpy(str, stream->rdNext, m); stream->rdNext += m\<close>\<close>

definition copy_out :: "nat \<Rightarrow> stream_io \<Rightarrow> (bytes \<times> stream_io) res" where
  "copy_out m s =
     (if rdNext s + m \<le> length (buff s)
      then Inr (seg (rdNext s) (rdNext s + m) (buff s), s\<lparr>rdNext := rdNext s + m\<rparr>)
      else Inl OutOfBounds)"

text \<open>The \<open>for (;;)\<close> of \<open>FCGX_GetStr\<close>; \<open>acc\<close> are the bytes moved so far, \<open>n\<close> how many are wanted.\<close>

primrec GetStr_loop :: "fill_proc \<Rightarrow> nat \<Rightarrow> nat \<Rightarrow> bytes \<Rightarrow> stream_io \<Rightarrow> (bytes \<times> stream_io) res" where
  "GetStr_loop fill 0 n acc s = Inl OutOfFuel"
| "GetStr_loop fill (Suc k) n acc s =
     bindR (if rdNext s \<noteq> stop s
            then if stop s < rdNext s then Inl OutOfBounds
              else copy_out (min (n - length acc) (stop s - rdNext s)) s
            else Inr ([], s)) (\<lambda>(bs, s).
     let acc = acc @ bs in
     if bs \<noteq> [] \<and> length acc = n then Inr (acc, s)
     else if isClosed s \<or> \<not> isReader s then Inr (acc, s)
     else bindR (fill s) (\<lambda>s.
       if isClosed s then Inr (acc, s)
       else GetStr_loop fill k n acc (s\<lparr>stopUnget := Some (rdNext s)\<rparr>)))"

definition FCGX_GetStr :: "fill_proc \<Rightarrow> nat \<Rightarrow> int \<Rightarrow> stream_io \<Rightarrow> (bytes \<times> stream_io) res" where
  "FCGX_GetStr fill k n s =
     (if isClosed s \<or> \<not> isReader s \<or> n \<le> 0 then Inr ([], s)
      else if n \<le> int (stop s) - int (rdNext s) then copy_out (nat n) s
      else GetStr_loop fill k (nat n) [] s)"

text \<open>
  \<open>FCGX_GetLine\<close>: \<open>None\<close> is the null pointer, \<open>Some\<close> the characters stored before the NUL.
\<close>

primrec GetLine_loop :: "fill_proc \<Rightarrow> nat \<Rightarrow> bytes \<Rightarrow> stream_io \<Rightarrow> (bytes option \<times> stream_io) res" where
  "GetLine_loop fill 0 acc s = Inr (Some acc, s)"
| "GetLine_loop fill (Suc n) acc s =
     bindR (FCGX_GetChar fill s) (\<lambda>(c, s).
       if c = EOF then Inr (if acc = [] then None else Some acc, s)
       else if c = 10 then Inr (Some (acc @ [word_of_int c]), s)
       else GetLine_loop fill n (acc @ [word_of_int c]) s)"

definition FCGX_GetLine :: "fill_proc \<Rightarrow> int \<Rightarrow> stream_io \<Rightarrow> (bytes option \<times> stream_io) res" where
  "FCGX_GetLine fill n s = GetLine_loop fill (nat (n - 1)) [] s"

definition FCGX_UnGetChar :: "int \<Rightarrow> stream_io \<Rightarrow> (int \<times> stream_io) res" where
  "FCGX_UnGetChar c s =
     (if c = EOF \<or> isClosed s \<or> \<not> isReader s \<or> Some (rdNext s) = stopUnget s then Inr (EOF, s)
      else if rdNext s = 0 \<or> length (buff s) < rdNext s then Inl OutOfBounds
      else Inr (c, s\<lparr>rdNext := rdNext s - 1, buff := (buff s)[rdNext s - 1 := word_of_int c]\<rparr>))"

definition FCGX_HasSeenEOF :: "stream_io \<Rightarrow> int" where
  "FCGX_HasSeenEOF s = (if isClosed s then EOF else 0)"

section \<open>Writing\<close>

text \<open>\<open>memcpy(stream->wrNext, bs, n); stream->wrNext += n\<close>\<close>

definition copy_in :: "bytes \<Rightarrow> stream_io \<Rightarrow> stream_io res" where
  "copy_in bs s =
     (if wrNext s + length bs \<le> length (buff s)
      then Inr (s\<lparr>buff := blit (wrNext s) bs (buff s), wrNext := wrNext s + length bs\<rparr>)
      else Inl HeapOverflow)"

definition FCGX_PutChar :: "empty_proc \<Rightarrow> int \<Rightarrow> stream_io \<Rightarrow> (int \<times> stream_io) res" where
  "FCGX_PutChar emptyp c s =
     (let b = (word_of_int c :: byte) in
      if wrNext s \<noteq> stop s then bindR (copy_in [b] s) (\<lambda>s. Inr (uint b, s))
      else if isClosed s \<or> isReader s then Inr (EOF, s)
      else bindR (emptyp False s) (\<lambda>s.
        if wrNext s \<noteq> stop s then bindR (copy_in [b] s) (\<lambda>s. Inr (uint b, s))
        else bindR (ASSERT (isClosed s)) (\<lambda>_. Inr (EOF, s))))"

text \<open>The \<open>for (;;)\<close> of \<open>FCGX_PutStr\<close>; \<open>moved\<close> bytes are stored, \<open>str\<close> are the others.\<close>

primrec PutStr_loop :: "empty_proc \<Rightarrow> nat \<Rightarrow> nat \<Rightarrow> bytes \<Rightarrow> stream_io \<Rightarrow> (int \<times> stream_io) res" where
  "PutStr_loop emptyp 0 moved str s = Inl OutOfFuel"
| "PutStr_loop emptyp (Suc k) moved str s =
     (let m = (if wrNext s \<noteq> stop s then min (length str) (stop s - wrNext s) else 0) in
      if stop s < wrNext s then Inl OutOfBounds
      else bindR (copy_in (take m str) s) (\<lambda>s.
        if m \<noteq> 0 \<and> m = length str then Inr (int (moved + m), s)
        else if isClosed s \<or> isReader s then Inr (- 1, s)
        else bindR (emptyp False s) (\<lambda>s. PutStr_loop emptyp k (moved + m) (drop m str) s)))"

definition FCGX_PutStr :: "empty_proc \<Rightarrow> nat \<Rightarrow> bytes \<Rightarrow> stream_io \<Rightarrow> (int \<times> stream_io) res" where
  "FCGX_PutStr emptyp k str s =
     (if int (length str) \<le> int (stop s) - int (wrNext s)
      then bindR (copy_in str s) (\<lambda>s. Inr (int (length str), s))
      else PutStr_loop emptyp k 0 str s)"

definition FCGX_PutS :: "empty_proc \<Rightarrow> nat \<Rightarrow> bytes \<Rightarrow> stream_io \<Rightarrow> (int \<times> stream_io) res" where
  "FCGX_PutS emptyp k str s =
     (let sz = cstr str in
      bindR (ASSERT (int (length sz) \<le> INT_MAX)) (\<lambda>_. FCGX_PutStr emptyp k sz s))"

definition FCGX_FFlush :: "empty_proc \<Rightarrow> stream_io \<Rightarrow> (int \<times> stream_io) res" where
  "FCGX_FFlush emptyp s =
     (if isClosed s \<or> isReader s then Inr (0, s)
      else bindR (emptyp False s) (\<lambda>s. Inr (if isClosed s then - 1 else 0, s)))"

definition FCGX_FClose :: "empty_proc \<Rightarrow> stream_io \<Rightarrow> (int \<times> stream_io) res" where
  "FCGX_FClose emptyp s =
     bindR
       (if wasFCloseCalled s then Inr s
        else bindR (if isReader s then Inr s else emptyp True s) (\<lambda>s.
          let s = s\<lparr>wasFCloseCalled := True, isClosed := True\<rparr> in
          Inr (if isReader s then s\<lparr>stop := rdNext s, wrNext := rdNext s\<rparr>
               else s\<lparr>stop := wrNext s, rdNext := wrNext s\<rparr>)))
       (\<lambda>s. Inr (if FCGI_errno s = 0 then 0 else EOF, s))"

section \<open>Errors\<close>

definition SetError :: "int \<Rightarrow> stream_io \<Rightarrow> stream_io" where
  "SetError e s =
     (if FCGI_errno s = 0 then s\<lparr>FCGI_errno := e\<rparr> else s)\<lparr>isClosed := True\<rparr>"

definition FCGX_GetError :: "stream_io \<Rightarrow> int" where
  "FCGX_GetError s = FCGI_errno s"

definition FCGX_ClearError :: "stream_io \<Rightarrow> stream_io" where
  "FCGX_ClearError s = s\<lparr>FCGI_errno := 0\<rparr>"

section \<open>Lines\<close>

text \<open>The bytes a line read of at most \<open>n\<close> characters takes: up to and with the first newline.\<close>

fun line_of :: "nat \<Rightarrow> bytes \<Rightarrow> bytes" where
  "line_of 0 xs = []"
| "line_of (Suc n) [] = []"
| "line_of (Suc n) (x # xs) = (if x = 10 then [x] else x # line_of n xs)"

lemma length_line_of: "length (line_of n xs) \<le> n"
  by (induction n xs rule: line_of.induct) auto

lemma line_of_prefix: "line_of n xs = take (length (line_of n xs)) xs"
  by (induction n xs rule: line_of.induct) auto

section \<open>The contract between the readers and \<open>fillBuffProc\<close>\<close>

text \<open>The bytes a reader can deliver without refilling.\<close>

definition window :: "stream_io \<Rightarrow> bytes" where
  "window s = seg (rdNext s) (stop s) (buff s)"

text \<open>
  A byte source: a fill procedure, an invariant of the stream, the relation \<open>rest s xs\<close> (\<open>xs\<close>
  is the content still to come beyond the window) and the state \<open>fin\<close> the stream is in once
  all content was delivered.  \<open>src s xs\<close> then says that the stream will deliver exactly \<open>xs\<close>.
\<close>

locale byte_source =
  fixes fill :: fill_proc
    and inv :: "stream_io \<Rightarrow> bool"
    and rest :: "stream_io \<Rightarrow> bytes \<Rightarrow> bool"
    and fin :: "stream_io \<Rightarrow> bool"
  assumes fill_more: "inv s \<Longrightarrow> rest s xs \<Longrightarrow> rdNext s = stop s \<Longrightarrow> xs \<noteq> [] \<Longrightarrow>
      \<exists>s' ys. fill s = Inr s' \<and> inv s' \<and> rdNext s' < stop s' \<and> rest s' ys \<and> xs = window s' @ ys"
    and fill_end: "inv s \<Longrightarrow> rest s [] \<Longrightarrow> rdNext s = stop s \<Longrightarrow> \<exists>s'. fill s = Inr s' \<and> fin s'"
    and inv_reader: "inv s \<Longrightarrow>
      isReader s \<and> \<not> isClosed s \<and> rdNext s \<le> stop s \<and> stop s \<le> length (buff s)"
    and inv_move: "inv s \<Longrightarrow> rdNext s \<le> r \<Longrightarrow> r \<le> stop s \<Longrightarrow> inv (s\<lparr>rdNext := r\<rparr>)"
    and inv_unget: "inv s \<Longrightarrow> inv (s\<lparr>stopUnget := u\<rparr>)"
    and rest_move: "rest s xs \<Longrightarrow> rest (s\<lparr>rdNext := r\<rparr>) xs"
    and rest_unget: "rest s xs \<Longrightarrow> rest (s\<lparr>stopUnget := u\<rparr>) xs"
    and fin_closed: "fin s \<Longrightarrow> isClosed s"
begin

definition src :: "stream_io \<Rightarrow> bytes \<Rightarrow> bool" where
  "src s xs \<longleftrightarrow> inv s \<and> (\<exists>ys. rest s ys \<and> xs = window s @ ys)"

lemma src_move:
  assumes "src s xs" "rdNext s + m \<le> stop s"
  shows "src (s\<lparr>rdNext := rdNext s + m\<rparr>) (drop m xs)"
    and "seg (rdNext s) (rdNext s + m) (buff s) = take m xs"
proof -
  obtain ys where ys: "inv s" "rest s ys" "xs = window s @ ys"
    using assms(1) by (auto simp: src_def)
  have len: "length (window s) = stop s - rdNext s"
    using inv_reader [OF ys(1)] by (simp add: window_def)
  show "seg (rdNext s) (rdNext s + m) (buff s) = take m xs"
    using assms(2) len by (simp add: ys(3) window_def take_seg)
  show "src (s\<lparr>rdNext := rdNext s + m\<rparr>) (drop m xs)"
    unfolding src_def
    using inv_move [OF ys(1), of "rdNext s + m"] rest_move [OF ys(2)] assms(2) len
    by (auto simp: ys(3) window_def drop_seg)
qed

lemma src_fill:
  assumes "src s xs" "rdNext s = stop s" "xs \<noteq> []"
  shows "\<exists>s'. fill s = Inr s' \<and> \<not> isClosed s' \<and> rdNext s' < stop s'
    \<and> src (s'\<lparr>stopUnget := Some (rdNext s')\<rparr>) xs"
proof -
  have "inv s" "rest s xs" using assms by (auto simp: src_def window_def)
  from fill_more [OF this assms(2,3)] obtain s' ys where
    "fill s = Inr s'" "inv s'" "rdNext s' < stop s'" "rest s' ys" "xs = window s' @ ys"
    by blast
  then show ?thesis
    using inv_reader [of s'] inv_unget rest_unget by (auto simp: src_def window_def)
qed

lemma src_fill_end:
  assumes "src s []" shows "\<exists>s'. fill s = Inr s' \<and> fin s'"
proof -
  have "inv s" "rest s []" and w: "window s = []" using assms by (auto simp: src_def)
  moreover have "rdNext s = stop s"
    using w inv_reader [OF \<open>inv s\<close>] length_seg [of "stop s" "buff s" "rdNext s"]
    by (simp add: window_def del: length_seg)
  ultimately show ?thesis using fill_end by blast
qed

lemma src_open: "src s xs \<Longrightarrow> \<not> isClosed s \<and> isReader s \<and> rdNext s \<le> stop s \<and> stop s \<le> length (buff s)"
  using inv_reader by (auto simp: src_def)

lemma src_window_length: "src s xs \<Longrightarrow> stop s - rdNext s \<le> length xs"
  using src_open [of s xs] by (auto simp: src_def window_def)

lemma next_byte_src:
  assumes "src s (x # xs)" "rdNext s < stop s"
  shows "\<exists>s'. next_byte s = Inr (uint x, s') \<and> src s' xs"
proof -
  have b: "rdNext s < length (buff s)" using src_open [OF assms(1)] assms(2) by simp
  have "seg (rdNext s) (rdNext s + 1) (buff s) = [x]"
    using src_move(2) [OF assms(1), of 1] assms(2) by simp
  then have "buff s ! rdNext s = x" using b seg_Cons [of "rdNext s" "Suc (rdNext s)" "buff s"] by simp
  with b src_move(1) [OF assms(1), of 1] assms(2) show ?thesis by (simp add: next_byte_def)
qed

lemma GetChar_src:
  assumes "src s (x # xs)"
  shows "\<exists>s'. FCGX_GetChar fill s = Inr (uint x, s') \<and> src s' xs"
proof (cases "rdNext s = stop s")
  case True
  from src_fill [OF assms this] obtain s' where
    "fill s = Inr s'" "\<not> isClosed s'" "rdNext s' < stop s'"
    and *: "src (s'\<lparr>stopUnget := Some (rdNext s')\<rparr>) (x # xs)"
    by auto
  with next_byte_src [OF *] src_open [OF assms] True show ?thesis
    by (auto simp: FCGX_GetChar_def Let_def)
next
  case False
  with next_byte_src [OF assms] src_open [OF assms] show ?thesis
    by (auto simp: FCGX_GetChar_def)
qed

lemma GetChar_end:
  assumes "src s []"
  shows "\<exists>s'. FCGX_GetChar fill s = Inr (EOF, s') \<and> fin s'"
  using src_fill_end [OF assms] src_open [OF assms] src_window_length [OF assms] fin_closed
  by (fastforce simp: FCGX_GetChar_def)

text \<open>
  \<open>got n acc xs r\<close>: what a read of \<open>n\<close> bytes returns when \<open>acc\<close> is already moved and \<open>xs\<close> is
  still to come.
\<close>

definition got :: "nat \<Rightarrow> bytes \<Rightarrow> bytes \<Rightarrow> (bytes \<times> stream_io) res \<Rightarrow> bool" where
  "got n acc xs r \<longleftrightarrow>
     (if n - length acc \<le> length xs
      then \<exists>s'. r = Inr (acc @ take (n - length acc) xs, s') \<and> src s' (drop (n - length acc) xs)
      else \<exists>s'. r = Inr (acc @ xs, s') \<and> fin s')"

lemma got_append:
  assumes "got n (acc @ take m xs) (drop m xs) r" "m \<le> length xs" "length acc + m \<le> n"
  shows "got n acc xs r"
proof -
  have "take (n - length acc) xs = take m xs @ take (n - (length acc + m)) (drop m xs)"
    using take_add [of m "n - (length acc + m)" xs] assms(3) by simp
  moreover have "drop (n - length acc) xs = drop (n - (length acc + m)) (drop m xs)"
    using assms(3) by simp
  moreover have "n - (length acc + m) \<le> length (drop m xs) \<longleftrightarrow> n - length acc \<le> length xs"
    using assms(2,3) by simp linarith
  moreover have "n - length (acc @ take m xs) = n - (length acc + m)" using assms(2) by simp
  ultimately show ?thesis using assms(1) unfolding got_def by (simp only: append_assoc append_take_drop_id)
qed

lemma GetStr_loop_src:
  assumes "src s xs" "rdNext s < stop s" "length xs \<le> k" "length acc < n"
  shows "got n acc xs (GetStr_loop fill k n acc s)"
  using assms
proof (induction k arbitrary: s xs acc)
  case 0
  with src_window_length [OF 0(1)] show ?case by simp
next
  case (Suc k)
  define m where "m = min (n - length acc) (stop s - rdNext s)"
  have m: "0 < m" "m \<le> length xs" "rdNext s + m \<le> stop s"
    using Suc.prems src_window_length [OF Suc.prems(1)] by (auto simp: m_def)
  let ?s = "s\<lparr>rdNext := rdNext s + m\<rparr>"
  have mv: "copy_out m s = Inr (take m xs, ?s)" and src: "src ?s (drop m xs)"
    using src_move [OF Suc.prems(1) m(3)] src_open [OF Suc.prems(1)] m(3)
    by (simp_all add: copy_out_def)
  have step: "GetStr_loop fill (Suc k) n acc s =
      (if length acc + m = n then Inr (acc @ take m xs, ?s)
       else bindR (fill ?s) (\<lambda>s. if isClosed s then Inr (acc @ take m xs, s)
         else GetStr_loop fill k n (acc @ take m xs) (s\<lparr>stopUnget := Some (rdNext s)\<rparr>)))"
    using mv m Suc.prems(2) src_open [OF src] by (auto simp: m_def [symmetric] Let_def)
  show ?case
  proof (cases "length acc + m = n")
    case True
    with m src show ?thesis by (auto simp: got_def step simp del: GetStr_loop.simps)
  next
    case False
    then have all: "rdNext ?s = stop ?s" and short: "length (acc @ take m xs) < n"
      using m by (auto simp: m_def)
    show ?thesis
    proof (cases "drop m xs = []")
      case True
      then have "xs = take m xs" by simp
      moreover from True src have "src ?s []" by simp
      then obtain s' where "fill ?s = Inr s'" "fin s'" using src_fill_end by blast
      ultimately show ?thesis using short m fin_closed [of s']
        by (auto simp: got_def step False simp del: GetStr_loop.simps)
    next
      case ne: False
      from src_fill [OF src all this] obtain s' where s': "fill ?s = Inr s'" "\<not> isClosed s'"
        "rdNext s' < stop s'" "src (s'\<lparr>stopUnget := Some (rdNext s')\<rparr>) (drop m xs)" by blast
      have "got n (acc @ take m xs) (drop m xs)
          (GetStr_loop fill k n (acc @ take m xs) (s'\<lparr>stopUnget := Some (rdNext s')\<rparr>))"
        using Suc.IH [OF s'(4)] s'(3) short m Suc.prems(3) by simp
      then have "got n acc xs
          (GetStr_loop fill k n (acc @ take m xs) (s'\<lparr>stopUnget := Some (rdNext s')\<rparr>))"
        by (rule got_append) (use m short in simp_all)
      then show ?thesis using s' False by (simp add: step del: GetStr_loop.simps)
    qed
  qed
qed

lemma GetStr_pos:
  assumes "src s xs" "length xs < k" "0 < n"
  shows "got (nat n) [] xs (FCGX_GetStr fill k n s)"
proof -
  note op = src_open [OF assms(1)]
  show ?thesis
  proof (cases "n \<le> int (stop s) - int (rdNext s)")
    case True
    then have "rdNext s + nat n \<le> stop s" using assms(3) op by linarith
    with src_move [OF assms(1) this] src_window_length [OF assms(1)] op assms(3) True
    show ?thesis by (auto simp: FCGX_GetStr_def copy_out_def got_def)
  next
    case slow: False
    then have eq: "FCGX_GetStr fill k n s = GetStr_loop fill k (nat n) [] s"
      using op assms(3) by (simp add: FCGX_GetStr_def)
    show ?thesis
    proof (cases "rdNext s < stop s")
      case True
      with GetStr_loop_src [OF assms(1) True, of k "[]" "nat n"] assms show ?thesis by (simp add: eq)
    next
      case False
      then have e: "rdNext s = stop s" using op by simp
      obtain j where k: "k = Suc j" using assms(2) by (cases k) auto
      show ?thesis
      proof (cases "xs = []")
        case True
        with src_fill_end assms(1) obtain s' where "fill s = Inr s'" "fin s'" by blast
        with True e op assms(3) fin_closed [of s'] show ?thesis
          unfolding eq unfolding k got_def by auto
      next
        case ne: False
        from src_fill [OF assms(1) e ne] obtain s' where s': "fill s = Inr s'" "\<not> isClosed s'"
          "rdNext s' < stop s'" "src (s'\<lparr>stopUnget := Some (rdNext s')\<rparr>) xs" by blast
        with GetStr_loop_src [OF s'(4), of j "[]" "nat n"] assms e op show ?thesis
          unfolding eq by (simp add: k)
      qed
    qed
  qed
qed

lemma GetStr_src:
  assumes "src s xs" "length xs < k" "0 \<le> n"
  shows "got (nat n) [] xs (FCGX_GetStr fill k n s)"
proof (cases "n = 0")
  case True
  with assms(1) show ?thesis by (simp add: got_def FCGX_GetStr_def)
next
  case False
  with GetStr_pos [OF assms(1,2), of n] assms(3) show ?thesis by simp
qed

lemma GetStr_full:
  assumes "src s xs" "length xs < k" "0 \<le> n" "nat n \<le> length xs"
  shows "\<exists>s'. FCGX_GetStr fill k n s = Inr (take (nat n) xs, s') \<and> src s' (drop (nat n) xs)"
  using GetStr_src [OF assms(1-3)] assms(4) by (simp add: got_def)

lemma GetStr_short:
  assumes "src s xs" "length xs < k" "0 \<le> n" "length xs < nat n"
  shows "\<exists>s'. FCGX_GetStr fill k n s = Inr (xs, s') \<and> fin s'"
  using GetStr_src [OF assms(1-3)] assms(4) by (simp add: got_def)

lemma GetLine_loop_src:
  assumes "src s xs"
  shows "\<exists>s'. GetLine_loop fill n acc s =
      Inr (if 0 < n \<and> acc = [] \<and> xs = [] then None else Some (acc @ line_of n xs), s')
    \<and> (if length xs < n \<and> 10 \<notin> set xs then fin s' else src s' (drop (length (line_of n xs)) xs))"
  using assms
proof (induction n arbitrary: acc s xs)
  case 0
  then show ?case by auto
next
  case (Suc n)
  show ?case
  proof (cases xs)
    case Nil
    with GetChar_end Suc.prems obtain s' where "FCGX_GetChar fill s = Inr (EOF, s')" "fin s'"
      by blast
    with Nil show ?thesis by simp
  next
    case (Cons x ys)
    then obtain s' where s': "FCGX_GetChar fill s = Inr (uint x, s')" "src s' ys"
      using GetChar_src Suc.prems by blast
    have u: "uint x \<noteq> - 1" using uint_byte(1) [of x] by linarith
    have nl: "uint x = 10 \<longleftrightarrow> x = 10" using word_uint_eq_iff [of x 10] by simp
    from Suc.IH [OF s'(2), of "acc @ [x]"] s' u nl Cons show ?thesis by auto
  qed
qed

lemma GetLine_src:
  assumes "src s xs" "2 \<le> n"
  shows "\<exists>s'. FCGX_GetLine fill n s =
      Inr (if xs = [] then None else Some (line_of (nat (n - 1)) xs), s')
    \<and> (if length xs < nat (n - 1) \<and> 10 \<notin> set xs then fin s'
       else src s' (drop (length (line_of (nat (n - 1)) xs)) xs))"
  using GetLine_loop_src [OF assms(1), of "nat (n - 1)" "[]"] assms(2)
  by (auto simp: FCGX_GetLine_def)

end

section \<open>The contract between the writers and \<open>emptyBuffProc\<close>\<close>

text \<open>
  A byte sink: an empty procedure, an invariant, the offset \<open>base\<close> at which the content of the
  buffer starts, and the relation \<open>done s xs\<close> (\<open>xs\<close> is the content already passed on).
  \<open>snk s zs\<close> then says that the stream has taken exactly \<open>zs\<close> so far.
\<close>

locale byte_sink =
  fixes emptyp :: empty_proc
    and base :: nat
    and inv :: "stream_io \<Rightarrow> bool"
    and passed :: "stream_io \<Rightarrow> bytes \<Rightarrow> bool"
  assumes inv_writer: "inv s \<Longrightarrow>
      \<not> isReader s \<and> \<not> isClosed s \<and> base \<le> wrNext s \<and> base < stop s \<and> wrNext s \<le> stop s
      \<and> stop s \<le> length (buff s)"
    and inv_put: "inv s \<Longrightarrow> wrNext s + length bs \<le> stop s \<Longrightarrow>
      inv (s\<lparr>buff := blit (wrNext s) bs (buff s), wrNext := wrNext s + length bs\<rparr>)"
    and passed_put: "passed s xs \<Longrightarrow> passed (s\<lparr>buff := b, wrNext := w\<rparr>) xs"
    and empty_ok: "inv s \<Longrightarrow> passed s xs \<Longrightarrow>
      \<exists>s'. emptyp False s = Inr s' \<and> inv s' \<and> wrNext s' = base
        \<and> passed s' (xs @ seg base (wrNext s) (buff s))"
begin

definition snk :: "stream_io \<Rightarrow> bytes \<Rightarrow> bool" where
  "snk s zs \<longleftrightarrow> inv s \<and> (\<exists>xs. passed s xs \<and> zs = xs @ seg base (wrNext s) (buff s))"

lemma snk_copy_in:
  assumes "snk s zs" "wrNext s + length bs \<le> stop s"
  shows "\<exists>s'. copy_in bs s = Inr s' \<and> snk s' (zs @ bs) \<and> stop s' = stop s
    \<and> wrNext s' = wrNext s + length bs"
proof -
  obtain xs where xs: "inv s" "passed s xs" "zs = xs @ seg base (wrNext s) (buff s)"
    using assms(1) by (auto simp: snk_def)
  note w = inv_writer [OF xs(1)]
  let ?b = "blit (wrNext s) bs (buff s)"
  have "seg base (wrNext s + length bs) ?b = seg base (wrNext s) ?b @ seg (wrNext s) (wrNext s + length bs) ?b"
    using w by (intro seg_split) simp_all
  also have "\<dots> = seg base (wrNext s) (buff s) @ bs"
    using w assms(2) by (simp add: seg_blit_below seg_blit_same)
  finally show ?thesis
    using inv_put [OF xs(1) assms(2)] passed_put [OF xs(2)] w assms(2) xs(3)
    by (auto simp: copy_in_def snk_def)
qed

lemma snk_empty:
  assumes "snk s zs" shows "\<exists>s'. emptyp False s = Inr s' \<and> snk s' zs \<and> wrNext s' = base"
proof -
  obtain xs where xs: "inv s" "passed s xs" "zs = xs @ seg base (wrNext s) (buff s)"
    using assms by (auto simp: snk_def)
  then show ?thesis using empty_ok [OF xs(1,2)] by (auto simp: snk_def)
qed

lemma snk_open: "snk s zs \<Longrightarrow> \<not> isReader s \<and> \<not> isClosed s \<and> wrNext s \<le> stop s \<and> base < stop s"
  using inv_writer by (auto simp: snk_def)

lemma PutStr_loop_snk:
  assumes "snk s zs" "wrNext s < stop s" "length str \<le> k" "str \<noteq> []"
  shows "\<exists>s'. PutStr_loop emptyp k moved str s = Inr (int (moved + length str), s') \<and> snk s' (zs @ str)"
  using assms
proof (induction k arbitrary: s zs str moved)
  case 0
  then show ?case by simp
next
  case (Suc k)
  define m where "m = min (length str) (stop s - wrNext s)"
  have m: "0 < m" "wrNext s + m \<le> stop s" "m \<le> length str"
    using Suc.prems by (auto simp: m_def)
  obtain s1 where s1: "copy_in (take m str) s = Inr s1" "snk s1 (zs @ take m str)"
    using snk_copy_in [OF Suc.prems(1), of "take m str"] m by auto
  show ?case
  proof (cases "m = length str")
    case True
    with s1 m Suc.prems(2) show ?thesis by (auto simp: Let_def simp flip: m_def)
  next
    case False
    obtain s2 where s2: "emptyp False s1 = Inr s2" "snk s2 (zs @ take m str)" "wrNext s2 = base"
      using snk_empty [OF s1(2)] by blast
    have "\<exists>s'. PutStr_loop emptyp k (moved + m) (drop m str) s2 =
        Inr (int (moved + m + length (drop m str)), s') \<and> snk s' ((zs @ take m str) @ drop m str)"
      using Suc.IH [OF s2(2), of "drop m str" "moved + m"] snk_open [OF s2(2)] s2(3) m False Suc.prems(3)
      by simp
    then show ?thesis
      using s1 s2 m False Suc.prems(2) snk_open [OF s1(2)] by (auto simp: Let_def simp flip: m_def)
  qed
qed

lemma PutStr_snk:
  assumes "snk s zs" "length str < k"
  shows "\<exists>s'. FCGX_PutStr emptyp k str s = Inr (int (length str), s') \<and> snk s' (zs @ str)"
proof -
  note op = snk_open [OF assms(1)]
  show ?thesis
  proof (cases "int (length str) \<le> int (stop s) - int (wrNext s)")
    case True
    then have "wrNext s + length str \<le> stop s" by linarith
    with snk_copy_in [OF assms(1) this] True show ?thesis by (auto simp: FCGX_PutStr_def)
  next
    case slow: False
    then have eq: "FCGX_PutStr emptyp k str s = PutStr_loop emptyp k 0 str s" and ne: "str \<noteq> []"
      using op by (auto simp: FCGX_PutStr_def)
    show ?thesis
    proof (cases "wrNext s < stop s")
      case True
      with PutStr_loop_snk [OF assms(1) True, of str k 0] assms(2) ne show ?thesis by (simp add: eq)
    next
      case False
      then have full: "wrNext s = stop s" using op by simp
      obtain j where k: "k = Suc j" using assms(2) by (cases k) auto
      have c0: "copy_in [] s = Inr s"
        using inv_writer [of s] assms(1) by (simp add: copy_in_def snk_def)
      obtain s2 where s2: "emptyp False s = Inr s2" "snk s2 zs" "wrNext s2 = base"
        using snk_empty [OF assms(1)] by blast
      with PutStr_loop_snk [OF s2(2), of str j 0] snk_open [OF s2(2)] assms(2) ne full op c0
      show ?thesis unfolding eq by (simp add: k)
    qed
  qed
qed

lemma PutChar_snk:
  assumes "snk s zs"
  shows "\<exists>s'. FCGX_PutChar emptyp c s = Inr (c mod 256, s') \<and> snk s' (zs @ [word_of_int c])"
proof -
  note op = snk_open [OF assms]
  have u: "uint (word_of_int c :: byte) = c mod 256" by (simp add: uint_word_of_int)
  show ?thesis
  proof (cases "wrNext s = stop s")
    case True
    obtain s2 where s2: "emptyp False s = Inr s2" "snk s2 zs" "wrNext s2 = base"
      using snk_empty [OF assms] by blast
    with snk_copy_in [OF s2(2), of "[word_of_int c]"] snk_open [OF s2(2)] True op u
    show ?thesis by (auto simp: FCGX_PutChar_def Let_def)
  next
    case False
    with snk_copy_in [OF assms, of "[word_of_int c]"] op u
    show ?thesis by (auto simp: FCGX_PutChar_def Let_def)
  qed
qed

lemma FFlush_snk:
  "snk s zs \<Longrightarrow> \<exists>s'. FCGX_FFlush emptyp s = Inr (0, s') \<and> snk s' zs \<and> wrNext s' = base"
  using snk_empty [of s zs] snk_open by (fastforce simp: FCGX_FFlush_def)

end

end
