(* ===== verification/Fcgi_Params.thy ===== *)
theory Fcgi_Params
  imports Fcgi_Stream
begin

text \<open>
  The environment of a request (\<open>libfcgi/fcgiapp.c\<close>, section Parameters): the growing vector of
  \<open>name=value\<close> strings, lookup in it, and \<open>ReadParams\<close>, which decodes the name-value pairs of an
  \<open>FCGI_PARAMS\<close> stream.

  A cell of the vector is a string, the null pointer, or not yet initialised.  A string is the
  list of its bytes before the terminating NUL that \<open>ReadParams\<close> stores, so it can hold NULs.
  \<open>parse_pairs\<close> is the specification of the decoding as a function of the bytes alone.
\<close>

unbundle bit_operations_syntax

section \<open>The vector\<close>

datatype cell = Garbage | Null | Str bytes

record Params =
  vec :: "cell list"
  plength :: nat
  cur :: nat

definition NewParams :: "nat \<Rightarrow> Params res" where
  "NewParams len =
     (if len = 0 then Inl HeapOverflow
      else Inr \<lparr>vec = (replicate len Garbage)[0 := Null], plength = len, cur = 0\<rparr>)"

definition FreeParams :: "Params option \<Rightarrow> Params option res" where
  "FreeParams pp =
     (case pp of
        None \<Rightarrow> Inr None
      | Some p \<Rightarrow>
          if list_all (\<lambda>c. case c of Str _ \<Rightarrow> True | _ \<Rightarrow> False) (take (cur p) (vec p))
          then Inr None else Inl OutOfBounds)"

text \<open>\<open>realloc(vec, length * sizeof(char *))\<close>, whose result the code does not check.\<close>

definition grow :: "nat \<Rightarrow> cell list \<Rightarrow> int \<Rightarrow> cell list res" where
  "grow lim v len =
     (if 0 \<le> len \<and> nat len * 8 \<le> lim
      then Inr (take (nat len) v @ replicate (nat len - length v) Garbage)
      else Inl NullDeref)"

definition PutParam :: "nat \<Rightarrow> Params \<Rightarrow> bytes \<Rightarrow> Params res" where
  "PutParam lim p nameValue =
     (if length (vec p) \<le> cur p then Inl HeapOverflow
      else let v = (vec p)[cur p := Str nameValue]; size = Suc (cur p) in
        bindR (if plength p \<le> size
               then let len = wrap32 (int (plength p) * 2) in
                 bindR (grow lim v len) (\<lambda>v. Inr (v, nat len))
               else Inr (v, plength p)) (\<lambda>(v, len).
        if length v \<le> size then Inl HeapOverflow
        else Inr \<lparr>vec = v[size := Null], plength = len, cur = size\<rparr>))"

text \<open>
  \<open>FCGX_GetParam\<close>: \<open>strncmp(name, *p, len) == 0 && (*p)[len] == '='\<close> over the cells up to the
  null pointer; the result is the C string that starts after the equals sign.
\<close>

fun GetParam_loop :: "bytes \<Rightarrow> cell list \<Rightarrow> bytes option res" where
  "GetParam_loop name [] = Inl OutOfBounds"
| "GetParam_loop name (Garbage # v) = Inl OutOfBounds"
| "GetParam_loop name (Null # v) = Inr None"
| "GetParam_loop name (Str s # v) =
     (if take (length name) s = name \<and> length name < length s \<and> s ! length name = 61
      then Inr (Some (cstr (drop (Suc (length name)) s)))
      else GetParam_loop name v)"

definition FCGX_GetParam :: "bytes option \<Rightarrow> cell list option \<Rightarrow> bytes option res" where
  "FCGX_GetParam name envp =
     (case (name, envp) of
        (Some n, Some v) \<Rightarrow> GetParam_loop (cstr n) v
      | _ \<Rightarrow> Inr None)"

section \<open>Decoding name-value pairs\<close>

text \<open>
  One length: a byte below 128, or four bytes of which the first has its top bit set.  \<open>None\<close> is
  the branch that sets \<open>FCGX_PARAMS_ERROR\<close>.
\<close>

definition long_length :: "int \<Rightarrow> bytes \<Rightarrow> int" where
  "long_length n b = push_bit 24 (n AND 127) + push_bit 16 (uint (b ! 0))
     + push_bit 8 (uint (b ! 1)) + uint (b ! 2)"

definition ReadLength :: "fill_proc \<Rightarrow> nat \<Rightarrow> int \<Rightarrow> stream_io \<Rightarrow> (int option \<times> stream_io) res" where
  "ReadLength fill f n s =
     (if n AND 128 \<noteq> 0
      then bindR (FCGX_GetStr fill f 3 s) (\<lambda>(lenBuff, s).
        Inr (if length lenBuff \<noteq> 3 then None else Some (long_length n lenBuff), s))
      else Inr (Some n, s))"

text \<open>\<open>Malloc\<close>: an assertion that the block was allocated.\<close>

definition Malloc :: "nat \<Rightarrow> os_unix \<Rightarrow> unit res" where
  "Malloc sz w = ASSERT (sz = 0 \<or> sz \<le> heapLimit w)"

text \<open>
  The tail of the loop body of \<open>ReadParams\<close>, from the allocation of the string: the block has
  \<open>(size_t) (nameLen + valueLen + 2)\<close> bytes, where the sum is computed in \<open>int\<close>.
\<close>

definition ReadPair ::
  "fill_proc \<Rightarrow> nat \<Rightarrow> int \<Rightarrow> int \<Rightarrow> stream_io \<Rightarrow> (bytes option \<times> stream_io) res" where
  "ReadPair fill f nameLen valueLen s =
     (let size = size_of_int (wrap32 (nameLen + valueLen + 2)) in
      bindR (Malloc size (os s)) (\<lambda>_.
      bindR (FCGX_GetStr fill f nameLen s) (\<lambda>(nm, s).
      if size < length nm then Inl HeapOverflow
      else if int (length nm) \<noteq> nameLen then Inr (None, s)
      else if int size \<le> nameLen then Inl HeapOverflow
      else bindR (FCGX_GetStr fill f valueLen s) (\<lambda>(val, s).
      if size < length nm + 1 + length val then Inl HeapOverflow
      else if int (length val) \<noteq> valueLen then Inr (None, s)
      else if int size \<le> nameLen + valueLen + 1 then Inl HeapOverflow
      else Inr (Some (nm @ 61 # val), s)))))"

text \<open>The loop body of \<open>ReadParams\<close>; \<open>None\<close> are its error branches.\<close>

definition ReadNameValue ::
  "fill_proc \<Rightarrow> nat \<Rightarrow> int \<Rightarrow> stream_io \<Rightarrow> (bytes option \<times> stream_io) res" where
  "ReadNameValue fill f c s =
     bindR (ReadLength fill f c s) (\<lambda>(nl, s).
     case nl of None \<Rightarrow> Inr (None, s) | Some nameLen \<Rightarrow>
     bindR (FCGX_GetChar fill s) (\<lambda>(c, s).
     if c = EOF then Inr (None, s)
     else bindR (ReadLength fill f c s) (\<lambda>(vl, s).
     case vl of None \<Rightarrow> Inr (None, s) | Some valueLen \<Rightarrow> ReadPair fill f nameLen valueLen s)))"

primrec ReadParams ::
  "fill_proc \<Rightarrow> nat \<Rightarrow> nat \<Rightarrow> Params \<Rightarrow> stream_io \<Rightarrow> (int \<times> Params \<times> stream_io) res" where
  "ReadParams fill f 0 p s = Inl OutOfFuel"
| "ReadParams fill f (Suc k) p s =
     bindR (FCGX_GetChar fill s) (\<lambda>(c, s).
     if c = EOF then Inr (0, p, s)
     else bindR (ReadNameValue fill f c s) (\<lambda>(nv, s).
     case nv of
       None \<Rightarrow> Inr (- 1, p, SetError FCGX_PARAMS_ERROR s)
     | Some nameValue \<Rightarrow>
         bindR (PutParam (heapLimit (os s)) p nameValue) (\<lambda>p. ReadParams fill f k p s)))"

section \<open>The vector as a list of strings\<close>

definition params_rel :: "Params \<Rightarrow> bytes list \<Rightarrow> bool" where
  "params_rel p es \<longleftrightarrow> length (vec p) = plength p \<and> cur p = length es \<and> cur p < plength p
     \<and> take (cur p) (vec p) = map Str es \<and> vec p ! cur p = Null"

lemma NewParams_rel: "0 < n \<Longrightarrow> \<exists>p. NewParams n = Inr p \<and> params_rel p []"
  by (cases n) (simp_all add: NewParams_def params_rel_def)

lemma FreeParams_rel: "params_rel p es \<Longrightarrow> FreeParams (Some p) = Inr None"
proof -
  assume "params_rel p es"
  then have "take (cur p) (vec p) = map Str es" unfolding params_rel_def by blast
  then show ?thesis by (simp add: FreeParams_def list_all_iff)
qed

lemma take_list_update_snoc:
  "i < length xs \<Longrightarrow> take (Suc i) (xs[i := x]) = take i xs @ [x]"
  by (simp add: take_Suc_conv_app_nth)

lemma PutParam_rel:
  assumes "params_rel p es" "16 * Suc (length es) \<le> lim" "2 * int (Suc (length es)) \<le> INT_MAX"
  shows "\<exists>p'. PutParam lim p nv = Inr p' \<and> params_rel p' (es @ [nv])"
proof -
  let ?i = "length es" and ?v = "(vec p)[length es := Str nv]"
  have p: "length (vec p) = plength p" "cur p = ?i" "?i < plength p" "take ?i (vec p) = map Str es"
    using assms(1) by (auto simp: params_rel_def)
  have tk: "take (Suc ?i) ?v = map Str (es @ [nv])"
    using p by (simp add: take_list_update_snoc)
  show ?thesis
  proof (cases "plength p \<le> Suc ?i")
    case True
    then have pl: "plength p = Suc ?i" using p(3) by simp
    define L where "L = 2 * Suc ?i"
    have w: "wrap32 (int (plength p) * 2) = int L" using assms(3) pl by (simp add: L_def)
    have L: "length ?v + Suc ?i = L" "L * 8 \<le> lim" using p pl assms(2) by (simp_all add: L_def)
    moreover have "L - length ?v = Suc ?i" using L(1) by simp
    ultimately have "grow lim ?v (int L) = Inr (?v @ replicate (Suc ?i) Garbage)"
      unfolding grow_def by (simp del: replicate_Suc)
    then have "PutParam lim p nv = Inr \<lparr>vec = (?v @ replicate (Suc ?i) Garbage)[Suc ?i := Null],
        plength = L, cur = Suc ?i\<rparr>"
      using p True by (simp add: PutParam_def w Let_def)
    with tk p pl L show ?thesis by (simp add: params_rel_def nth_list_update_eq)
  next
    case False
    with tk p show ?thesis by (simp add: PutParam_def params_rel_def Let_def)
  qed
qed

text \<open>Lookup in the vector, as a function of its strings.\<close>

fun lookup_env :: "bytes \<Rightarrow> bytes list \<Rightarrow> bytes option" where
  "lookup_env name [] = None"
| "lookup_env name (e # es) =
     (if take (Suc (length name)) e = name @ [61] then Some (cstr (drop (Suc (length name)) e))
      else lookup_env name es)"

lemma take_Suc_eq:
  "take (Suc n) s = xs @ [x] \<longleftrightarrow> take n s = xs \<and> n < length s \<and> s ! n = x" if "length xs = n"
  using that by (cases "n < length s") (auto simp: take_Suc_conv_app_nth)

lemma GetParam_loop_lookup:
  "GetParam_loop name (map Str es @ Null # v) = Inr (lookup_env name es)"
  by (induction es) (simp_all add: take_Suc_eq)

lemma GetParam_rel:
  assumes "params_rel p es"
  shows "FCGX_GetParam (Some name) (Some (vec p)) = Inr (lookup_env (cstr name) es)"
proof -
  have p: "length es < length (vec p)" "take (length es) (vec p) = map Str es" "vec p ! length es = Null"
    using assms by (auto simp: params_rel_def)
  then have "vec p = map Str es @ Null # drop (Suc (length es)) (vec p)"
    by (metis id_take_nth_drop)
  then have "GetParam_loop (cstr name) (vec p) = Inr (lookup_env (cstr name) es)"
    by (metis GetParam_loop_lookup)
  then show ?thesis by (simp add: FCGX_GetParam_def)
qed

section \<open>Specification of the decoding\<close>

definition parse_len :: "bytes \<Rightarrow> (nat \<times> bytes) option" where
  "parse_len bs =
     (case bs of
        [] \<Rightarrow> None
      | b # r \<Rightarrow>
          if unat b < 128 then Some (unat b, r)
          else if length r < 3 then None
          else Some ((unat b - 128) * 16777216 + unat (r ! 0) * 65536 + unat (r ! 1) * 256 + unat (r ! 2),
                 drop 3 r))"

lemma parse_len_shorter: "parse_len bs = Some (n, r) \<Longrightarrow> length r < length bs"
  by (auto simp: parse_len_def split: list.splits if_splits)

text \<open>
  \<open>parse_pair lim bs\<close> decodes the first pair: \<open>Some (Some ((k, v), r))\<close> is the pair and the bytes
  after it, \<open>Some None\<close> that the bytes break off, and \<open>None\<close> that the announced lengths are more
  than a block of the heap (of at most \<open>lim\<close> bytes) or an \<open>int\<close> can take.  \<open>parse_pairs\<close> decodes
  all of \<open>bs\<close>; its flag says whether \<open>bs\<close> ends after a complete pair.
\<close>

definition parse_pair :: "nat \<Rightarrow> bytes \<Rightarrow> ((bytes \<times> bytes) \<times> bytes) option option" where
  "parse_pair lim bs =
     (case parse_len bs of
        None \<Rightarrow> Some None
      | Some (n, r) \<Rightarrow> (case parse_len r of
          None \<Rightarrow> Some None
        | Some (v, r') \<Rightarrow>
            if lim < n + v + 2 \<or> INT_MAX < int (n + v + 2) then None
            else if length r' < n + v then Some None
            else Some (Some ((take n r', take v (drop n r')), drop (n + v) r'))))"

lemma parse_pair_shorter: "parse_pair lim bs = Some (Some (kv, r)) \<Longrightarrow> length r < length bs"
  by (auto simp: parse_pair_def dest!: parse_len_shorter split: option.splits if_splits) linarith

function parse_pairs :: "nat \<Rightarrow> bytes \<Rightarrow> ((bytes \<times> bytes) list \<times> bool) option" where
  "parse_pairs lim bs =
     (if bs = [] then Some ([], True)
      else case parse_pair lim bs of
        None \<Rightarrow> None
      | Some None \<Rightarrow> Some ([], False)
      | Some (Some (kv, r)) \<Rightarrow> map_option (\<lambda>(kvs, ok). (kv # kvs, ok)) (parse_pairs lim r))"
  by pat_completeness auto
termination
  by (relation "measure (\<lambda>(lim, bs). length bs)") (auto dest!: parse_pair_shorter)

declare parse_pairs.simps [simp del]

definition pair_entry :: "bytes \<times> bytes \<Rightarrow> bytes" where
  "pair_entry kv = fst kv @ 61 # snd kv"

lemma unat_byte: "unat (b :: byte) < 256"
  by (rule order_less_le_trans [OF unsigned_less]) simp

lemma div_128: "(m :: nat) < 256 \<Longrightarrow> m div 128 = (if m < 128 then 0 else Suc 0)"
  by (auto intro: div_nat_eqI)

lemma mod_128: "(m :: nat) < 256 \<Longrightarrow> m mod 128 = (if m < 128 then m else m - 128)"
  using div_128 [of m] minus_div_mult_eq_mod [of m 128] by (auto split: if_splits)

lemma and_128: "(uint (b :: byte) AND 128 \<noteq> 0) \<longleftrightarrow> \<not> unat b < 128"
proof -
  have "uint b AND 2 ^ 7 = 0 \<longleftrightarrow> \<not> bit (int (unat b)) 7"
    unfolding uint_nat by (rule and_exp_eq_0_iff_not_bit)
  moreover have "bit (int (unat b)) 7 \<longleftrightarrow> odd (unat b div 128)"
    by (simp only: bit_of_nat_iff_bit) (simp add: bit_iff_odd)
  ultimately show ?thesis using div_128 [OF unat_byte [of b]] by (simp split: if_splits)
qed

lemma long_length_eq:
  assumes "\<not> unat b < 128"
  shows "long_length (uint (b :: byte)) r =
    int ((unat b - 128) * 16777216 + unat (r ! 0) * 65536 + unat (r ! 1) * 256 + unat (r ! 2))"
proof -
  have "(127 :: int) = mask 7" by (simp add: mask_eq_exp_minus_1)
  then have "int (unat b) AND 127 = int (unat b mod 128)"
    by (simp only: take_bit_eq_mask [symmetric]) (simp add: take_bit_eq_mod zmod_int)
  then have "int (unat b) AND 127 = int (unat b - 128)"
    using assms mod_128 [OF unat_byte [of b]] by simp
  then show ?thesis unfolding long_length_def push_bit_eq_mult uint_nat
    by (simp only: of_nat_add of_nat_mult) simp
qed

text \<open>The encoding of pairs in the FastCGI specification, which web servers produce.\<close>

definition encode_len :: "nat \<Rightarrow> bytes" where
  "encode_len n =
     (if n < 128 then [of_nat n]
      else [of_nat (n div 16777216 + 128), of_nat (n div 65536), of_nat (n div 256), of_nat n])"

definition encode_pair :: "bytes \<times> bytes \<Rightarrow> bytes" where
  "encode_pair kv = encode_len (length (fst kv)) @ encode_len (length (snd kv)) @ fst kv @ snd kv"

definition encode_pairs :: "(bytes \<times> bytes) list \<Rightarrow> bytes" where
  "encode_pairs kvs = concat (map encode_pair kvs)"

definition pair_fits :: "nat \<Rightarrow> bytes \<times> bytes \<Rightarrow> bool" where
  "pair_fits lim kv \<longleftrightarrow> length (fst kv) + length (snd kv) + 2 \<le> lim
     \<and> int (length (fst kv) + length (snd kv) + 2) \<le> INT_MAX"

lemma unat_of_nat_byte: "unat (of_nat n :: byte) = n mod 256"
  by (simp add: unat_of_nat take_bit_eq_mod)

lemma long_digits:
  "(n :: nat) div 16777216 * 16777216 + n div 65536 mod 256 * 65536 + n div 256 mod 256 * 256 + n mod 256 = n"
proof -
  have "n div 256 = 256 * (n div 256 div 256) + n div 256 mod 256"
    "n div 65536 = 256 * (n div 65536 div 256) + n div 65536 mod 256"
    "n = 256 * (n div 256) + n mod 256" by simp_all
  moreover have "n div 256 div 256 = n div 65536" "n div 65536 div 256 = n div 16777216"
    by (simp_all add: div_mult2_eq [symmetric])
  ultimately show ?thesis by linarith
qed

lemma parse_len_encode:
  assumes "n < 2147483648" shows "parse_len (encode_len n @ r) = Some (n, r)"
proof (cases "n < 128")
  case True
  then show ?thesis by (simp add: encode_len_def parse_len_def unat_of_nat_byte)
next
  case False
  have "n div 16777216 < 128" using assms by (simp add: div_less_iff_less_mult)
  then have "unat (of_nat (n div 16777216 + 128) :: byte) = n div 16777216 + 128"
    by (simp only: unat_of_nat_byte) simp
  then show ?thesis using False long_digits [of n]
    by (simp add: encode_len_def parse_len_def unat_of_nat_byte)
qed

lemma parse_pairs_encode:
  assumes "\<forall>kv \<in> set kvs. pair_fits lim kv"
  shows "parse_pairs lim (encode_pairs kvs) = Some (kvs, True)"
  using assms
proof (induction kvs)
  case Nil
  then show ?case by (simp add: encode_pairs_def parse_pairs.simps)
next
  case (Cons kv kvs)
  obtain k v where kv: "kv = (k, v)" by (cases kv)
  have fit: "length k + length v + 2 \<le> lim" "int (length k + length v + 2) \<le> INT_MAX"
    using Cons.prems by (auto simp: kv pair_fits_def)
  have e: "encode_pairs (kv # kvs) = encode_len (length k) @ encode_len (length v) @ k @ v @ encode_pairs kvs"
    by (simp add: encode_pairs_def encode_pair_def kv)
  have "length k < 2147483648" "length v < 2147483648" using fit(2) by linarith+
  then have "parse_pair lim (encode_pairs (kv # kvs)) = Some (Some (kv, encode_pairs kvs))"
    using fit unfolding e parse_pair_def by (simp add: parse_len_encode kv)
  moreover have "encode_pairs (kv # kvs) \<noteq> []" unfolding e by (simp add: encode_len_def)
  ultimately show ?case using Cons by (simp add: parse_pairs.simps [of lim "encode_pairs (kv # kvs)"])
qed

section \<open>\<open>ReadParams\<close> implements the specification\<close>

text \<open>A byte source whose invariant also fixes the size of the heap.\<close>

locale param_source = byte_source +
  fixes lim :: nat
  assumes inv_heap: "inv s \<Longrightarrow> heapLimit (os s) = lim"
begin

lemma src_heap: "src s xs \<Longrightarrow> heapLimit (os s) = lim"
  using inv_heap by (auto simp: src_def)

lemma ReadLength_src:
  assumes "src s r" "length r < f"
  shows "case parse_len (b # r) of
      None \<Rightarrow> \<exists>s'. ReadLength fill f (uint b) s = Inr (None, s') \<and> fin s'
    | Some (n, r') \<Rightarrow> \<exists>s'. ReadLength fill f (uint b) s = Inr (Some (int n), s') \<and> src s' r'"
proof (cases "unat b < 128")
  case True
  then show ?thesis using assms and_128 [of b] by (simp add: parse_len_def ReadLength_def)
next
  case False
  show ?thesis
  proof (cases "length r < 3")
    case True
    with GetStr_short [OF assms, of 3] False and_128 [of b] show ?thesis
      by (auto simp: parse_len_def ReadLength_def)
  next
    case ge: False
    with GetStr_full [OF assms, of 3] False and_128 [of b] long_length_eq [OF False, of "take 3 r"]
    show ?thesis by (auto simp: parse_len_def ReadLength_def)
  qed
qed

lemma ReadPair_src:
  assumes "src s xs" "length xs < f" "n + v + 2 \<le> lim" "int (n + v + 2) \<le> INT_MAX"
  shows "if n + v \<le> length xs
    then \<exists>s'. ReadPair fill f (int n) (int v) s =
        Inr (Some (pair_entry (take n xs, take v (drop n xs))), s') \<and> src s' (drop (n + v) xs)
    else \<exists>s'. ReadPair fill f (int n) (int v) s = Inr (None, s') \<and> fin s'"
proof -
  have sz: "size_of_int (wrap32 (int n + int v + 2)) = Suc (Suc (n + v))"
    using assms(4) by (simp add: nat_add_distrib)
  have m: "Malloc (Suc (Suc (n + v))) (os s) = Inr ()"
    using src_heap [OF assms(1)] assms(3) by (simp add: Malloc_def)
  note start = ReadPair_def Let_def sz m
  show ?thesis
  proof (cases "n \<le> length xs")
    case False
    with GetStr_short [OF assms(1,2), of "int n"] show ?thesis
      by (auto simp: start split: if_splits)
  next
    case n: True
    obtain s1 where s1: "FCGX_GetStr fill f (int n) s = Inr (take n xs, s1)" "src s1 (drop n xs)"
      using GetStr_full [OF assms(1,2), of "int n"] n by auto
    have l: "length (drop n xs) < f" using assms(2) by simp
    show ?thesis
    proof (cases "n + v \<le> length xs")
      case False
      then have "length (drop n xs) < nat (int v)" using n by (simp; linarith)
      with GetStr_short [OF s1(2) l, of "int v"] n s1(1) False show ?thesis by (auto simp: start)
    next
      case True
      then have "nat (int v) \<le> length (drop n xs)" by simp
      then obtain s2 where "FCGX_GetStr fill f (int v) s1 = Inr (take v (drop n xs), s2)"
          "src s2 (drop (n + v) xs)"
        using GetStr_full [OF s1(2) l, of "int v"] by (auto simp: add.commute)
      with True n s1(1) show ?thesis by (simp add: start pair_entry_def)
    qed
  qed
qed

lemma ReadNameValue_src:
  assumes "src s r" "length r < f" "parse_pair lim (b # r) = Some res"
  shows "case res of
      None \<Rightarrow> \<exists>s'. ReadNameValue fill f (uint b) s = Inr (None, s') \<and> fin s'
    | Some (kv, r') \<Rightarrow> \<exists>s'. ReadNameValue fill f (uint b) s = Inr (Some (pair_entry kv), s') \<and> src s' r'"
proof (cases "parse_len (b # r)")
  case None
  with ReadLength_src [OF assms(1,2), of b] assms(3) show ?thesis
    by (auto simp: ReadNameValue_def parse_pair_def)
next
  case (Some nr)
  then obtain n r1 where nr: "parse_len (b # r) = Some (n, r1)" by (cases nr) auto
  then obtain s1 where s1: "ReadLength fill f (uint b) s = Inr (Some (int n), s1)" "src s1 r1"
    using ReadLength_src [OF assms(1,2), of b] by auto
  show ?thesis
  proof (cases r1)
    case Nil
    with GetChar_end s1(2) obtain s2 where "FCGX_GetChar fill s1 = Inr (EOF, s2)" "fin s2" by blast
    with Nil nr s1(1) assms(3) show ?thesis
      by (auto simp: ReadNameValue_def parse_pair_def parse_len_def [of "[]"])
  next
    case (Cons c r2)
    then obtain s2 where s2: "FCGX_GetChar fill s1 = Inr (uint c, s2)" "src s2 r2"
      using GetChar_src s1(2) by blast
    have nEOF: "uint c \<noteq> - 1" using uint_byte(1) [of c] by linarith
    have l2: "length r2 < f" using parse_len_shorter [OF nr] Cons assms(2) by simp
    note RL = ReadLength_src [OF s2(2) l2, of c]
    note start = ReadNameValue_def s1(1) s2(1) nEOF
    note spec = assms(3) [unfolded parse_pair_def nr Cons]
    show ?thesis
    proof (cases "parse_len (c # r2)")
      case None
      with RL spec show ?thesis by (auto simp: start)
    next
      case (Some vr)
      then obtain v r3 where vr: "parse_len (c # r2) = Some (v, r3)" by (cases vr) auto
      then obtain s3 where s3: "ReadLength fill f (uint c) s2 = Inr (Some (int v), s3)" "src s3 r3"
        using RL by auto
      have "length r3 < f" using parse_len_shorter [OF vr] l2 by simp
      moreover have "n + v + 2 \<le> lim" "int (n + v + 2) \<le> INT_MAX"
        using spec vr by (simp_all split: if_splits)
      ultimately show ?thesis
        using ReadPair_src [OF s3(2), of f n v] spec vr s3(1) by (auto simp: start split: if_splits)
    qed
  qed
qed

text \<open>The main result: the stream delivers \<open>xs\<close>, and \<open>ReadParams\<close> does what \<open>parse_pairs\<close> says.\<close>

lemma ReadParams_src:
  assumes "src s xs" "params_rel p es" "parse_pairs lim xs = Some (kvs, ok)"
    and "length xs < f" "length xs < k"
    and "16 * (length es + length kvs) \<le> lim" "2 * int (length es + length kvs) \<le> INT_MAX"
  shows "\<exists>p' s'. ReadParams fill f k p s =
      Inr (if ok then 0 else - 1, p', if ok then s' else SetError FCGX_PARAMS_ERROR s')
    \<and> fin s' \<and> params_rel p' (es @ map pair_entry kvs)"
  using assms
proof (induction k arbitrary: s xs p es kvs)
  case 0
  then show ?case by simp
next
  case (Suc k)
  note spec = Suc.prems(3) [unfolded parse_pairs.simps [of lim xs]]
  show ?case
  proof (cases xs)
    case Nil
    with GetChar_end Suc.prems(1,2) spec show ?thesis by fastforce
  next
    case (Cons b r)
    then obtain s1 where s1: "FCGX_GetChar fill s = Inr (uint b, s1)" "src s1 r"
      using GetChar_src Suc.prems(1) by blast
    have nEOF: "uint b \<noteq> - 1" using uint_byte(1) [of b] by linarith
    have lr: "length r < f" using Suc.prems(4) Cons by simp
    obtain res where res: "parse_pair lim (b # r) = Some res"
      using spec Cons by (cases "parse_pair lim (b # r)") auto
    note RNV = ReadNameValue_src [OF s1(2) lr res]
    show ?thesis
    proof (cases res)
      case None
      with RNV res spec Cons s1(1) nEOF Suc.prems(2) show ?thesis by auto
    next
      case (Some kvr)
      then obtain kv r' where kv: "res = Some (kv, r')" by (cases kvr) auto
      then obtain s2 where s2: "ReadNameValue fill f (uint b) s1 = Inr (Some (pair_entry kv), s2)"
        "src s2 r'" using RNV by auto
      obtain kvs' where kvs': "parse_pairs lim r' = Some (kvs', ok)" "kvs = kv # kvs'"
        using spec Cons res kv by auto
      have "length r' < length xs" using parse_pair_shorter res kv Cons by fastforce
      moreover obtain p' where p': "PutParam lim p (pair_entry kv) = Inr p'"
          "params_rel p' (es @ [pair_entry kv])"
        using PutParam_rel [OF Suc.prems(2), of lim] Suc.prems(6,7) kvs'(2) by fastforce
      ultimately show ?thesis
        using Suc.IH [OF s2(2) p'(2) kvs'(1)] Suc.prems(4-7) kvs'(2) s1(1) s2 nEOF src_heap [OF s2(2)]
        by auto
    qed
  qed
qed

end

end
