(* ===== verification/Fcgi_Writer.thy ===== *)
theory Fcgi_Writer
  imports Fcgi_Stream
begin

text \<open>
  The writing side of \<open>libfcgi/fcgiapp.c\<close>: \<open>write_it_all\<close>, \<open>EmptyBuffProc\<close> and
  \<open>WriteCloseRecords\<close>, which wrap the buffered bytes of an output stream into FastCGI records
  and close the stream and the request.

  The specification is a list of records (type and content): \<open>wire\<close> is its encoding, and
  \<open>content_of\<close> the bytes the records of one type carry.  Two interpretations of \<open>byte_sink\<close>
  (records, and the raw mode of the closing records) connect it with the code.
\<close>

section \<open>The code\<close>

function write_it_all :: "int \<Rightarrow> bytes \<Rightarrow> os_unix \<Rightarrow> int \<times> os_unix" where
  "write_it_all fd buf w =
     (if buf = [] then (0, w)
      else case OS_Write fd buf w of (wrote, w') \<Rightarrow>
        if wrote < 0 then (wrote, w') else write_it_all fd (drop (nat wrote) buf) w')"
  by pat_completeness auto
termination
  by (relation "measure (\<lambda>(fd, buf, w). length (txq (conns w fd)) + (if buf = [] then 0 else 1))")
    (auto simp: OS_Write_def sys_write_def Let_def split: if_splits list.splits wr_event.splits)

declare write_it_all.simps [simp del]

text \<open>First part of \<open>EmptyBuffProc\<close>: the record header and the padding.\<close>

definition EmptyBuff_frame :: "stream_io \<Rightarrow> stream_io res" where
  "EmptyBuff_frame s =
     (if rawWrite s then Inr s
      else let cLen = int (wrNext s) - 8 in
        if cLen > 0 then
          (let eLen = AlignInt8 cLen in
           bindR (copy_in (replicate (nat (eLen - cLen)) 0) s) (\<lambda>s.
           bindR (ASSERT (0 \<le> cLen \<and> cLen \<le> INT_MAX)) (\<lambda>_.
           bindR (ASSERT (0 \<le> eLen - cLen \<and> eLen - cLen \<le> INT_MAX)) (\<lambda>_.
           bindR (MakeHeader (stype s) (requestId (reqDataPtr s)) cLen (eLen - cLen)) (\<lambda>h.
           Inr (s\<lparr>buff := blit 0 (header_bytes h) (buff s)\<rparr>))))))
        else Inr (s\<lparr>wrNext := 0\<rparr>))"

text \<open>Last part of \<open>EmptyBuffProc\<close>: write the buffer out and make it empty.\<close>

definition EmptyBuff_write :: "stream_io \<Rightarrow> stream_io" where
  "EmptyBuff_write s =
     (let s' = (if wrNext s \<noteq> 0
          then case write_it_all (ipcFd (reqDataPtr s)) (take (wrNext s) (buff s)) (os s) of (rc, w) \<Rightarrow>
            let s' = s\<lparr>isAnythingWritten := True, os := w\<rparr> in
            if rc < 0 then Inl (SetError (errno w) s') else Inr (s'\<lparr>wrNext := 0\<rparr>)
          else Inr s) in
      case s' of
        Inl s' \<Rightarrow> s'
      | Inr s' \<Rightarrow> if rawWrite s' then s' else s'\<lparr>wrNext := wrNext s' + 8\<rparr>)"

definition EmptyBuffProc_open :: "stream_io \<Rightarrow> stream_io res" where
  "EmptyBuffProc_open s = bindR (EmptyBuff_frame s) (\<lambda>s. Inr (EmptyBuff_write s))"

definition END_ROUNDS :: nat where "END_ROUNDS = 17"

definition WriteCloseRecords :: "stream_io \<Rightarrow> stream_io res" where
  "WriteCloseRecords s =
     (let s = s\<lparr>rawWrite := True\<rparr> in
      bindR
        (if \<not> (stype s = FCGI_STDERR \<and> wrNext s = 0 \<and> \<not> isAnythingWritten s)
         then bindR (MakeHeader (stype s) (requestId (reqDataPtr s)) 0 0) (\<lambda>h.
              bindR (FCGX_PutStr (\<lambda>_. EmptyBuffProc_open) END_ROUNDS (header_bytes h) s) (\<lambda>(_, s). Inr s))
         else Inr s) (\<lambda>s.
      bindR
        (if nWriters (reqDataPtr s) = 1
         then bindR (MakeHeader FCGI_END_REQUEST (requestId (reqDataPtr s)) 8 0) (\<lambda>h.
              bindR (FCGX_PutStr (\<lambda>_. EmptyBuffProc_open) END_ROUNDS
                (header_bytes h
                 @ end_body_bytes (MakeEndRequestBody (appStatus (reqDataPtr s)) FCGI_REQUEST_COMPLETE)) s)
                (\<lambda>(_, s). Inr s))
         else Inr s) (\<lambda>s.
      Inr (s\<lparr>reqDataPtr := (reqDataPtr s)\<lparr>nWriters := nWriters (reqDataPtr s) - 1\<rparr>\<rparr>))))"

text \<open>
  \<open>EmptyBuffProc\<close>.  \<open>WriteCloseRecords\<close> is only reached with \<open>doClose\<close>, and the calls of
  \<open>FCGX_PutStr\<close> in it call back with \<open>doClose = FALSE\<close>, which is \<open>EmptyBuffProc_open\<close>.
\<close>

definition EmptyBuffProc :: empty_proc where
  "EmptyBuffProc doClose s =
     bindR (EmptyBuff_frame s) (\<lambda>s.
     bindR (if doClose then WriteCloseRecords s else Inr s) (\<lambda>s.
     Inr (EmptyBuff_write s)))"

lemma EmptyBuffProc_False: "EmptyBuffProc False = EmptyBuffProc_open"
  by (rule ext) (simp add: EmptyBuffProc_def EmptyBuffProc_open_def)

section \<open>Records on the wire\<close>

definition mk_header :: "int \<Rightarrow> int \<Rightarrow> nat \<Rightarrow> nat \<Rightarrow> FCGI_Header" where
  "mk_header ty rid len pad =
     \<lparr>version = 1, htype = word_of_int ty, requestIdB1 = byte_at 8 rid, requestIdB0 = byte_at 0 rid,
      contentLengthB1 = byte_at 8 (int len), contentLengthB0 = byte_at 0 (int len),
      paddingLength = word_of_int (int pad), reserved = 0\<rparr>"

lemma MakeHeader_mk:
  "len \<le> 65535 \<Longrightarrow> pad \<le> 255 \<Longrightarrow> MakeHeader ty rid (int len) (int pad) = Inr (mk_header ty rid len pad)"
  by (simp add: MakeHeader_def mk_header_def)

definition pad_of :: "nat \<Rightarrow> nat" where
  "pad_of n = (8 - n mod 8) mod 8"

lemma pad_of_cases: "pad_of n = (if n mod 8 = 0 then 0 else 8 - n mod 8)"
  by (auto simp: pad_of_def)

lemma pad_of_bound: "pad_of n < 8"
  by (auto simp: pad_of_cases)

lemma pad_of_dvd: "8 dvd n + pad_of n"
proof (cases "n mod 8 = 0")
  case True
  then have "pad_of n = 0" by (simp add: pad_of_cases)
  with True show ?thesis by (simp add: mod_eq_0_iff_dvd)
next
  case False
  then have "pad_of n = 8 - n mod 8" by (simp add: pad_of_cases)
  moreover have "n mod 8 \<le> 8" by (rule less_imp_le) simp
  ultimately have "pad_of n + n mod 8 = 8" by (simp only: le_add_diff_inverse2)
  moreover have "n + pad_of n = 8 * (n div 8) + (pad_of n + n mod 8)" by simp
  ultimately have "n + pad_of n = 8 * (n div 8) + 8" by presburger
  then show ?thesis by simp
qed

lemma AlignInt8_pad: "AlignInt8 (int n) = int (n + pad_of n)"
proof -
  obtain q where q: "n + pad_of n = 8 * q" using pad_of_dvd by (auto elim: dvdE)
  have "(int n + 7) div 8 = int q"
    using q pad_of_bound [of n] by (intro int_div_pos_eq [where r = "7 - int (pad_of n)"]) simp_all
  then show ?thesis by (simp add: AlignInt8_eq q)
qed

definition wrap_record :: "int \<Rightarrow> int \<Rightarrow> bytes \<Rightarrow> bytes" where
  "wrap_record rid ty c =
     header_bytes (mk_header ty rid (length c) (pad_of (length c))) @ c @ replicate (pad_of (length c)) 0"

definition wire :: "int \<Rightarrow> (int \<times> bytes) list \<Rightarrow> bytes" where
  "wire rid recs = concat (map (\<lambda>(ty, c). wrap_record rid ty c) recs)"

definition content_of :: "int \<Rightarrow> (int \<times> bytes) list \<Rightarrow> bytes" where
  "content_of ty recs = concat (map snd (filter (\<lambda>r. fst r = ty) recs))"

lemma wire_append [simp]: "wire rid (xs @ ys) = wire rid xs @ wire rid ys"
  by (simp add: wire_def)

lemma wire_single [simp]: "wire rid [(ty, c)] = wrap_record rid ty c" "wire rid [] = []"
  by (simp_all add: wire_def)

lemma content_of_append [simp]: "content_of ty (xs @ ys) = content_of ty xs @ content_of ty ys"
  by (simp add: content_of_def)

lemma content_of_single [simp]: "content_of ty [(t, c)] = (if t = ty then c else [])" "content_of ty [] = []"
  by (simp_all add: content_of_def)

section \<open>Writes that do not fail\<close>

definition tx_ok :: "int \<Rightarrow> os_unix \<Rightarrow> bool" where
  "tx_ok fd w \<longleftrightarrow> \<not> shutdownNow w \<and> (\<forall>e \<in> set (txq (conns w fd)). case e of WErr _ \<Rightarrow> False | _ \<Rightarrow> True)"

text \<open>\<open>transmitted fd w bs w'\<close>: \<open>w'\<close> is \<open>w\<close> with \<open>bs\<close> sent on \<open>fd\<close>.\<close>

definition transmitted :: "int \<Rightarrow> os_unix \<Rightarrow> bytes \<Rightarrow> os_unix \<Rightarrow> bool" where
  "transmitted fd w bs w' \<longleftrightarrow>
     (\<exists>q. w' = w\<lparr>conns := (conns w)(fd := (conns w fd)\<lparr>txq := q, sent := sent (conns w fd) @ bs\<rparr>)\<rparr>
       \<and> set q \<subseteq> set (txq (conns w fd)))"

lemma transmitted_tx_ok: "transmitted fd w bs w' \<Longrightarrow> tx_ok fd w \<Longrightarrow> tx_ok fd w'"
  by (auto simp: transmitted_def tx_ok_def)

lemma transmitted_sent: "transmitted fd w bs w' \<Longrightarrow> sent (conns w' fd) = sent (conns w fd) @ bs"
  by (auto simp: transmitted_def)

lemma transmitted_trans:
  "transmitted fd w bs w' \<Longrightarrow> transmitted fd w' cs w'' \<Longrightarrow> transmitted fd w (bs @ cs) w''"
proof -
  assume "transmitted fd w bs w'" "transmitted fd w' cs w''"
  then obtain q q' where "set q \<subseteq> set (txq (conns w fd))" "set q' \<subseteq> set q"
    "w'' = w\<lparr>conns := (conns w)(fd := (conns w fd)\<lparr>txq := q', sent := sent (conns w fd) @ bs @ cs\<rparr>)\<rparr>"
    by (auto simp: transmitted_def)
  then show ?thesis unfolding transmitted_def by blast
qed

lemma transmitted_Nil: "transmitted fd w [] w"
  by (auto simp: transmitted_def intro!: exI [of _ "txq (conns w fd)"])

lemma OS_Write_ok:
  assumes "tx_ok fd w"
  shows "\<exists>n w'. OS_Write fd buf w = (int n, w') \<and> transmitted fd w (take n buf) w'"
proof (cases "txq (conns w fd)")
  case Nil
  let ?c = "conns w fd"
  have "OS_Write fd buf w = (int (length buf), w\<lparr>conns := (conns w)(fd := ?c\<lparr>sent := sent ?c @ buf\<rparr>)\<rparr>)"
    using assms Nil by (simp add: OS_Write_def sys_write_def tx_ok_def Let_def)
  moreover have "?c\<lparr>txq := [], sent := sent ?c @ buf\<rparr> = ?c\<lparr>sent := sent ?c @ buf\<rparr>"
    using Nil by simp
  ultimately show ?thesis
    by (intro exI [of _ "length buf"]) (auto simp: transmitted_def intro!: exI [of _ "[]"])
next
  case (Cons e q)
  then obtain k where e: "e = WAccept k" using assms by (cases e) (auto simp: tx_ok_def)
  have "take (min k (length buf)) buf = take k buf" by (simp add: min_def)
  with Cons e assms show ?thesis
    by (intro exI [of _ "min k (length buf)"])
      (auto simp: OS_Write_def sys_write_def tx_ok_def transmitted_def Let_def intro!: exI [of _ q])
qed

lemma write_it_all_ok:
  assumes "tx_ok fd w"
  shows "\<exists>w'. write_it_all fd buf w = (0, w') \<and> transmitted fd w buf w'"
  using assms
proof (induction fd buf w rule: write_it_all.induct)
  case (1 fd buf w)
  show ?case
  proof (cases "buf = []")
    case True
    then show ?thesis by (simp add: write_it_all.simps transmitted_Nil)
  next
    case False
    from OS_Write_ok [OF "1.prems"] obtain n w1 where
      n: "OS_Write fd buf w = (int n, w1)" "transmitted fd w (take n buf) w1" by blast
    with "1.IH" [OF False, of "int n" w1] transmitted_tx_ok [OF n(2) "1.prems"]
    obtain w2 where "write_it_all fd (drop n buf) w1 = (0, w2)" "transmitted fd w1 (drop n buf) w2"
      by auto
    with transmitted_trans [OF n(2)] n False show ?thesis
      by (fastforce simp: write_it_all.simps [of fd buf])
  qed
qed

section \<open>Emptying the buffer\<close>

text \<open>
  The invariant of an open output stream for request \<open>r\<close>: the buffer is a multiple of eight bytes
  long, not longer than a record's content can announce, and starts with room for a header.
\<close>

definition writer_inv :: "int \<Rightarrow> ReqData \<Rightarrow> stream_io \<Rightarrow> bool" where
  "writer_inv ty r s \<longleftrightarrow> \<not> isReader s \<and> \<not> isClosed s \<and> \<not> wasFCloseCalled s \<and> FCGI_errno s = 0
     \<and> stype s = ty \<and> \<not> rawWrite s \<and> reqDataPtr s = r \<and> tx_ok (ipcFd r) (os s)
     \<and> length (buff s) = bufflen s \<and> stop s = bufflen s \<and> 8 dvd bufflen s
     \<and> 24 \<le> bufflen s \<and> bufflen s \<le> 65536 \<and> 8 \<le> wrNext s \<and> wrNext s \<le> stop s"

text \<open>
  \<open>stream_recs ty others recs xs\<close>: the records \<open>recs\<close> carry \<open>xs\<close> as the content of type \<open>ty\<close>,
  in records that are not empty, and \<open>others\<close> are the records of other types.
\<close>

definition stream_recs :: "int \<Rightarrow> (int \<times> bytes) list \<Rightarrow> (int \<times> bytes) list \<Rightarrow> bytes \<Rightarrow> bool" where
  "stream_recs ty others recs xs \<longleftrightarrow> content_of ty recs = xs \<and> filter (\<lambda>r. fst r \<noteq> ty) recs = others
     \<and> (\<forall>(t, c) \<in> set recs. length c \<le> 65528 \<and> (t = ty \<longrightarrow> c \<noteq> []))"

lemma stream_recs_snoc:
  "stream_recs ty others recs xs \<Longrightarrow> length c \<le> 65528 \<Longrightarrow> c \<noteq> [] \<Longrightarrow>
    stream_recs ty others (recs @ [(ty, c)]) (xs @ c)"
  by (auto simp: stream_recs_def)

text \<open>What was sent since \<open>pre\<close> are such records.\<close>

definition emitted :: "os_unix \<Rightarrow> int \<Rightarrow> (int \<times> bytes) list \<Rightarrow> ReqData \<Rightarrow> os_unix \<Rightarrow> bytes \<Rightarrow> bool" where
  "emitted pre ty others r w xs \<longleftrightarrow>
     (\<exists>recs. transmitted (ipcFd r) pre (wire (requestId r) recs) w \<and> stream_recs ty others recs xs)"

lemma emitted_snoc:
  assumes "emitted pre ty others r w xs" "transmitted (ipcFd r) w (wrap_record (requestId r) ty c) w'"
    "length c \<le> 65528" "c \<noteq> []"
  shows "emitted pre ty others r w' (xs @ c)"
proof -
  obtain recs where "transmitted (ipcFd r) pre (wire (requestId r) recs) w" "stream_recs ty others recs xs"
    using assms(1) by (auto simp: emitted_def)
  then show ?thesis using transmitted_trans [OF _ assms(2)] stream_recs_snoc assms(3,4)
    unfolding emitted_def by (intro exI [of _ "recs @ [(ty, c)]"]) simp
qed

lemma dvd_pad_le:
  assumes "8 dvd L" "n \<le> L" shows "n + pad_of n \<le> L"
proof -
  obtain q where q: "n + pad_of n = 8 * q" using pad_of_dvd by (auto elim: dvdE)
  obtain l where l: "L = 8 * l" using assms(1) by (auto elim: dvdE)
  have "8 * q < 8 * l + 8" using q l assms(2) pad_of_bound [of n] by linarith
  then show ?thesis using q l by simp
qed

text \<open>Framing turns the pending bytes into one record at the start of the buffer.\<close>

lemma EmptyBuff_frame_content:
  assumes "writer_inv ty r s" "8 < wrNext s"
  defines "c \<equiv> seg 8 (wrNext s) (buff s)"
  shows "\<exists>b m. EmptyBuff_frame s = Inr (s\<lparr>buff := b, wrNext := m\<rparr>)
    \<and> take m b = wrap_record (requestId r) ty c \<and> length b = bufflen s \<and> m \<noteq> 0
    \<and> m \<le> bufflen s"
proof -
  have inv: "length (buff s) = bufflen s" "8 dvd bufflen s" "bufflen s \<le> 65536" "wrNext s \<le> bufflen s"
    "\<not> rawWrite s" "stype s = ty" "reqDataPtr s = r"
    using assms(1) by (auto simp: writer_inv_def)
  define n where "n = wrNext s - 8"
  have n: "int (wrNext s) - 8 = int n" "length c = n" "0 < n" "n \<le> 65528" "wrNext s = 8 + n"
    using assms(2) inv by (auto simp: n_def c_def)
  have "8 dvd bufflen s - 8" "n \<le> bufflen s - 8"
    using inv n dvd_diff_nat [of 8 "bufflen s" 8] by auto
  then have fit: "wrNext s + pad_of n \<le> bufflen s"
    using dvd_pad_le [of "bufflen s - 8" n] n inv by linarith
  let ?b = "blit (wrNext s) (replicate (pad_of n) 0) (buff s)"
  let ?h = "header_bytes (mk_header ty (requestId r) n (pad_of n))"
  let ?s = "s\<lparr>buff := blit 0 ?h ?b, wrNext := wrNext s + pad_of n\<rparr>"
  have "EmptyBuff_frame s = Inr ?s"
    using n inv fit pad_of_bound [of n] MakeHeader_mk [of n "pad_of n" ty "requestId r"]
    by (simp add: EmptyBuff_frame_def Let_def AlignInt8_pad copy_in_def)
  moreover have "take (8 + (n + pad_of n)) (blit 0 ?h ?b) = ?h @ take (n + pad_of n) (drop 8 ?b)"
    by (simp add: blit_def)
  moreover have "take (n + pad_of n) (drop 8 ?b) = c @ replicate (pad_of n) 0"
    using n inv fit by (simp add: blit_def c_def seg_def)
  ultimately show ?thesis using n inv fit
    by (intro exI [of _ "blit 0 ?h ?b"] exI [of _ "wrNext s + pad_of n"])
      (simp add: wrap_record_def add.assoc)
qed

text \<open>What the stream has passed on, and that \<open>isAnythingWritten\<close> says whether it was anything.\<close>

definition out_rel :: "os_unix \<Rightarrow> int \<Rightarrow> (int \<times> bytes) list \<Rightarrow> ReqData \<Rightarrow> stream_io \<Rightarrow> bytes \<Rightarrow> bool" where
  "out_rel pre ty others r s xs \<longleftrightarrow>
     emitted pre ty others r (os s) xs \<and> (isAnythingWritten s \<longleftrightarrow> xs \<noteq> [])"

lemma EmptyBuff_frame_empty:
  "writer_inv ty r s \<Longrightarrow> wrNext s = 8 \<Longrightarrow> EmptyBuff_frame s = Inr (s\<lparr>wrNext := 0\<rparr>)"
  by (simp add: EmptyBuff_frame_def writer_inv_def)

lemma EmptyBuffProc_open_ok:
  assumes "writer_inv ty r s" "out_rel pre ty others r s xs"
  shows "\<exists>s'. EmptyBuffProc_open s = Inr s' \<and> writer_inv ty r s' \<and> wrNext s' = 8
    \<and> out_rel pre ty others r s' (xs @ seg 8 (wrNext s) (buff s))"
proof (cases "8 < wrNext s")
  case False
  then have "wrNext s = 8" using assms(1) by (simp add: writer_inv_def)
  with EmptyBuff_frame_empty [OF assms(1)] assms show ?thesis
    by (auto simp: EmptyBuffProc_open_def EmptyBuff_write_def writer_inv_def out_rel_def)
next
  case True
  let ?c = "seg 8 (wrNext s) (buff s)"
  have inv: "tx_ok (ipcFd r) (os s)" "reqDataPtr s = r" "\<not> rawWrite s" "length ?c \<le> 65528" "?c \<noteq> []"
    using assms(1) True by (auto simp: writer_inv_def simp flip: length_0_conv)
  from EmptyBuff_frame_content [OF assms(1) True] obtain b m where
    s1: "EmptyBuff_frame s = Inr (s\<lparr>buff := b, wrNext := m\<rparr>)"
      "take m b = wrap_record (requestId r) ty ?c" "length b = bufflen s" "m \<noteq> 0"
    by blast
  from write_it_all_ok [OF inv(1)] obtain w where
    w: "write_it_all (ipcFd r) (wrap_record (requestId r) ty ?c) (os s) = (0, w)"
      "transmitted (ipcFd r) (os s) (wrap_record (requestId r) ty ?c) w" by blast
  let ?s = "s\<lparr>buff := b, wrNext := 8, isAnythingWritten := True, os := w\<rparr>"
  have "EmptyBuffProc_open s = Inr ?s"
    using s1 w(1) inv by (simp add: EmptyBuffProc_open_def EmptyBuff_write_def Let_def)
  moreover have "writer_inv ty r ?s"
    using assms(1) s1(3) transmitted_tx_ok [OF w(2) inv(1)] by (auto simp: writer_inv_def)
  ultimately show ?thesis
    using emitted_snoc [of pre ty others r "os s" xs ?c w] assms(2) w(2) inv by (auto simp: out_rel_def)
qed

text \<open>An output stream is a byte sink.\<close>

interpretation rec_sink: byte_sink EmptyBuffProc 8 "writer_inv ty r" "out_rel pre ty others r"
  for ty r pre others
proof unfold_locales
  fix s and bs :: bytes
  assume "writer_inv ty r s" "wrNext s + length bs \<le> stop s"
  then show "writer_inv ty r (s\<lparr>buff := blit (wrNext s) bs (buff s), wrNext := wrNext s + length bs\<rparr>)"
    by (simp add: writer_inv_def)
next
  fix s xs
  assume "writer_inv ty r s" "out_rel pre ty others r s xs"
  then show "\<exists>s'. EmptyBuffProc False s = Inr s' \<and> writer_inv ty r s' \<and> wrNext s' = 8
      \<and> out_rel pre ty others r s' (xs @ seg 8 (wrNext s) (buff s))"
    unfolding EmptyBuffProc_False by (rule EmptyBuffProc_open_ok)
qed (auto simp: writer_inv_def out_rel_def)

section \<open>Closing\<close>

text \<open>In raw mode the buffer goes out as it is.\<close>

definition raw_inv :: "ReqData \<Rightarrow> stream_io \<Rightarrow> bool" where
  "raw_inv r s \<longleftrightarrow> \<not> isReader s \<and> \<not> isClosed s \<and> FCGI_errno s = 0 \<and> rawWrite s
     \<and> reqDataPtr s = r \<and> tx_ok (ipcFd r) (os s)
     \<and> length (buff s) = bufflen s \<and> stop s = bufflen s \<and> 24 \<le> bufflen s \<and> wrNext s \<le> stop s"

definition raw_rel :: "os_unix \<Rightarrow> ReqData \<Rightarrow> stream_io \<Rightarrow> bytes \<Rightarrow> bool" where
  "raw_rel w r s xs \<longleftrightarrow> transmitted (ipcFd r) w xs (os s)"

lemma EmptyBuff_write_raw:
  assumes "raw_inv r s" "raw_rel pre r s xs"
  shows "raw_inv r (EmptyBuff_write s) \<and> wrNext (EmptyBuff_write s) = 0
    \<and> raw_rel pre r (EmptyBuff_write s) (xs @ seg 0 (wrNext s) (buff s))"
proof (cases "wrNext s = 0")
  case True
  with assms show ?thesis by (auto simp: EmptyBuff_write_def raw_inv_def)
next
  case False
  have tx: "tx_ok (ipcFd r) (os s)" using assms(1) by (simp add: raw_inv_def)
  from write_it_all_ok [OF tx] obtain w where
    w: "write_it_all (ipcFd r) (take (wrNext s) (buff s)) (os s) = (0, w)"
      "transmitted (ipcFd r) (os s) (take (wrNext s) (buff s)) w" by blast
  have "EmptyBuff_write s = s\<lparr>isAnythingWritten := True, os := w, wrNext := 0\<rparr>"
    using assms(1) w(1) False by (simp add: EmptyBuff_write_def raw_inv_def Let_def)
  with assms transmitted_tx_ok [OF w(2) tx] transmitted_trans [OF _ w(2)] show ?thesis
    by (simp add: raw_inv_def raw_rel_def seg_def)
qed

interpretation raw_sink: byte_sink "\<lambda>_. EmptyBuffProc_open" 0 "raw_inv r" "raw_rel pre r"
  for r pre
proof unfold_locales
  fix s and bs :: bytes
  assume "raw_inv r s" "wrNext s + length bs \<le> stop s"
  then show "raw_inv r (s\<lparr>buff := blit (wrNext s) bs (buff s), wrNext := wrNext s + length bs\<rparr>)"
    by (simp add: raw_inv_def)
next
  fix s xs
  assume *: "raw_inv r s" "raw_rel pre r s xs"
  then have "EmptyBuffProc_open s = Inr (EmptyBuff_write s)"
    by (simp add: EmptyBuffProc_open_def EmptyBuff_frame_def raw_inv_def)
  with EmptyBuff_write_raw [OF *] show "\<exists>s'. EmptyBuffProc_open s = Inr s' \<and> raw_inv r s'
      \<and> wrNext s' = 0 \<and> raw_rel pre r s' (xs @ seg 0 (wrNext s) (buff s))"
    by auto
qed (auto simp: raw_inv_def raw_rel_def)

text \<open>The records that close a stream and, for the last writer, the request.\<close>

definition close_records :: "int \<Rightarrow> ReqData \<Rightarrow> bool \<Rightarrow> (int \<times> bytes) list" where
  "close_records ty r silent =
     (if ty = FCGI_STDERR \<and> silent then [] else [(ty, [])])
     @ (if nWriters r = 1
        then [(FCGI_END_REQUEST, end_body_bytes (MakeEndRequestBody (appStatus r) FCGI_REQUEST_COMPLETE))]
        else [])"

lemma wrap_empty: "wrap_record rid ty [] = header_bytes (mk_header ty rid 0 0)"
  by (simp add: wrap_record_def pad_of_def)

lemma wrap_end:
  "wrap_record rid ty (end_body_bytes (MakeEndRequestBody a p)) =
     header_bytes (mk_header ty rid 8 0) @ end_body_bytes (MakeEndRequestBody a p)"
  by (simp add: wrap_record_def pad_of_def)

lemma raw_put:
  assumes "raw_sink.snk r pre s zs" "length str < 17"
  shows "\<exists>s'. bindR (FCGX_PutStr (\<lambda>_. EmptyBuffProc_open) END_ROUNDS str s) (\<lambda>(_, s). Inr s) = Inr s'
    \<and> raw_sink.snk r pre s' (zs @ str)"
  using raw_sink.PutStr_snk [OF assms(1), of str END_ROUNDS] assms(2) by (auto simp: END_ROUNDS_def)

lemma raw_snk_req: "raw_sink.snk r pre s zs \<Longrightarrow> reqDataPtr s = r"
  by (simp add: raw_sink.snk_def raw_inv_def)

lemma WriteCloseRecords_raw:
  assumes "raw_sink.snk r pre (s\<lparr>rawWrite := True\<rparr>) zs"
  shows "\<exists>s'. WriteCloseRecords s = Inr (s'\<lparr>reqDataPtr := r\<lparr>nWriters := nWriters r - 1\<rparr>\<rparr>)
    \<and> raw_sink.snk r pre s'
        (zs @ wire (requestId r) (close_records (stype s) r (wrNext s = 0 \<and> \<not> isAnythingWritten s)))"
proof -
  let ?s = "s\<lparr>rawWrite := True\<rparr>" and ?silent = "stype s = FCGI_STDERR \<and> wrNext s = 0 \<and> \<not> isAnythingWritten s"
  let ?eof = "if ?silent then [] else [(stype s, [])]"
  note mk = MakeHeader_mk [of 0 0, simplified] MakeHeader_mk [of 8 0, simplified]
  obtain s1 where s1:
    "(if \<not> ?silent then bindR (MakeHeader (stype s) (requestId r) 0 0) (\<lambda>h.
        bindR (FCGX_PutStr (\<lambda>_. EmptyBuffProc_open) END_ROUNDS (header_bytes h) ?s) (\<lambda>(_, s). Inr s))
      else Inr ?s) = Inr s1"
    "raw_sink.snk r pre s1 (zs @ wire (requestId r) ?eof)"
    using raw_put [OF assms, of "header_bytes (mk_header (stype s) (requestId r) 0 0)"] assms
    by (cases ?silent) (auto simp: mk wrap_empty)
  let ?last = "header_bytes (mk_header FCGI_END_REQUEST (requestId r) 8 0)
      @ end_body_bytes (MakeEndRequestBody (appStatus r) FCGI_REQUEST_COMPLETE)"
  obtain s2 where s2:
    "(if nWriters r = 1 then bindR (MakeHeader FCGI_END_REQUEST (requestId r) 8 0) (\<lambda>h.
        bindR (FCGX_PutStr (\<lambda>_. EmptyBuffProc_open) END_ROUNDS
          (header_bytes h @ end_body_bytes (MakeEndRequestBody (appStatus r) FCGI_REQUEST_COMPLETE)) s1)
          (\<lambda>(_, s). Inr s)) else Inr s1) = Inr s2"
    "raw_sink.snk r pre s2 (zs @ wire (requestId r)
       (close_records (stype s) r (wrNext s = 0 \<and> \<not> isAnythingWritten s)))"
    using raw_put [OF s1(2), of ?last] s1(2)
    by (cases "nWriters r = 1") (auto simp: mk wrap_end close_records_def)
  have "WriteCloseRecords s = Inr (s2\<lparr>reqDataPtr := r\<lparr>nWriters := nWriters r - 1\<rparr>\<rparr>)"
    using s1(1) s2(1) raw_snk_req [OF s1(2)] raw_snk_req [OF s2(2)] raw_snk_req [OF assms]
    unfolding WriteCloseRecords_def Let_def by (auto split: if_splits)
  with s2(2) show ?thesis by blast
qed

text \<open>Closing an output stream that took \<open>zs\<close>: all of \<open>zs\<close> is on the wire, then the close records.\<close>

lemma raw_start:
  assumes "writer_inv ty r s" "m \<le> bufflen s" "length b = bufflen s"
  shows "raw_sink.snk r (os s)
    (s\<lparr>buff := b, wrNext := m, rawWrite := True\<rparr>) (take m b)"
  using assms transmitted_Nil
  by (auto simp: raw_sink.snk_def raw_inv_def raw_rel_def writer_inv_def seg_def)

lemma EmptyBuff_frame_any:
  assumes "writer_inv ty r s"
  defines "c \<equiv> seg 8 (wrNext s) (buff s)"
  shows "\<exists>b m. EmptyBuff_frame s = Inr (s\<lparr>buff := b, wrNext := m\<rparr>) \<and> m \<le> bufflen s \<and> length b = bufflen s
    \<and> take m b = (if c = [] then [] else wrap_record (requestId r) ty c) \<and> (m = 0 \<longleftrightarrow> c = [])"
proof (cases "8 < wrNext s")
  case True
  then have "c \<noteq> []" using assms(1) by (auto simp: c_def writer_inv_def simp flip: length_0_conv)
  moreover from EmptyBuff_frame_content [OF assms(1) True] obtain b m where
    "EmptyBuff_frame s = Inr (s\<lparr>buff := b, wrNext := m\<rparr>)" "length b = bufflen s" "m \<noteq> 0"
    "take m b = wrap_record (requestId r) ty c" "m \<le> bufflen s" unfolding c_def by blast
  ultimately show ?thesis by (intro exI [of _ b] exI [of _ m]) auto
next
  case False
  then have "wrNext s = 8" using assms(1) by (simp add: writer_inv_def)
  with EmptyBuff_frame_empty [OF assms(1)] assms show ?thesis
    by (intro exI [of _ "buff s"] exI [of _ 0]) (simp add: writer_inv_def)
qed

definition pending :: "int \<Rightarrow> stream_io \<Rightarrow> (int \<times> bytes) list" where
  "pending ty s = (let c = seg 8 (wrNext s) (buff s) in if c = [] then [] else [(ty, c)])"

lemma FClose_ok:
  assumes "rec_sink.snk ty r pre others s zs"
  shows "\<exists>s' recs. FCGX_FClose EmptyBuffProc s = Inr (0, s') \<and> isClosed s' \<and> wasFCloseCalled s'
    \<and> FCGI_errno s' = 0 \<and> reqDataPtr s' = r\<lparr>nWriters := nWriters r - 1\<rparr> \<and> tx_ok (ipcFd r) (os s')
    \<and> transmitted (ipcFd r) pre (wire (requestId r) (recs @ close_records ty r (zs = []))) (os s')
    \<and> stream_recs ty others recs zs
    \<and> transmitted (ipcFd r) (os s) (wire (requestId r) (pending ty s @ close_records ty r (zs = []))) (os s')"
proof -
  obtain xs where inv: "writer_inv ty r s" and out: "out_rel pre ty others r s xs"
    and zs: "zs = xs @ seg 8 (wrNext s) (buff s)"
    using assms by (auto simp: rec_sink.snk_def)
  let ?c = "seg 8 (wrNext s) (buff s)" and ?r = "r\<lparr>nWriters := nWriters r - 1\<rparr>"
  have st: "stype s = ty" "\<not> isReader s" "\<not> wasFCloseCalled s" using inv by (auto simp: writer_inv_def)
  obtain recs where recs: "transmitted (ipcFd r) pre (wire (requestId r) recs) (os s)"
    "stream_recs ty others recs xs"
    using out by (auto simp: out_rel_def emitted_def)
  have lc: "length ?c \<le> 65528" using inv by (auto simp: writer_inv_def)
  obtain b m where f: "EmptyBuff_frame s = Inr (s\<lparr>buff := b, wrNext := m\<rparr>)" "m \<le> bufflen s"
    "length b = bufflen s" "take m b = (if ?c = [] then [] else wrap_record (requestId r) ty ?c)"
    "m = 0 \<longleftrightarrow> ?c = []"
    using EmptyBuff_frame_any [OF inv] by blast
  let ?p = "os s"
  have silent: "(m = 0 \<and> \<not> isAnythingWritten s) = (zs = [])"
    using f(5) out zs by (auto simp: out_rel_def)
  from WriteCloseRecords_raw [of r ?p "s\<lparr>buff := b, wrNext := m\<rparr>"] raw_start [OF inv f(2,3)] st silent
  obtain s1 where s1: "WriteCloseRecords (s\<lparr>buff := b, wrNext := m\<rparr>) = Inr (s1\<lparr>reqDataPtr := ?r\<rparr>)"
    "raw_sink.snk r ?p s1 (take m b @ wire (requestId r) (close_records ty r (zs = [])))"
    by auto
  have "raw_sink.snk ?r ?p (s1\<lparr>reqDataPtr := ?r\<rparr>)
      (take m b @ wire (requestId r) (close_records ty r (zs = [])))"
    using s1(2) by (auto simp: raw_sink.snk_def raw_inv_def raw_rel_def)
  with EmptyBuff_write_raw have s2: "raw_inv ?r (EmptyBuff_write (s1\<lparr>reqDataPtr := ?r\<rparr>))"
    "raw_rel ?p ?r (EmptyBuff_write (s1\<lparr>reqDataPtr := ?r\<rparr>))
      (take m b @ wire (requestId r) (close_records ty r (zs = [])))"
    unfolding raw_sink.snk_def by fastforce+
  obtain s3 where s3: "s3 = EmptyBuff_write (s1\<lparr>reqDataPtr := ?r\<rparr>)" by blast
  let ?s4 = "s3\<lparr>wasFCloseCalled := True, isClosed := True, stop := wrNext s3, rdNext := wrNext s3\<rparr>"
  have wc: "take m b = wire (requestId r) (if ?c = [] then [] else [(ty, ?c)])" using f(4) by simp
  have inv3: "\<not> isReader s3" "FCGI_errno s3 = 0" "reqDataPtr s3 = ?r" "tx_ok (ipcFd r) (os s3)"
    using s2(1) unfolding s3 raw_inv_def by auto
  have "transmitted (ipcFd r) pre (wire (requestId r)
      ((recs @ (if ?c = [] then [] else [(ty, ?c)])) @ close_records ty r (zs = []))) (os s3)"
    using transmitted_trans [OF recs(1)] s2(2) wc unfolding s3 by (simp add: raw_rel_def)
  moreover have "FCGX_FClose EmptyBuffProc s = Inr (0, ?s4)"
    using f(1) s1(1) st inv3(1,2) unfolding FCGX_FClose_def EmptyBuffProc_def s3 [symmetric]
    by (simp add: Let_def s3 [symmetric])
  moreover have "stream_recs ty others (recs @ (if ?c = [] then [] else [(ty, ?c)])) zs"
    using recs(2) zs lc stream_recs_snoc by simp
  ultimately show ?thesis
    using inv3 zs s2(2) wc unfolding s3 [symmetric] raw_rel_def pending_def Let_def
    by (intro exI [of _ ?s4] exI [of _ "recs @ (if ?c = [] then [] else [(ty, ?c)])"]) simp
qed

end
