(* ===== verification/Fcgi_Reader.thy ===== *)
theory Fcgi_Reader
  imports Fcgi_Params Fcgi_Writer
begin

text \<open>
  The reading side of \<open>libfcgi/fcgiapp.c\<close>: \<open>FillBuffProc\<close>, which takes the records of a request
  apart and delivers the content of one stream, with \<open>ProcessHeader\<close>, \<open>ProcessBeginRecord\<close> and
  \<open>ProcessManagementRecord\<close>.

  \<open>FillBuffProc\<close> and the functions it calls are mutually recursive: they read the body of a
  begin or management record through the stream itself, with \<open>eorStop\<close> set.  The model gives
  the loop a number of rounds and hands the rest of them to the inner calls.

  \<open>deliver\<close> is the specification: which bytes a reader delivers, which replies it sends and how
  it ends, as a function of the input bytes alone.
\<close>

section \<open>Management records\<close>

abbreviation (input) STREAM_RECORD :: int where "STREAM_RECORD \<equiv> 0"
abbreviation (input) SKIP :: int where "SKIP \<equiv> 1"
abbreviation (input) BEGIN_RECORD :: int where "BEGIN_RECORD \<equiv> 2"
abbreviation (input) MGMT_RECORD :: int where "MGMT_RECORD \<equiv> 3"

abbreviation (input) RESPONSE_SIZE :: nat where "RESPONSE_SIZE \<equiv> 64"

text \<open>\<open>value\<close> for a variable name, \<open>None\<close> when the library does not know it.\<close>

definition value_of :: "bytes \<Rightarrow> byte option" where
  "value_of name =
     (if name = FCGI_MAX_CONNS then Some 49
      else if name = FCGI_MAX_REQS then Some 49
      else if name = FCGI_MPXS_CONNS then Some 48
      else None)"

text \<open>
  The loop over the variables asked for: \<open>*(strchr(name, '=')) = 0\<close> cuts the entry at its first
  equals sign, and \<open>sprintf\<close> stores the answer with its terminating NUL in \<open>response\<close>.
\<close>

fun response_loop :: "cell list \<Rightarrow> bytes \<Rightarrow> nat \<Rightarrow> (bytes \<times> nat) res" where
  "response_loop [] response p = Inr (response, p)"
| "response_loop (Str e # v) response p =
     (if 61 \<notin> set (cstr e) then Inl NullDeref
      else let name = takeWhile (\<lambda>b. b \<noteq> 61) (cstr e) in
        case value_of name of
          None \<Rightarrow> response_loop v response p
        | Some value \<Rightarrow>
            let out = [of_nat (length name), 1] @ name @ [value, 0] in
            if length response < p + length out then Inl StackOverflow
            else response_loop v (blit p out response) (p + length name + 3))"
| "response_loop (c # v) response p = Inl OutOfBounds"

definition GetValues_response :: "Params \<Rightarrow> os_unix \<Rightarrow> bytes res" where
  "GetValues_response p w =
     bindR (response_loop (take (cur p) (vec p)) (map (fresh w) [0..<RESPONSE_SIZE]) FCGI_HEADER_LEN)
       (\<lambda>(response, responseP).
     let len = int responseP - int FCGI_HEADER_LEN; paddedLen = AlignInt8 len in
     bindR (ASSERT (0 \<le> len \<and> len \<le> INT_MAX)) (\<lambda>_.
     bindR (ASSERT (0 \<le> paddedLen - len \<and> paddedLen - len \<le> INT_MAX)) (\<lambda>_.
     bindR (MakeHeader FCGI_GET_VALUES_RESULT FCGI_NULL_REQUEST_ID len (paddedLen - len)) (\<lambda>h.
     if RESPONSE_SIZE < FCGI_HEADER_LEN + nat paddedLen then Inl OutOfBounds
     else Inr (take (FCGI_HEADER_LEN + nat paddedLen) (blit 0 (header_bytes h) response))))))"

definition UnknownType_response :: "int \<Rightarrow> bytes res" where
  "UnknownType_response type =
     bindR (MakeHeader FCGI_UNKNOWN_TYPE FCGI_NULL_REQUEST_ID 8 0) (\<lambda>h.
     Inr (header_bytes h @ unknown_body_bytes (MakeUnknownTypeBody type)))"

text \<open>\<open>if (write_it_all(...) < 0) { SetError(stream, OS_Errno); return -1; } return ok;\<close>\<close>

definition send_reply :: "bytes \<Rightarrow> int \<Rightarrow> stream_io \<Rightarrow> int \<times> stream_io" where
  "send_reply response ok s =
     (case write_it_all (ipcFd (reqDataPtr s)) response (os s) of (rc, w) \<Rightarrow>
        let s = s\<lparr>os := w\<rparr> in
        if rc < 0 then (- 1, SetError (errno w) s) else (ok, s))"

definition ProcessManagementRecord :: "fill_proc \<Rightarrow> nat \<Rightarrow> int \<Rightarrow> stream_io \<Rightarrow> (int \<times> stream_io) res" where
  "ProcessManagementRecord fill k type s =
     bindR (NewParams 3) (\<lambda>params.
     if type = FCGI_GET_VALUES then
       bindR (ReadParams fill k k params s) (\<lambda>(_, params, s).
       if FCGX_GetError s \<noteq> 0 \<or> contentLen s \<noteq> 0 then
         bindR (FreeParams (Some params)) (\<lambda>_. Inr (FCGX_PROTOCOL_ERROR, s))
       else bindR (GetValues_response params (os s)) (\<lambda>response.
            bindR (FreeParams (Some params)) (\<lambda>_. Inr (send_reply response MGMT_RECORD s))))
     else bindR (UnknownType_response type) (\<lambda>response. Inr (send_reply response MGMT_RECORD s)))"

section \<open>Begin records and headers\<close>

definition ProcessBeginRecord :: "fill_proc \<Rightarrow> nat \<Rightarrow> int \<Rightarrow> stream_io \<Rightarrow> (int \<times> stream_io) res" where
  "ProcessBeginRecord fill k rid s =
     (if rid = 0 \<or> contentLen s \<noteq> 8 then Inr (FCGX_PROTOCOL_ERROR, s)
      else if isBeginProcessed (reqDataPtr s) then
        bindR (MakeHeader FCGI_END_REQUEST rid 8 0) (\<lambda>h.
        Inr (send_reply (header_bytes h @ end_body_bytes (MakeEndRequestBody 0 FCGI_CANT_MPX_CONN)) SKIP s))
      else
        bindR (FCGX_GetStr fill k 8 (s\<lparr>reqDataPtr := (reqDataPtr s)\<lparr>requestId := rid\<rparr>\<rparr>)) (\<lambda>(bs, s).
        if length bs \<noteq> 8 then Inr (FCGX_PROTOCOL_ERROR, s)
        else let body = begin_body_of bs in
          Inr (BEGIN_RECORD, s\<lparr>reqDataPtr := (reqDataPtr s)
            \<lparr>keepConnection := (bflags body AND FCGI_KEEP_CONN \<noteq> 0),
             role := short_of (roleB1 body) (roleB0 body),
             isBeginProcessed := True\<rparr>\<rparr>)))"

definition ProcessHeader :: "fill_proc \<Rightarrow> nat \<Rightarrow> FCGI_Header \<Rightarrow> stream_io \<Rightarrow> (int \<times> stream_io) res" where
  "ProcessHeader fill k h s =
     (if uint (version h) \<noteq> FCGI_VERSION_1 then Inr (FCGX_UNSUPPORTED_VERSION, s)
      else
        let rid = short_of (requestIdB1 h) (requestIdB0 h);
            s = s\<lparr>contentLen := nat (short_of (contentLengthB1 h) (contentLengthB0 h)),
                  paddingLen := unat (paddingLength h)\<rparr>
        in if uint (htype h) = FCGI_BEGIN_REQUEST then ProcessBeginRecord fill k rid s
        else if rid = FCGI_NULL_REQUEST_ID then ProcessManagementRecord fill k (uint (htype h)) s
        else if rid \<noteq> requestId (reqDataPtr s) then Inr (SKIP, s)
        else if uint (htype h) \<noteq> stype s then Inr (FCGX_PROTOCOL_ERROR, s)
        else Inr (STREAM_RECORD, s))"

section \<open>\<open>FillBuffProc\<close>\<close>

text \<open>What a part of the loop body does next: \<open>return\<close>, \<open>continue\<close>, or go on.\<close>

datatype flow = Ret stream_io | Again stream_io | Go stream_io

definition bindF :: "flow res \<Rightarrow> (stream_io \<Rightarrow> flow res) \<Rightarrow> flow res" where
  "bindF m f = bindR m (\<lambda>x. case x of Go s \<Rightarrow> f s | _ \<Rightarrow> Inr x)"

text \<open>\<open>ptrDiff = data->buffStop - stream->rdNext; ASSERT(0 <= ptrDiff && ptrDiff <= INT_MAX)\<close>\<close>

definition ptrDiff :: "stream_io \<Rightarrow> nat res" where
  "ptrDiff s =
     bindR (ASSERT (rdNext s \<le> buffStop s \<and> int (buffStop s - rdNext s) \<le> INT_MAX))
       (\<lambda>_. Inr (buffStop s - rdNext s))"

definition fill_read :: "stream_io \<Rightarrow> flow res" where
  "fill_read s =
     (if rdNext s \<noteq> buffStop s then Inr (Go s)
      else case OS_Read (ipcFd (reqDataPtr s)) (bufflen s) (os s) of ((count, bs), w) \<Rightarrow>
        let s = s\<lparr>os := w\<rparr> in
        if count \<le> 0 then Inr (Ret (SetError (if count = 0 then FCGX_PROTOCOL_ERROR else errno w) s))
        else if length (buff s) < length bs then Inl HeapOverflow
        else Inr (Go (s\<lparr>buff := blit 0 bs (buff s), rdNext := 0, buffStop := length bs\<rparr>)))"

definition fill_content :: "stream_io \<Rightarrow> flow res" where
  "fill_content s =
     (if contentLen s > 0 then
        bindR (ptrDiff s) (\<lambda>d.
        let count = min (contentLen s) d; s = s\<lparr>contentLen := contentLen s - count\<rparr> in
        if \<not> skip s then Inr (Ret (s\<lparr>wrNext := rdNext s + count, stop := rdNext s + count\<rparr>))
        else let s = s\<lparr>rdNext := rdNext s + count\<rparr> in
          Inr (if contentLen s > 0 then Again s else Go (s\<lparr>skip := False\<rparr>)))
      else Inr (Go s))"

definition fill_padding :: "stream_io \<Rightarrow> flow res" where
  "fill_padding s =
     (if paddingLen s > 0 then
        bindR (ptrDiff s) (\<lambda>d.
        let count = min (paddingLen s) d;
            s = s\<lparr>paddingLen := paddingLen s - count, rdNext := rdNext s + count\<rparr> in
        Inr (if paddingLen s > 0 then Again s else Go s))
      else Inr (Go s))"

definition fill_eor :: "stream_io \<Rightarrow> flow res" where
  "fill_eor s =
     Inr (if eorStop s then Ret (s\<lparr>stop := rdNext s, isClosed := True\<rparr>) else Go s)"

definition fill_header :: "bytes \<Rightarrow> stream_io \<Rightarrow> (bytes \<times> stream_io) res" where
  "fill_header hdr s =
     bindR (ptrDiff s) (\<lambda>d.
     let count = min (8 - length hdr) d in
     bindR (copy_out count s) (\<lambda>(bs, s). Inr (hdr @ bs, s)))"

definition fill_dispatch :: "int \<Rightarrow> stream_io \<Rightarrow> flow res" where
  "fill_dispatch status s =
     (let s = s\<lparr>eorStop := False, isClosed := False\<rparr> in
      if status = STREAM_RECORD then
        Inr (if contentLen s = 0 then Ret (s\<lparr>wrNext := rdNext s, stop := rdNext s, isClosed := True\<rparr>) else Again s)
      else if status = SKIP then Inr (Again (s\<lparr>skip := True\<rparr>))
      else if status = BEGIN_RECORD then Inr (Ret s)
      else if status = MGMT_RECORD then Inr (Again s)
      else bindR (ASSERT (status < 0)) (\<lambda>_. Inr (Ret (SetError status s))))"

primrec FillBuffProc :: "nat \<Rightarrow> bytes \<Rightarrow> stream_io \<Rightarrow> stream_io res" where
  "FillBuffProc 0 hdr s = Inl OutOfFuel"
| "FillBuffProc (Suc k) hdr s =
     bindR (bindF (bindF (bindF (fill_read s) fill_content) fill_padding) fill_eor) (\<lambda>f.
     case f of
       Ret s \<Rightarrow> Inr s
     | Again s \<Rightarrow> FillBuffProc k hdr s
     | Go s \<Rightarrow>
         bindR (fill_header hdr s) (\<lambda>(hdr, s).
         if length hdr < 8 then FillBuffProc k hdr s
         else bindR (ProcessHeader (FillBuffProc k []) k (header_of hdr)
                (s\<lparr>eorStop := True, stop := rdNext s\<rparr>)) (\<lambda>(status, s).
              bindR (fill_dispatch status s) (\<lambda>f.
              case f of Ret s \<Rightarrow> Inr s | Again s \<Rightarrow> FillBuffProc k [] s | Go s \<Rightarrow> FillBuffProc k [] s))))"

section \<open>Specification\<close>

text \<open>
  The reply to the entries of an \<open>FCGI_GET_VALUES\<close> record.  \<open>None\<close> is a request the code cannot
  answer: a name that is cut short by a NUL, or more answers than the 64-byte buffer takes.
\<close>

definition name_of :: "bytes \<Rightarrow> bytes" where
  "name_of e = takeWhile (\<lambda>b. b \<noteq> 61) (cstr e)"

definition answer :: "bytes \<Rightarrow> bytes" where
  "answer e = (case value_of (name_of e) of None \<Rightarrow> []
     | Some v \<Rightarrow> [of_nat (length (name_of e)), 1] @ name_of e @ [v])"

definition answers :: "bytes list \<Rightarrow> bytes" where
  "answers es = concat (map answer es)"

definition values_reply :: "(nat \<Rightarrow> byte) \<Rightarrow> bytes list \<Rightarrow> bytes option" where
  "values_reply fr es =
     (let a = answers es; n = length a in
      if (\<forall>e \<in> set es. 61 \<in> set (cstr e)) \<and> n \<le> 55
      then Some (header_bytes (mk_header FCGI_GET_VALUES_RESULT 0 n (pad_of n)) @ a
        @ take (pad_of n) (0 # map fr [9 + n..<RESPONSE_SIZE]))
      else None)"

definition unknown_reply :: "int \<Rightarrow> bytes" where
  "unknown_reply ty = header_bytes (mk_header FCGI_UNKNOWN_TYPE 0 8 0)
     @ unknown_body_bytes (MakeUnknownTypeBody ty)"

definition refuse_reply :: "int \<Rightarrow> bytes" where
  "refuse_reply rid = header_bytes (mk_header FCGI_END_REQUEST rid 8 0)
     @ end_body_bytes (MakeEndRequestBody 0 FCGI_CANT_MPX_CONN)"

text \<open>
  How a reader ends: at the empty record of its stream, with the bytes after that record's header
  and its padding length; at a begin record; with an error code; or outside of what the
  specification covers.
\<close>

datatype rd_end = EndOfStream bytes nat bool | BeginRequest int FCGI_BeginRequestBody bytes nat
  | Failed int | Undef

text \<open>What a reader is set up for: stream type, request id, whether a begin record was processed,
  the heap size and the contents of fresh memory.\<close>

record rmode =
  rm_type :: int
  rm_id :: int
  rm_begun :: bool
  rm_lim :: nat
  rm_fresh :: "nat \<Rightarrow> byte"

text \<open>
  Whether a record body of \<open>c\<close> content and \<open>p\<close> padding bytes can be read to its end with
  \<open>eorStop\<close>: the code asks for more input first, when nothing of the body is left to consume.
\<close>

definition body_complete :: "nat \<Rightarrow> nat \<Rightarrow> bool \<Rightarrow> bytes \<Rightarrow> bool" where
  "body_complete c p sk r =
     (if p = 0 \<and> \<not> (sk \<and> 0 < c) then c < length r else c + p \<le> length r)"

definition get_values_step ::
  "rmode \<Rightarrow> bool \<Rightarrow> nat \<Rightarrow> nat \<Rightarrow> bytes \<Rightarrow> (bytes \<times> rd_end) + (bytes \<times> nat \<times> nat \<times> bool \<times> bytes)" where
  "get_values_step md sk len pad r =
     (case parse_pairs (rm_lim md) (if sk then [] else take len r) of
        None \<Rightarrow> Inl ([], Undef)
      | Some (kvs, ok) \<Rightarrow>
          if \<not> body_complete len pad sk r then Inl ([], Failed FCGX_PROTOCOL_ERROR)
          else if \<not> ok then Inl ([], Failed FCGX_PARAMS_ERROR)
          else case values_reply (rm_fresh md) (map pair_entry kvs) of
              None \<Rightarrow> Inl ([], Undef)
            | Some reply \<Rightarrow> Inr (reply, 0, 0, sk \<and> len = 0, drop (len + pad) r))"

text \<open>
  One record header: either the end of the reading, or the reply sent and the state in which
  reading goes on (content and padding to come, whether the content is skipped, the input).
\<close>

definition record_step ::
  "rmode \<Rightarrow> bool \<Rightarrow> FCGI_Header \<Rightarrow> bytes \<Rightarrow> (bytes \<times> rd_end) + (bytes \<times> nat \<times> nat \<times> bool \<times> bytes)" where
  "record_step md sk h r =
     (let ty = uint (htype h); rid = short_of (requestIdB1 h) (requestIdB0 h);
          len = nat (short_of (contentLengthB1 h) (contentLengthB0 h)); pad = unat (paddingLength h) in
      if version h \<noteq> 1 then Inl ([], Failed FCGX_UNSUPPORTED_VERSION)
      else if ty = FCGI_BEGIN_REQUEST then
        if rid = 0 \<or> len \<noteq> 8 then Inl ([], Failed FCGX_PROTOCOL_ERROR)
        else if rm_begun md then Inr (refuse_reply rid, len, pad, True, r)
        else if sk \<or> length r < 8 then Inl ([], Failed FCGX_PROTOCOL_ERROR)
        else Inl ([], BeginRequest rid (begin_body_of (take 8 r)) (drop 8 r) pad)
      else if rid = 0 then
        if ty = FCGI_GET_VALUES then get_values_step md sk len pad r
        else Inr (unknown_reply ty, len, pad, sk, r)
      else if rid \<noteq> rm_id md then Inr ([], len, pad, True, r)
      else if ty \<noteq> rm_type md then Inl ([], Failed FCGX_PROTOCOL_ERROR)
      else if len = 0 then Inl ([], EndOfStream r pad sk)
      else Inr ([], len, pad, sk, r))"

lemma record_step_shorter:
  "record_step md sk h r = Inr (out, c, p, sk', r') \<Longrightarrow> length r' \<le> length r"
  by (auto simp: record_step_def get_values_step_def Let_def split: if_splits option.splits)

text \<open>
  \<open>deliver md c p sk bs\<close>: the bytes delivered, the bytes replied and the end, when \<open>c\<close> content
  bytes (skipped if \<open>sk\<close>) and \<open>p\<close> padding bytes of the current record and then records come.
\<close>

function deliver :: "rmode \<Rightarrow> nat \<Rightarrow> nat \<Rightarrow> bool \<Rightarrow> bytes \<Rightarrow> bytes \<times> bytes \<times> rd_end" where
  "deliver md c p sk bs =
     (let here = (if sk then [] else take c bs) in
      if length bs < c + p + 8 then (here, [], Failed FCGX_PROTOCOL_ERROR)
      else case record_step md (sk \<and> c = 0) (header_of (drop (c + p) bs)) (drop (c + p + 8) bs) of
          Inl (out, e) \<Rightarrow> (here, out, e)
        | Inr (out, c', p', sk', bs') \<Rightarrow>
            (case deliver md c' p' sk' bs' of (xs, outs, e) \<Rightarrow> (here @ xs, out @ outs, e)))"
  by pat_completeness auto
termination
proof (relation "measure (\<lambda>(md, c, p, sk, bs). length bs)", simp)
  fix md :: rmode and c p c' p' :: nat and sk sk' :: bool and bs bs' out out' x1 x2 :: bytes
    and q q1 q2 q3
  assume "\<not> length bs < c + p + 8"
    "record_step md (sk \<and> c = 0) (header_of (drop (c + p) bs)) (drop (c + p + 8) bs) = Inr q"
    "(out, q1) = q" "(c', q2) = q1" "(p', q3) = q2" "(sk', bs') = q3"
  then show "((md, c', p', sk', bs'), md, c, p, sk, bs) \<in> measure (\<lambda>(md, c, p, sk, bs). length bs)"
    by (auto dest!: record_step_shorter)
qed

declare deliver.simps [simp del]

lemma deliver_content:
  assumes "n \<le> c" "n \<le> length bs"
  shows "deliver md c p False bs =
    (case deliver md (c - n) p False (drop n bs) of (xs, out, e) \<Rightarrow> (take n bs @ xs, out, e))"
proof -
  have "take c bs = take n bs @ take (c - n) (drop n bs)"
    using assms take_add [of n "c - n" bs] by simp
  moreover have "length bs < c + p + 8 \<longleftrightarrow> length (drop n bs) < c - n + p + 8"
    "drop (c - n + p) (drop n bs) = drop (c + p) bs" "drop (c - n + p + 8) (drop n bs) = drop (c + p + 8) bs"
    using assms by auto
  ultimately show ?thesis
    unfolding deliver.simps [of md c p] deliver.simps [of md "c - n" p]
    by (simp only: Let_def) (simp split: sum.split prod.split)
qed

text \<open>\<open>consumed c p sk n c' p' sk'\<close>: after \<open>n\<close> more bytes were passed over.\<close>

definition consumed :: "nat \<Rightarrow> nat \<Rightarrow> bool \<Rightarrow> nat \<Rightarrow> nat \<Rightarrow> nat \<Rightarrow> bool \<Rightarrow> bool" where
  "consumed c p sk n c' p' sk' \<longleftrightarrow>
     (if n < c then c' = c - n \<and> p' = p \<and> sk' = sk
      else c' = 0 \<and> n \<le> c + p \<and> p' = c + p - n \<and> (sk' \<longleftrightarrow> sk \<and> c = 0))"

lemma deliver_consumed:
  assumes "consumed c p sk n c' p' sk'" "n \<le> length bs" "c = 0 \<or> sk"
  shows "deliver md c p sk bs = deliver md c' p' sk' (drop n bs)"
proof -
  have s: "c' + p' = c + p - n" "n \<le> c + p" "(sk \<and> c = 0) = (sk' \<and> c' = 0)"
    "(if sk then [] else take c bs) = []" "(if sk' then [] else take c' (drop n bs)) = []"
    using assms by (auto simp: consumed_def split: if_splits)
  moreover have "length bs < c + p + 8 \<longleftrightarrow> length (drop n bs) < c' + p' + 8"
    "drop (c' + p') (drop n bs) = drop (c + p) bs" "drop (c' + p' + 8) (drop n bs) = drop (c + p + 8) bs"
    using assms(2) s(1,2) by auto
  ultimately show ?thesis
    unfolding deliver.simps [of md c p] deliver.simps [of md c' p'] by (simp only: Let_def)
qed

lemma body_complete_consumed:
  assumes "consumed c p sk n c' p' sk'" "n \<le> length bs" "c = 0 \<or> sk" "0 < c' + p'"
  shows "body_complete c' p' sk' (drop n bs) = body_complete c p sk bs"
  using assms by (auto simp: consumed_def body_complete_def split: if_splits)

lemma body_complete_content:
  "n \<le> c \<Longrightarrow> n \<le> length bs \<Longrightarrow> body_complete (c - n) p False (drop n bs) = body_complete c p False bs"
  by (auto simp: body_complete_def)

section \<open>The input of a reader\<close>

text \<open>A connection that delivers its data without errors, in chunks of any size.\<close>

definition rx_bytes :: "rd_event list \<Rightarrow> bytes" where
  "rx_bytes es = concat (map (\<lambda>e. case e of RData bs \<Rightarrow> bs | _ \<Rightarrow> []) es)"

definition rx_ok :: "rd_event list \<Rightarrow> bool" where
  "rx_ok es \<longleftrightarrow> (\<forall>e \<in> set es. case e of RData bs \<Rightarrow> bs \<noteq> [] | RErr _ \<Rightarrow> False | RStall \<Rightarrow> True)"

lemma rx_simps [simp]:
  "rx_bytes [] = []" "rx_bytes (RData bs # es) = bs @ rx_bytes es" "rx_bytes (RStall # es) = rx_bytes es"
  "rx_ok []" "rx_ok (RData bs # es) \<longleftrightarrow> bs \<noteq> [] \<and> rx_ok es" "rx_ok (RStall # es) = rx_ok es"
  "rx_ok (RErr e # es) = False"
  by (simp_all add: rx_bytes_def rx_ok_def)

lemma rx_read_ok:
  assumes "rx_ok es" "0 < n"
  shows "if rx_bytes es = [] then rx_read n es = (Inr [], [])
    else \<exists>bs es'. rx_read n es = (Inr bs, es') \<and> bs \<noteq> [] \<and> length bs \<le> n
      \<and> rx_bytes es = bs @ rx_bytes es' \<and> rx_ok es'"
  using assms by (induction n es rule: rx_read.induct) auto

text \<open>\<open>traffic fd w out w'\<close>: between \<open>w\<close> and \<open>w'\<close> there was only input and output on \<open>fd\<close>,
  and the output was \<open>out\<close>.\<close>

definition traffic :: "int \<Rightarrow> os_unix \<Rightarrow> bytes \<Rightarrow> os_unix \<Rightarrow> bool" where
  "traffic fd w out w' \<longleftrightarrow>
     (\<exists>es q. w' = w\<lparr>conns := (conns w)(fd := (conns w fd)
          \<lparr>rx := es, txq := q, sent := sent (conns w fd) @ out\<rparr>)\<rparr>
       \<and> set q \<subseteq> set (txq (conns w fd)))"

lemma traffic_refl [simp]: "traffic fd w [] w"
  by (auto simp: traffic_def intro!: exI [of _ "rx (conns w fd)"] exI [of _ "txq (conns w fd)"])

lemma traffic_trans: "traffic fd w o1 w1 \<Longrightarrow> traffic fd w1 o2 w2 \<Longrightarrow> traffic fd w (o1 @ o2) w2"
proof -
  assume "traffic fd w o1 w1" "traffic fd w1 o2 w2"
  then obtain es q q' where "set q' \<subseteq> set (txq (conns w fd))" "set q \<subseteq> set q'"
    "w2 = w\<lparr>conns := (conns w)(fd := (conns w fd)\<lparr>rx := es, txq := q, sent := sent (conns w fd) @ o1 @ o2\<rparr>)\<rparr>"
    by (auto simp: traffic_def)
  then show ?thesis unfolding traffic_def by blast
qed

lemma traffic_trans_Nil: "traffic fd w [] w1 \<Longrightarrow> traffic fd w1 out w2 \<Longrightarrow> traffic fd w out w2"
  using traffic_trans [of fd w "[]"] by simp

lemma traffic_rx:
  "traffic fd w [] (w\<lparr>conns := (conns w)(fd := (conns w fd)\<lparr>rx := es\<rparr>)\<rparr>)"
  unfolding traffic_def by (intro exI [of _ es] exI [of _ "txq (conns w fd)"]) simp

lemma transmitted_traffic:
  "transmitted fd w bs w' \<Longrightarrow> traffic fd w bs w' \<and> rx (conns w' fd) = rx (conns w fd)"
proof -
  assume "transmitted fd w bs w'"
  then obtain q where "set q \<subseteq> set (txq (conns w fd))"
    "w' = w\<lparr>conns := (conns w)(fd := (conns w fd)\<lparr>txq := q, sent := sent (conns w fd) @ bs\<rparr>)\<rparr>"
    unfolding transmitted_def by blast
  then show ?thesis
    unfolding traffic_def by (intro conjI exI [of _ "rx (conns w fd)"] exI [of _ q]) simp_all
qed

lemma traffic_keeps:
  assumes "traffic fd w out w'"
  shows "heapLimit w' = heapLimit w" "fresh w' = fresh w" "shutdownNow w' = shutdownNow w"
    "tx_ok fd w \<Longrightarrow> tx_ok fd w'" "sent (conns w' fd) = sent (conns w fd) @ out"
  using assms by (auto simp: traffic_def tx_ok_def)

section \<open>Invariant of a reader\<close>

definition HEAP_MIN :: nat where "HEAP_MIN = 1048576"

definition reader_frame :: "rmode \<Rightarrow> ReqData \<Rightarrow> stream_io \<Rightarrow> bool" where
  "reader_frame md r s \<longleftrightarrow> isReader s \<and> FCGI_errno s = 0 \<and> reqDataPtr s = r
     \<and> length (buff s) = bufflen s \<and> 0 < bufflen s \<and> bufflen s \<le> 65536 \<and> buffStop s \<le> bufflen s
     \<and> \<not> shutdownNow (os s) \<and> rx_ok (rx (conns (os s) (ipcFd r))) \<and> tx_ok (ipcFd r) (os s)
     \<and> stype s = rm_type md \<and> requestId r = rm_id md \<and> isBeginProcessed r = rm_begun md
     \<and> heapLimit (os s) = rm_lim md \<and> HEAP_MIN \<le> rm_lim md \<and> fresh (os s) = rm_fresh md"

text \<open>The input from an offset of the buffer on; \<open>ahead\<close> from \<open>rdNext\<close>, \<open>avail\<close> from \<open>stop\<close>.\<close>

definition input_from :: "nat \<Rightarrow> stream_io \<Rightarrow> bytes" where
  "input_from i s = seg i (buffStop s) (buff s) @ rx_bytes (rx (conns (os s) (ipcFd (reqDataPtr s))))"

definition ahead :: "stream_io \<Rightarrow> bytes" where "ahead s = input_from (rdNext s) s"
definition avail :: "stream_io \<Rightarrow> bytes" where "avail s = input_from (stop s) s"

lemma input_from_simps [simp]:
  "input_from i (s\<lparr>rdNext := x\<rparr>) = input_from i s" "input_from i (s\<lparr>wrNext := x\<rparr>) = input_from i s"
  "input_from i (s\<lparr>stop := x\<rparr>) = input_from i s" "input_from i (s\<lparr>stopUnget := u\<rparr>) = input_from i s"
  "input_from i (s\<lparr>isClosed := b\<rparr>) = input_from i s" "input_from i (s\<lparr>FCGI_errno := e\<rparr>) = input_from i s"
  "input_from i (s\<lparr>eorStop := b\<rparr>) = input_from i s" "input_from i (s\<lparr>skip := b\<rparr>) = input_from i s"
  "input_from i (s\<lparr>contentLen := x\<rparr>) = input_from i s" "input_from i (s\<lparr>paddingLen := x\<rparr>) = input_from i s"
  by (simp_all add: input_from_def)

definition loop_inv :: "rmode \<Rightarrow> ReqData \<Rightarrow> stream_io \<Rightarrow> bool" where
  "loop_inv md r s \<longleftrightarrow> reader_frame md r s \<and> \<not> isClosed s \<and> rdNext s \<le> buffStop s"

text \<open>The part of the loop body before the header.\<close>

definition fill_body :: "stream_io \<Rightarrow> flow res" where
  "fill_body s = bindF (bindF (bindF (fill_read s) fill_content) fill_padding) fill_eor"

lemma bindF_simps [simp]:
  "bindF (Inr (Go s)) f = f s" "bindF (Inr (Ret s)) f = Inr (Ret s)" "bindF (Inr (Again s)) f = Inr (Again s)"
  "bindF (Inl e) f = Inl e"
  by (simp_all add: bindF_def)

lemma drop_input: "i + n \<le> buffStop s \<Longrightarrow> drop n (input_from i s) = input_from (i + n) s"
  if "buffStop s \<le> length (buff s)"
  using that by (auto simp: input_from_def drop_seg)

lemma take_input:
  "i + n \<le> buffStop s \<Longrightarrow> take n (input_from i s) = seg i (i + n) (buff s)"
  if "buffStop s \<le> length (buff s)"
  using that by (auto simp: input_from_def take_seg)

lemma fill_read_empty:
  assumes "loop_inv md r s" "ahead s = []"
  shows "\<exists>w. fill_read s = Inr (Ret (SetError FCGX_PROTOCOL_ERROR (s\<lparr>os := w\<rparr>))) \<and> traffic (ipcFd r) (os s) [] w"
proof -
  have i: "rdNext s = buffStop s" "rx_bytes (rx (conns (os s) (ipcFd r))) = []"
    and f: "rx_ok (rx (conns (os s) (ipcFd r)))" "0 < bufflen s" "\<not> shutdownNow (os s)" "reqDataPtr s = r"
    using assms length_seg [of "buffStop s" "buff s" "rdNext s"]
    by (auto simp: loop_inv_def reader_frame_def ahead_def input_from_def simp del: length_seg)
  have "rx_read (bufflen s) (rx (conns (os s) (ipcFd r))) = (Inr [], [])"
    using rx_read_ok [OF f(1,2)] i(2) by simp
  then show ?thesis using i(1) f(3,4) traffic_rx
    by (fastforce simp: fill_read_def OS_Read_def sys_read_def Let_def)
qed

lemma fill_read_some:
  assumes "loop_inv md r s" "ahead s \<noteq> []"
  shows "\<exists>b i j w. fill_read s = Inr (Go (s\<lparr>buff := b, rdNext := i, buffStop := j, os := w\<rparr>))
    \<and> loop_inv md r (s\<lparr>buff := b, rdNext := i, buffStop := j, os := w\<rparr>) \<and> i < j
    \<and> ahead (s\<lparr>buff := b, rdNext := i, buffStop := j, os := w\<rparr>) = ahead s \<and> traffic (ipcFd r) (os s) [] w"
proof (cases "rdNext s = buffStop s")
  case False
  then have "fill_read s = Inr (Go (s\<lparr>buff := buff s, rdNext := rdNext s, buffStop := buffStop s, os := os s\<rparr>))"
    by (simp add: fill_read_def)
  moreover have "rdNext s < buffStop s" using False assms(1) by (simp add: loop_inv_def)
  ultimately show ?thesis using assms(1)
    by (intro exI [of _ "buff s"] exI [of _ "rdNext s"] exI [of _ "buffStop s"] exI [of _ "os s"]) simp
next
  case True
  let ?rx = "rx (conns (os s) (ipcFd r))"
  have f: "rx_ok ?rx" "0 < bufflen s" "\<not> shutdownNow (os s)" "reqDataPtr s = r" "length (buff s) = bufflen s"
    and ne: "ahead s = rx_bytes ?rx"
    using assms(1) True by (auto simp: loop_inv_def reader_frame_def ahead_def input_from_def)
  with rx_read_ok [OF f(1,2)] assms(2) obtain bs es where
    rd: "rx_read (bufflen s) ?rx = (Inr bs, es)" "bs \<noteq> []" "length bs \<le> bufflen s"
      "rx_bytes ?rx = bs @ rx_bytes es" "rx_ok es" by auto
  define w where "w = (os s)\<lparr>conns := (conns (os s))(ipcFd r := (conns (os s) (ipcFd r))\<lparr>rx := es\<rparr>)\<rparr>"
  let ?s = "s\<lparr>buff := blit 0 bs (buff s), rdNext := 0, buffStop := length bs, os := w\<rparr>"
  have tr: "traffic (ipcFd r) (os s) [] w" unfolding w_def by (rule traffic_rx)
  have "fill_read s = Inr (Go ?s)"
    using True rd(1-3) f by (simp add: fill_read_def OS_Read_def sys_read_def w_def Let_def)
  moreover have "loop_inv md r ?s"
    using assms(1) rd traffic_keeps [OF tr] by (auto simp: loop_inv_def reader_frame_def w_def)
  moreover have "ahead ?s = ahead s"
    using ne rd(4) f seg_blit_same [of 0 "buff s" bs] by (simp add: ahead_def input_from_def w_def)
  ultimately show ?thesis using tr rd(2) by blast
qed

text \<open>Content that is not skipped is handed to the client.\<close>

lemma fill_body_content:
  assumes "loop_inv md r s" "ahead s \<noteq> []" "0 < contentLen s" "\<not> skip s"
  shows "\<exists>s' n. fill_body s = Inr (Ret s') \<and> loop_inv md r s' \<and> eorStop s' = eorStop s \<and> \<not> skip s'
    \<and> rdNext s' < stop s' \<and> stop s' \<le> buffStop s' \<and> 0 < n \<and> n \<le> contentLen s \<and> n \<le> length (ahead s)
    \<and> contentLen s' = contentLen s - n \<and> paddingLen s' = paddingLen s
    \<and> window s' = take n (ahead s) \<and> avail s' = drop n (ahead s) \<and> traffic (ipcFd r) (os s) [] (os s')"
proof -
  from fill_read_some [OF assms(1,2)] obtain b i j w where
    rd: "fill_read s = Inr (Go (s\<lparr>buff := b, rdNext := i, buffStop := j, os := w\<rparr>))"
    and inv: "loop_inv md r (s\<lparr>buff := b, rdNext := i, buffStop := j, os := w\<rparr>)" and ij: "i < j"
    and ah: "ahead (s\<lparr>buff := b, rdNext := i, buffStop := j, os := w\<rparr>) = ahead s"
    and tr: "traffic (ipcFd r) (os s) [] w" by blast
  let ?s = "s\<lparr>buff := b, rdNext := i, buffStop := j, os := w\<rparr>"
  define n where "n = min (contentLen s) (j - i)"
  have j: "j \<le> length b" "j \<le> 65536" using inv by (auto simp: loop_inv_def reader_frame_def)
  have n: "0 < n" "n \<le> contentLen s" "i + n \<le> j" using ij assms(3) by (auto simp: n_def)
  let ?t = "?s\<lparr>contentLen := contentLen s - n, wrNext := i + n, stop := i + n\<rparr>"
  have "ptrDiff ?s = Inr (j - i)" using ij j by (simp add: ptrDiff_def)
  then have "fill_body s = Inr (Ret ?t)"
    using rd assms(3,4) by (simp add: fill_body_def fill_content_def n_def Let_def)
  moreover have "loop_inv md r ?t" using inv by (auto simp: loop_inv_def reader_frame_def)
  moreover have "window ?t = take n (ahead s)" "avail ?t = drop n (ahead s)"
    using drop_input [of ?s i n] take_input [of ?s i n] n(3) j(1) ah
    by (simp_all add: window_def avail_def ahead_def)
  moreover have "n \<le> length (ahead ?s)" using n(3) j by (simp add: ahead_def input_from_def)
  then have "n \<le> length (ahead s)" by (simp only: ah)
  ultimately show ?thesis using n tr assms(4)
    by (intro exI [of _ ?t] exI [of _ n]) simp
qed

text \<open>Skipped content and padding are passed over, at least one byte in a round.\<close>

definition passed_over :: "rmode \<Rightarrow> ReqData \<Rightarrow> stream_io \<Rightarrow> nat \<Rightarrow> stream_io \<Rightarrow> bool" where
  "passed_over md r s n s' \<longleftrightarrow> loop_inv md r s' \<and> eorStop s' = eorStop s
     \<and> consumed (contentLen s) (paddingLen s) (skip s) n (contentLen s') (paddingLen s') (skip s')
     \<and> n \<le> length (ahead s) \<and> ahead s' = drop n (ahead s) \<and> traffic (ipcFd r) (os s) [] (os s')"

lemma fill_skip_content:
  assumes inv: "loop_inv md r s" "rdNext s < buffStop s" "contentLen s = 0 \<or> skip s"
  shows "\<exists>s' n. passed_over md r s n s' \<and> n \<le> contentLen s
    \<and> (if n < contentLen s then 0 < n \<and> fill_content s = Inr (Again s')
       else fill_content s = Inr (Go s') \<and> contentLen s' = 0 \<and> paddingLen s' = paddingLen s
         \<and> (contentLen s = 0 \<longrightarrow> s' = s))"
proof (cases "contentLen s = 0")
  case True
  with inv(1) show ?thesis
    by (intro exI [of _ s] exI [of _ 0]) (simp add: passed_over_def consumed_def fill_content_def)
next
  case False
  then have sk: "skip s" using inv(3) by simp
  define n where "n = min (contentLen s) (buffStop s - rdNext s)"
  have j: "buffStop s \<le> length (buff s)" "buffStop s \<le> 65536"
    using inv(1) by (auto simp: loop_inv_def reader_frame_def)
  have n: "0 < n" "n \<le> contentLen s" "rdNext s + n \<le> buffStop s" using inv(2) False by (auto simp: n_def)
  define t where "t = s\<lparr>contentLen := contentLen s - n, rdNext := rdNext s + n, skip := (n < contentLen s)\<rparr>"
  have d: "ptrDiff s = Inr (buffStop s - rdNext s)" using inv(2) j by (simp add: ptrDiff_def)
  have lo: "s\<lparr>contentLen := contentLen s - n, rdNext := rdNext s + n\<rparr> = t" if "n < contentLen s"
    using sk that by (simp add: t_def)
  have "fill_content s = (if n < contentLen s then Inr (Again t) else Inr (Go t))"
    using d False sk lo n by (simp add: fill_content_def n_def [symmetric] Let_def) (simp add: t_def)
  moreover have "ahead t = drop n (ahead s)" "n \<le> length (ahead s)"
    using drop_input [of s "rdNext s" n] n(3) j by (auto simp: t_def ahead_def) (simp add: input_from_def)
  then have "passed_over md r s n t" using inv(1) n False sk
    by (auto simp: passed_over_def consumed_def loop_inv_def reader_frame_def t_def)
  ultimately show ?thesis using n False
    by (intro exI [of _ t] exI [of _ n]) (auto simp: t_def)
qed

lemma fill_skip_padding:
  assumes inv: "loop_inv md r s" "contentLen s = 0"
  shows "\<exists>s' n. passed_over md r s n s' \<and> contentLen s' = 0 \<and> n \<le> paddingLen s
    \<and> (if n < paddingLen s then fill_padding s = Inr (Again s') \<and> (rdNext s < buffStop s \<longrightarrow> 0 < n)
       else fill_padding s = Inr (Go s') \<and> paddingLen s' = 0 \<and> (paddingLen s = 0 \<longrightarrow> s' = s))"
proof (cases "paddingLen s = 0")
  case True
  with inv show ?thesis
    by (intro exI [of _ s] exI [of _ 0]) (simp add: passed_over_def consumed_def fill_padding_def)
next
  case False
  define n where "n = min (paddingLen s) (buffStop s - rdNext s)"
  have j: "buffStop s \<le> length (buff s)" "buffStop s \<le> 65536" "rdNext s \<le> buffStop s"
    using inv(1) by (auto simp: loop_inv_def reader_frame_def)
  have n: "n \<le> paddingLen s" "rdNext s + n \<le> buffStop s" "rdNext s < buffStop s \<longrightarrow> 0 < n"
    using False j(3) by (auto simp: n_def)
  define t where "t = s\<lparr>paddingLen := paddingLen s - n, rdNext := rdNext s + n\<rparr>"
  have "ptrDiff s = Inr (buffStop s - rdNext s)" using j by (simp add: ptrDiff_def)
  then have "fill_padding s = (if n < paddingLen s then Inr (Again t) else Inr (Go t))"
    using False by (simp add: fill_padding_def n_def [symmetric] Let_def t_def)
  moreover have "ahead t = drop n (ahead s)" "n \<le> length (ahead s)"
    using drop_input [of s "rdNext s" n] n(2) j by (auto simp: t_def ahead_def) (simp add: input_from_def)
  then have "passed_over md r s n t" using inv n
    by (auto simp: passed_over_def consumed_def loop_inv_def reader_frame_def t_def)
  ultimately show ?thesis using n inv(2) False
    by (intro exI [of _ t] exI [of _ n]) (auto simp: t_def)
qed

lemma consumed_trans:
  "consumed c p sk n c' p' sk' \<Longrightarrow> consumed c' p' sk' m c'' p'' sk'' \<Longrightarrow> consumed c p sk (n + m) c'' p'' sk''"
  by (auto simp: consumed_def split: if_splits)

lemma consumed_0: "consumed c p sk 0 c p sk"
  by (auto simp: consumed_def)

lemma passed_over_trans:
  "passed_over md r s n s1 \<Longrightarrow> passed_over md r s1 m s2 \<Longrightarrow> passed_over md r s (n + m) s2"
  using consumed_trans [of "contentLen s" "paddingLen s" "skip s" n]
    traffic_trans [of "ipcFd r" "os s" "[]" "os s1" "[]" "os s2"]
  by (fastforce simp: passed_over_def add.commute)

lemma fill_body_skip:
  assumes "loop_inv md r s" "ahead s \<noteq> []" "contentLen s = 0 \<or> skip s"
  shows "\<exists>s' n. passed_over md r s n s' \<and> (n = 0 \<longrightarrow> rdNext s' < buffStop s') \<and>
    (if 0 < contentLen s' + paddingLen s' then fill_body s = Inr (Again s') \<and> 0 < n
     else fill_body s = Inr (if eorStop s then Ret (s'\<lparr>stop := rdNext s', isClosed := True\<rparr>) else Go s'))"
proof -
  from fill_read_some [OF assms(1,2)] obtain b i j w where
    rd: "fill_read s = Inr (Go (s\<lparr>buff := b, rdNext := i, buffStop := j, os := w\<rparr>))"
    and inv: "loop_inv md r (s\<lparr>buff := b, rdNext := i, buffStop := j, os := w\<rparr>)" and ij: "i < j"
    and ah: "ahead (s\<lparr>buff := b, rdNext := i, buffStop := j, os := w\<rparr>) = ahead s"
    and tr: "traffic (ipcFd r) (os s) [] w" by blast
  define s1 where "s1 = s\<lparr>buff := b, rdNext := i, buffStop := j, os := w\<rparr>"
  have s1: "passed_over md r s 0 s1" "rdNext s1 < buffStop s1" "contentLen s1 = 0 \<or> skip s1" "loop_inv md r s1"
    "eorStop s1 = eorStop s" "contentLen s1 = contentLen s" "paddingLen s1 = paddingLen s"
    using inv ij ah tr assms(3) by (auto simp: s1_def passed_over_def consumed_0)
  have rd: "fill_read s = Inr (Go s1)" using rd by (simp add: s1_def)
  from fill_skip_content [OF s1(4,2,3)] obtain s2 n where
    s2: "passed_over md r s1 n s2" "n \<le> contentLen s1" and
    two: "if n < contentLen s1 then 0 < n \<and> fill_content s1 = Inr (Again s2)
       else fill_content s1 = Inr (Go s2) \<and> contentLen s2 = 0 \<and> paddingLen s2 = paddingLen s1
         \<and> (contentLen s1 = 0 \<longrightarrow> s2 = s1)" by blast
  have p2: "passed_over md r s n s2" using passed_over_trans [OF s1(1) s2(1)] by simp
  show ?thesis
  proof (cases "n < contentLen s1")
    case True
    then have "fill_body s = Inr (Again s2)" "0 < n" using two rd by (simp_all add: fill_body_def)
    moreover have "0 < contentLen s2" using s2(1) True by (simp add: passed_over_def consumed_def)
    ultimately show ?thesis using p2 by (intro exI [of _ s2] exI [of _ n]) simp
  next
    case False
    with two have s2': "fill_content s1 = Inr (Go s2)" "contentLen s2 = 0" "contentLen s1 = 0 \<longrightarrow> s2 = s1"
      and n: "n = contentLen s1" using s2(2) by auto
    have e2: "eorStop s2 = eorStop s" and i2: "loop_inv md r s2" using p2 by (auto simp: passed_over_def)
    from fill_skip_padding [OF i2 s2'(2)] obtain s3 m where
      s3: "passed_over md r s2 m s3" "contentLen s3 = 0" "m \<le> paddingLen s2" and
      three: "if m < paddingLen s2 then fill_padding s2 = Inr (Again s3) \<and> (rdNext s2 < buffStop s2 \<longrightarrow> 0 < m)
         else fill_padding s2 = Inr (Go s3) \<and> paddingLen s3 = 0 \<and> (paddingLen s2 = 0 \<longrightarrow> s3 = s2)" by blast
    have p3: "passed_over md r s (n + m) s3" using passed_over_trans [OF p2 s3(1)] .
    have e3: "eorStop s3 = eorStop s" using p3 by (simp add: passed_over_def)
    have pl: "paddingLen s3 = paddingLen s2 - m" using s3(1) s2'(2) by (auto simp: passed_over_def consumed_def)
    have z: "rdNext s3 < buffStop s3" if "n + m = 0" "m = paddingLen s2"
      using that n s2'(3) three s1(2) by auto
    have "0 < n + m" if "m < paddingLen s2" using that three n s2'(3) s1(2) by (cases "n = 0") auto
    then show ?thesis
      using p3 rd s2'(1) s3(2,3) three pl z e3
      by (intro exI [of _ s3] exI [of _ "n + m"]) (auto simp: fill_body_def fill_eor_def split: if_splits)
  qed
qed

section \<open>Reading to the end of a record\<close>

text \<open>With \<open>eorStop\<close> the stream delivers the content of the record and closes after it.\<close>

definition eor_done :: "rmode \<Rightarrow> ReqData \<Rightarrow> os_unix \<Rightarrow> bool \<Rightarrow> bytes \<Rightarrow> bool \<Rightarrow> stream_io \<Rightarrow> bool" where
  "eor_done md r w ok left sk s \<longleftrightarrow> isClosed s \<and> reqDataPtr s = r \<and> eorStop s \<and> traffic (ipcFd r) w [] (os s)
     \<and> (if ok then reader_frame md r s \<and> rdNext s \<le> buffStop s \<and> ahead s = left
          \<and> contentLen s = 0 \<and> paddingLen s = 0 \<and> skip s = sk
        else FCGI_errno s = FCGX_PROTOCOL_ERROR)"

lemma FillBuffProc_body:
  "FillBuffProc (Suc k) hdr s =
     bindR (fill_body s) (\<lambda>f.
     case f of
       Ret s \<Rightarrow> Inr s
     | Again s \<Rightarrow> FillBuffProc k hdr s
     | Go s \<Rightarrow>
         bindR (fill_header hdr s) (\<lambda>(hdr, s).
         if length hdr < 8 then FillBuffProc k hdr s
         else bindR (ProcessHeader (FillBuffProc k []) k (header_of hdr)
                (s\<lparr>eorStop := True, stop := rdNext s\<rparr>)) (\<lambda>(status, s).
              bindR (fill_dispatch status s) (\<lambda>f.
              case f of Ret s \<Rightarrow> Inr s | Again s \<Rightarrow> FillBuffProc k [] s | Go s \<Rightarrow> FillBuffProc k [] s))))"
  by (simp add: fill_body_def)

lemma fill_eor_end:
  assumes "loop_inv md r s" "eorStop s" "length (ahead s) < k"
    "contentLen s = 0 \<or> skip s \<or> ahead s = []"
  shows "\<exists>s'. FillBuffProc k hdr s = Inr s' \<and>
    eor_done md r (os s) (body_complete (contentLen s) (paddingLen s) (skip s) (ahead s))
      (drop (contentLen s + paddingLen s) (ahead s)) (skip s \<and> contentLen s = 0) s'"
  using assms
proof (induction k arbitrary: s)
  case 0
  then show ?case by simp
next
  case (Suc k)
  show ?case
  proof (cases "ahead s = []")
    case True
    with fill_read_empty [OF Suc.prems(1)] obtain w where
      w: "fill_body s = Inr (Ret (SetError FCGX_PROTOCOL_ERROR (s\<lparr>os := w\<rparr>)))" "traffic (ipcFd r) (os s) [] w"
      by (auto simp: fill_body_def)
    have "\<not> body_complete (contentLen s) (paddingLen s) (skip s) []" by (auto simp: body_complete_def)
    with True w Suc.prems(1,2) show ?thesis
      by (auto simp: FillBuffProc_body SetError_def eor_done_def loop_inv_def reader_frame_def
          simp del: FillBuffProc.simps)
  next
    case ne: False
    then have sk: "contentLen s = 0 \<or> skip s" using Suc.prems(4) by simp
    from fill_body_skip [OF Suc.prems(1) ne sk] obtain s' n where
      s': "passed_over md r s n s'" "n = 0 \<longrightarrow> rdNext s' < buffStop s'" and
      step: "if 0 < contentLen s' + paddingLen s' then fill_body s = Inr (Again s') \<and> 0 < n
        else fill_body s = Inr (Ret (s'\<lparr>stop := rdNext s', isClosed := True\<rparr>))"
      using Suc.prems(2) by auto
    have p: "loop_inv md r s'" "eorStop s'" "n \<le> length (ahead s)" "ahead s' = drop n (ahead s)"
      "traffic (ipcFd r) (os s) [] (os s')"
      "consumed (contentLen s) (paddingLen s) (skip s) n (contentLen s') (paddingLen s') (skip s')"
      using s'(1) Suc.prems(2) by (auto simp: passed_over_def)
    show ?thesis
    proof (cases "0 < contentLen s' + paddingLen s'")
      case True
      have c: "contentLen s' = 0 \<or> skip s'" "n \<le> contentLen s + paddingLen s"
        "contentLen s' + paddingLen s' + n = contentLen s + paddingLen s"
        "(skip s' \<and> contentLen s' = 0) = (skip s \<and> contentLen s = 0)"
        using p(6) sk by (auto simp: consumed_def split: if_splits)
      have "length (ahead s') < k" using True step p(3,4) Suc.prems(3) by auto
      from Suc.IH [OF p(1,2) this] c(1) obtain t where t: "FillBuffProc k hdr s' = Inr t"
        "eor_done md r (os s') (body_complete (contentLen s') (paddingLen s') (skip s') (ahead s'))
          (drop (contentLen s' + paddingLen s') (ahead s')) (skip s' \<and> contentLen s' = 0) t" by blast
      moreover have "drop (contentLen s' + paddingLen s') (ahead s') = drop (contentLen s + paddingLen s) (ahead s)"
        using p(4) c(3) by simp
      ultimately show ?thesis
        using step True body_complete_consumed [OF p(6,3) sk True] p(4) c(4) traffic_trans_Nil [OF p(5)]
        by (auto simp: FillBuffProc_body eor_done_def simp del: FillBuffProc.simps)
    next
      case False
      have n: "n = contentLen s + paddingLen s" "skip s' = (skip s \<and> contentLen s = 0)"
        using p(6) False by (auto simp: consumed_def split: if_splits)
      have "ahead s' \<noteq> []" if "n = 0"
        using s'(2) that p(1)
        by (auto simp: ahead_def input_from_def loop_inv_def reader_frame_def simp flip: length_0_conv)
      then have "body_complete (contentLen s) (paddingLen s) (skip s) (ahead s)"
        using n p(3,4) sk by (auto simp: body_complete_def)
      moreover have "ahead (s'\<lparr>stop := rdNext s', isClosed := True\<rparr>) = ahead s'" by (simp add: ahead_def)
      ultimately show ?thesis
        using step False p n
        by (auto simp: FillBuffProc_body eor_done_def loop_inv_def reader_frame_def simp del: FillBuffProc.simps)
    qed
  qed
qed

definition eor_inv :: "nat \<Rightarrow> rmode \<Rightarrow> ReqData \<Rightarrow> os_unix \<Rightarrow> stream_io \<Rightarrow> bool" where
  "eor_inv K md r w s \<longleftrightarrow> reader_frame md r s \<and> \<not> isClosed s \<and> eorStop s \<and> rdNext s \<le> stop s
     \<and> stop s \<le> buffStop s \<and> length (avail s) < K \<and> traffic (ipcFd r) w [] (os s)"

definition eor_rest :: "nat \<Rightarrow> nat \<Rightarrow> bool \<Rightarrow> bytes \<Rightarrow> stream_io \<Rightarrow> bytes \<Rightarrow> bool" where
  "eor_rest c p sk R s xs \<longleftrightarrow> (\<exists>m. m \<le> c \<and> m \<le> length R \<and> (sk \<longrightarrow> m = 0) \<and> contentLen s = c - m
     \<and> paddingLen s = p \<and> skip s = sk \<and> avail s = drop m R \<and> xs = (if sk then [] else take (c - m) (drop m R)))"

definition eor_fin :: "rmode \<Rightarrow> ReqData \<Rightarrow> os_unix \<Rightarrow> nat \<Rightarrow> nat \<Rightarrow> bool \<Rightarrow> bytes \<Rightarrow> stream_io \<Rightarrow> bool" where
  "eor_fin md r w c p sk R s \<longleftrightarrow> eor_done md r w (body_complete c p sk R) (drop (c + p) R) (sk \<and> c = 0) s"

lemma eor_loop:
  assumes "eor_inv K md r w s" "rdNext s = stop s"
  shows "loop_inv md r s" "ahead s = avail s" "length (ahead s) < K" "eorStop s" "traffic (ipcFd r) w [] (os s)"
  using assms by (auto simp: eor_inv_def loop_inv_def ahead_def avail_def)

lemma eor_more:
  assumes inv: "eor_inv K md r w s" and rest: "eor_rest c p sk R s xs"
    and e: "rdNext s = stop s" and ne: "xs \<noteq> []"
  shows "\<exists>s' ys. FillBuffProc K [] s = Inr s' \<and> eor_inv K md r w s' \<and> rdNext s' < stop s'
    \<and> eor_rest c p sk R s' ys \<and> xs = window s' @ ys"
proof -
  note l = eor_loop [OF inv e]
  obtain k where K: "K = Suc k" using l(3) by (cases K) auto
  obtain m where m: "m \<le> c" "m \<le> length R" "contentLen s = c - m" "paddingLen s = p" "\<not> sk" "\<not> skip s"
    "ahead s = drop m R" "xs = take (c - m) (drop m R)"
    using rest ne unfolding eor_rest_def l(2) by (metis (full_types))
  then have c: "0 < contentLen s" "ahead s \<noteq> []" using ne by auto
  from fill_body_content [OF l(1) c(2,1) m(6)] obtain s' n where
    s': "fill_body s = Inr (Ret s')" "loop_inv md r s'" "eorStop s' = eorStop s" "\<not> skip s'"
      "rdNext s' < stop s'" "stop s' \<le> buffStop s'" "0 < n" "n \<le> contentLen s" "n \<le> length (ahead s)"
      "contentLen s' = contentLen s - n" "paddingLen s' = paddingLen s"
      "window s' = take n (ahead s)" "avail s' = drop n (ahead s)" "traffic (ipcFd r) (os s) [] (os s')" by blast
  have "FillBuffProc K [] s = Inr s'" using s'(1) by (simp add: K FillBuffProc_body del: FillBuffProc.simps)
  moreover have "eor_inv K md r w s'"
    using s' l traffic_trans_Nil [OF l(5)] by (auto simp: eor_inv_def loop_inv_def)
  moreover have "eor_rest c p sk R s' (take (c - (m + n)) (drop (m + n) R))"
    using s' m unfolding eor_rest_def by (intro exI [of _ "m + n"]) (auto simp: add.commute)
  moreover have "n + (c - (m + n)) = c - m" using m(3) s'(8) by simp
  then have "xs = window s' @ take (c - (m + n)) (drop (m + n) R)"
    using m(3,7,8) s'(8,12) take_add [of n "c - (m + n)" "drop m R"] by (simp add: add.commute)
  ultimately show ?thesis using s'(5) by blast
qed

lemma eor_end:
  assumes inv: "eor_inv K md r w s" and rest: "eor_rest c p sk R s []" and e: "rdNext s = stop s"
  shows "\<exists>s'. FillBuffProc K [] s = Inr s' \<and> eor_fin md r w c p sk R s'"
proof -
  note l = eor_loop [OF inv e]
  obtain m where m: "m \<le> c" "m \<le> length R" "sk \<longrightarrow> m = 0" "contentLen s = c - m" "paddingLen s = p" "skip s = sk"
    "ahead s = drop m R" "(if sk then [] else take (c - m) (drop m R)) = []"
    using rest l(2) by (auto simp: eor_rest_def)
  have "contentLen s = 0 \<or> skip s \<or> ahead s = []" using m by (auto split: if_splits)
  from fill_eor_end [OF l(1,4,3) this, of "[]"] obtain s' where
    "FillBuffProc K [] s = Inr s'"
    "eor_done md r (os s) (body_complete (c - m) p sk (drop m R)) (drop (c - m + p) (drop m R)) (sk \<and> c - m = 0) s'"
    using m by auto
  moreover have "body_complete (c - m) p sk (drop m R) = body_complete c p sk R"
    using m body_complete_content [OF m(1,2)] by (cases sk) auto
  moreover have "drop (c - m + p) (drop m R) = drop (c + p) R" "(sk \<and> c - m = 0) = (sk \<and> c = 0)"
    using m by auto
  ultimately show ?thesis using traffic_trans_Nil [OF l(5)] by (auto simp: eor_done_def eor_fin_def)
qed

interpretation eor: param_source "FillBuffProc K []" "eor_inv K md r w" "eor_rest c p sk R"
  "eor_fin md r w c p sk R" "rm_lim md"
  for K md r w c p sk R
proof unfold_locales
  fix s xs
  assume "eor_inv K md r w s" "eor_rest c p sk R s xs" "rdNext s = stop s" "xs \<noteq> []"
  then show "\<exists>s' ys. FillBuffProc K [] s = Inr s' \<and> eor_inv K md r w s' \<and> rdNext s' < stop s'
      \<and> eor_rest c p sk R s' ys \<and> xs = window s' @ ys" by (rule eor_more)
next
  fix s
  assume "eor_inv K md r w s" "eor_rest c p sk R s []" "rdNext s = stop s"
  then show "\<exists>s'. FillBuffProc K [] s = Inr s' \<and> eor_fin md r w c p sk R s'" by (rule eor_end)
qed (auto simp: eor_inv_def eor_rest_def eor_fin_def eor_done_def reader_frame_def avail_def)

text \<open>A reader right after a header, set up by \<open>FillBuffProc\<close> and \<open>ProcessHeader\<close>.\<close>

definition at_body :: "nat \<Rightarrow> nat \<Rightarrow> stream_io \<Rightarrow> stream_io" where
  "at_body c p s = s\<lparr>eorStop := True, stop := rdNext s, contentLen := c, paddingLen := p\<rparr>"

lemma at_body_src:
  assumes "loop_inv md r s" "length (ahead s) < K"
  shows "eor.src K md r (os s) c p (skip s) (ahead s) (at_body c p s)
    (if skip s then [] else take c (ahead s))"
proof -
  have "eor_inv K md r (os s) (at_body c p s)"
    using assms by (auto simp: eor_inv_def loop_inv_def reader_frame_def at_body_def avail_def ahead_def)
  moreover have "eor_rest c p (skip s) (ahead s) (at_body c p s) (if skip s then [] else take c (ahead s))"
    unfolding eor_rest_def by (intro exI [of _ 0]) (simp add: at_body_def avail_def ahead_def)
  moreover have "window (at_body c p s) = []" by (simp add: window_def at_body_def)
  ultimately show ?thesis unfolding eor.src_def by simp
qed

section \<open>Replies\<close>

lemma blit_over:
  assumes "i + length xs < length b" "ys \<noteq> []"
  shows "blit (i + length xs) ys (blit i (xs @ [z]) b) = blit i (xs @ ys) b"
  using assms by (cases ys) (simp_all add: blit_def ac_simps)

lemma answers_Cons: "answers (e # es) = answer e @ answers es"
  by (simp add: answers_def)

lemma response_loop_ok:
  assumes "\<forall>e \<in> set es. 61 \<in> set (cstr e)" "p + length (answers es) < length b"
  shows "response_loop (map Str es) b p =
    Inr (if answers es = [] then b else blit p (answers es @ [0]) b, p + length (answers es))"
  using assms
proof (induction es arbitrary: b p)
  case Nil
  then show ?case by (simp add: answers_def)
next
  case (Cons e es)
  show ?case
  proof (cases "value_of (name_of e)")
    case None
    then have "answers (e # es) = answers es" by (simp add: answers_Cons answer_def)
    with Cons None show ?thesis by (simp add: name_of_def [symmetric] Let_def)
  next
    case (Some v)
    define a where "a = answer e"
    have a: "answers (e # es) = a @ answers es" "a = [of_nat (length (name_of e)), 1] @ name_of e @ [v]"
      using Some by (simp_all add: answers_Cons answer_def a_def)
    have len: "p + length a < length b" using Cons.prems(2) a(1) by simp
    have la: "length a = length (name_of e) + 3" and ne: "a \<noteq> []" by (simp_all add: a(2))
    have b1: "length (blit p (a @ [0]) b) = length b" using len by simp
    have "response_loop (map Str (e # es)) b p = response_loop (map Str es) (blit p (a @ [0]) b) (p + length a)"
      using Some Cons.prems(1) len la by (simp add: name_of_def [symmetric] Let_def a(2) eval_nat_numeral)
    also have "\<dots> = Inr (if answers es = [] then blit p (a @ [0]) b
        else blit (p + length a) (answers es @ [0]) (blit p (a @ [0]) b), p + length a + length (answers es))"
      using Cons.IH [of "p + length a" "blit p (a @ [0]) b"] Cons.prems a(1) b1 by (simp add: add.assoc)
    finally show ?thesis using blit_over [OF len, of "answers es @ [0]" 0] a(1) ne by (simp add: add.assoc)
  qed
qed

lemma GetValues_response_ok:
  assumes "params_rel p es" "values_reply (fresh w) es = Some reply"
  shows "GetValues_response p w = Inr reply"
proof -
  define n where "n = length (answers es)"
  define b where "b = map (fresh w) [0..<64]"
  define b' where "b' = (if answers es = [] then b else blit 8 (answers es @ [0]) b)"
  have v: "\<forall>e \<in> set es. 61 \<in> set (cstr e)" "n \<le> 55"
    "reply = header_bytes (mk_header FCGI_GET_VALUES_RESULT 0 n (pad_of n)) @ answers es
        @ take (pad_of n) (0 # map (fresh w) [9 + n..<64])"
    using assms(2) by (auto simp: values_reply_def n_def Let_def split: if_splits)
  have pn: "n + pad_of n \<le> 56" using dvd_pad_le [of 56 n] v(2) by simp
  have "take (cur p) (vec p) = map Str es" using assms(1) unfolding params_rel_def by blast
  then have loop: "response_loop (take (cur p) (vec p)) b 8 = Inr (b', 8 + n)"
    using response_loop_ok [OF v(1), of 8 b] v(2) by (simp add: n_def b_def b'_def)
  let ?h = "header_bytes (mk_header FCGI_GET_VALUES_RESULT 0 n (pad_of n))"
  have "take (n + pad_of n) (drop 8 b') = answers es @ take (pad_of n) (0 # map (fresh w) [9 + n..<64])"
    using v(2) by (auto simp: b'_def b_def n_def blit_def pad_of_def drop_map add.commute)
  then have "take (8 + (n + pad_of n)) (blit 0 ?h b') = reply"
    by (simp add: blit_def v(3))
  moreover have "AlignInt8 (int n) = int (n + pad_of n)" by (rule AlignInt8_pad)
  moreover have "MakeHeader FCGI_GET_VALUES_RESULT 0 (int n) (int (pad_of n)) =
      Inr (mk_header FCGI_GET_VALUES_RESULT 0 n (pad_of n))"
    using v(2) pn by (intro MakeHeader_mk) simp_all
  moreover have "nat (int (n + pad_of n)) = n + pad_of n" by (rule nat_int)
  ultimately show ?thesis using loop v(2) pn unfolding GetValues_response_def b_def [symmetric]
    by (simp add: Let_def)
qed

lemma UnknownType_response_ok: "UnknownType_response ty = Inr (unknown_reply ty)"
  using MakeHeader_mk [of 8 0 FCGI_UNKNOWN_TYPE 0] by (simp add: UnknownType_response_def unknown_reply_def)

lemma send_reply_ok:
  assumes "tx_ok (ipcFd (reqDataPtr s)) (os s)"
  shows "\<exists>w. send_reply out ok s = (ok, s\<lparr>os := w\<rparr>) \<and> traffic (ipcFd (reqDataPtr s)) (os s) out w
    \<and> rx (conns w (ipcFd (reqDataPtr s))) = rx (conns (os s) (ipcFd (reqDataPtr s)))"
  using write_it_all_ok [OF assms, of out] by (auto simp: send_reply_def dest!: transmitted_traffic)

section \<open>Records\<close>

definition begun :: "ReqData \<Rightarrow> int \<Rightarrow> FCGI_BeginRequestBody \<Rightarrow> ReqData" where
  "begun r rid body = r\<lparr>requestId := rid, keepConnection := (bflags body AND FCGI_KEEP_CONN \<noteq> 0),
     role := short_of (roleB1 body) (roleB0 body), isBeginProcessed := True\<rparr>"

text \<open>The state in which a reader ends.\<close>

definition ended :: "rmode \<Rightarrow> ReqData \<Rightarrow> os_unix \<Rightarrow> bytes \<Rightarrow> rd_end \<Rightarrow> stream_io \<Rightarrow> bool" where
  "ended md r w out e s \<longleftrightarrow> e = Undef \<or> traffic (ipcFd r) w out (os s) \<and>
     (case e of
        EndOfStream left p sk \<Rightarrow> isClosed s \<and> \<not> eorStop s \<and> reader_frame md r s \<and> rdNext s = stop s
          \<and> stop s \<le> buffStop s \<and> ahead s = left \<and> contentLen s = 0 \<and> paddingLen s = p \<and> skip s = sk
      | BeginRequest rid body left p \<Rightarrow> \<not> isClosed s \<and> \<not> eorStop s
          \<and> reader_frame (md\<lparr>rm_id := rid, rm_begun := True\<rparr>) (begun r rid body) s \<and> rdNext s = stop s
          \<and> stop s \<le> buffStop s \<and> ahead s = left \<and> contentLen s = 0 \<and> paddingLen s = p \<and> \<not> skip s
      | Failed err \<Rightarrow> isClosed s \<and> FCGI_errno s = err \<and> (\<exists>rid. reqDataPtr s = r\<lparr>requestId := rid\<rparr>)
      | Undef \<Rightarrow> True)"

definition going_on :: "rmode \<Rightarrow> ReqData \<Rightarrow> os_unix \<Rightarrow> bytes \<times> nat \<times> nat \<times> bool \<times> bytes \<Rightarrow> stream_io \<Rightarrow> bool" where
  "going_on md r w st s \<longleftrightarrow>
     (case st of (out, c, p, sk, R) \<Rightarrow> traffic (ipcFd r) w out (os s) \<and> loop_inv md r s \<and> \<not> eorStop s
        \<and> contentLen s = c \<and> paddingLen s = p \<and> skip s = sk \<and> ahead s = R)"

definition handle_record :: "nat \<Rightarrow> FCGI_Header \<Rightarrow> stream_io \<Rightarrow> flow res" where
  "handle_record k h s =
     bindR (ProcessHeader (FillBuffProc k []) k h (s\<lparr>eorStop := True, stop := rdNext s\<rparr>))
       (\<lambda>(status, s). fill_dispatch status s)"

text \<open>\<open>follows md r w step f\<close>: the code's result \<open>f\<close> is what the specification's \<open>step\<close> says.\<close>

definition follows ::
  "rmode \<Rightarrow> ReqData \<Rightarrow> os_unix \<Rightarrow> (bytes \<times> rd_end) + (bytes \<times> nat \<times> nat \<times> bool \<times> bytes) \<Rightarrow> flow res \<Rightarrow> bool" where
  "follows md r w step f \<longleftrightarrow>
     (case step of
        Inl (out, e) \<Rightarrow> e = Undef \<or> (\<exists>s'. f = Inr (Ret s') \<and> ended md r w out e s')
      | Inr st \<Rightarrow> \<exists>s'. f = Inr (Again s') \<and> going_on md r w st s')"

text \<open>An error status closes the stream with that status, or with the error already set.\<close>

lemma dispatch_error:
  assumes "traffic (ipcFd r) w [] (os s)" "reqDataPtr s = r\<lparr>requestId := i\<rparr>" "status < 0"
    "e = (if FCGI_errno s = 0 then status else FCGI_errno s)"
  shows "follows md r w (Inl ([], Failed e)) (fill_dispatch status s)"
  using assms by (auto simp: follows_def ended_def fill_dispatch_def SetError_def Let_def)

lemma at_body_ahead [simp]: "ahead (at_body c p s) = ahead s"
  by (simp add: at_body_def ahead_def)

lemma reader_frame_at_body [simp]: "reader_frame md r (at_body c p s) = reader_frame md r s"
  by (simp add: reader_frame_def at_body_def)

lemma at_body_simps [simp]:
  "contentLen (at_body c p s) = c" "paddingLen (at_body c p s) = p" "skip (at_body c p s) = skip s"
  "rdNext (at_body c p s) = rdNext s" "buffStop (at_body c p s) = buffStop s" "os (at_body c p s) = os s"
  "reqDataPtr (at_body c p s) = reqDataPtr s" "FCGI_errno (at_body c p s) = FCGI_errno s"
  "stype (at_body c p s) = stype s"
  by (simp_all add: at_body_def)

text \<open>A reply, after which reading goes on.\<close>

lemma dispatch_reply:
  assumes "reader_frame md r s" "rdNext s \<le> buffStop s" "ok = SKIP \<or> ok = MGMT_RECORD"
    "traffic (ipcFd r) w [] (os s)"
  shows "follows md r w (Inr (out, contentLen s, paddingLen s, ok = SKIP \<or> skip s, ahead s))
    (case send_reply out ok s of (status, s) \<Rightarrow> fill_dispatch status s)"
proof -
  have s: "reqDataPtr s = r" "tx_ok (ipcFd r) (os s)" using assms(1) by (auto simp: reader_frame_def)
  with send_reply_ok [of s out ok] obtain v where
    v: "send_reply out ok s = (ok, s\<lparr>os := v\<rparr>)" "traffic (ipcFd r) (os s) out v"
      "rx (conns v (ipcFd r)) = rx (conns (os s) (ipcFd r))" by auto
  let ?s = "s\<lparr>os := v, eorStop := False, isClosed := False, skip := (ok = SKIP \<or> skip s)\<rparr>"
  have "loop_inv md r ?s"
    using assms(1,2) v(3) traffic_keeps [OF v(2)] by (auto simp: loop_inv_def reader_frame_def)
  moreover have "ahead ?s = ahead s"
    using v(3) s by (simp add: ahead_def input_from_def)
  moreover have "?s = s\<lparr>os := v, eorStop := False, isClosed := False\<rparr>" if "ok \<noteq> SKIP"
    using that by simp
  ultimately show ?thesis
    using assms(3) v traffic_trans_Nil [OF assms(4) v(2)]
    by (auto simp: follows_def going_on_def fill_dispatch_def Let_def)
qed

lemma parse_pairs_length: "parse_pairs lim xs = Some (kvs, ok) \<Longrightarrow> length kvs \<le> length xs"
proof (induction lim xs arbitrary: kvs rule: parse_pairs.induct)
  case (1 lim bs)
  from "1.prems" show ?case
    by (subst (asm) parse_pairs.simps)
      (fastforce split: if_splits option.splits dest: "1.IH" parse_pair_shorter)
qed

text \<open>The names of a question for values are read by \<open>ReadParams\<close> with \<open>eorStop\<close> set.\<close>

lemma get_values_read:
  assumes inv: "loop_inv md r s" and k: "length (ahead s) < k" and len: "len \<le> 65535"
    and parse: "parse_pairs (rm_lim md) (if skip s then [] else take len (ahead s)) = Some (kvs, ok)"
  shows "\<exists>p0 p' s'. NewParams 3 = Inr p0
    \<and> ReadParams (FillBuffProc k []) k k p0 (at_body len pad s) =
        Inr (if ok then 0 else - 1, p', if ok then s' else SetError FCGX_PARAMS_ERROR s')
    \<and> eor_fin md r (os s) len pad (skip s) (ahead s) s' \<and> params_rel p' (map pair_entry kvs)"
proof -
  let ?xs = "if skip s then [] else take len (ahead s)"
  have lim: "HEAP_MIN \<le> rm_lim md" using inv by (auto simp: loop_inv_def reader_frame_def)
  obtain p0 where p0: "NewParams 3 = Inr p0" "params_rel p0 []" using NewParams_rel [of 3] by auto
  have "length ?xs \<le> 65535" "length ?xs < k" using k len by auto
  moreover have "length kvs \<le> length ?xs" by (rule parse_pairs_length [OF parse])
  ultimately have small: "16 * (length [] + length kvs) \<le> rm_lim md" "length ?xs < k"
      "2 * int (length [] + length kvs) \<le> INT_MAX"
    using lim by (simp_all add: HEAP_MIN_def)
  from eor.ReadParams_src [OF at_body_src [OF inv k, of len pad] p0(2) parse small(2,2,1,3)] p0(1) show ?thesis by auto
qed

lemma get_values_follows:
  assumes inv: "loop_inv md r s" and k: "length (ahead s) < k" and len: "len \<le> 65535"
  shows "follows md r (os s) (get_values_step md (skip s) len pad (ahead s))
    (bindR (ProcessManagementRecord (FillBuffProc k []) k FCGI_GET_VALUES (at_body len pad s))
      (\<lambda>(status, s). fill_dispatch status s))"
proof -
  let ?xs = "if skip s then [] else take len (ahead s)"
  show ?thesis
  proof (cases "parse_pairs (rm_lim md) ?xs")
    case None
    then show ?thesis by (simp add: get_values_step_def follows_def)
  next
    case (Some ko)
    then obtain kvs ok where parse: "parse_pairs (rm_lim md) ?xs = Some (kvs, ok)" by (cases ko) auto
    from get_values_read [OF inv k len parse, of pad] obtain p0 p' s' where p0: "NewParams 3 = Inr p0" and
      rp: "ReadParams (FillBuffProc k []) k k p0 (at_body len pad s) =
          Inr (if ok then 0 else - 1, p', if ok then s' else SetError FCGX_PARAMS_ERROR s')"
      and fin: "eor_fin md r (os s) len pad (skip s) (ahead s) s'"
      and rel: "params_rel p' (map pair_entry kvs)" by auto
    note free = FreeParams_rel [OF rel]
    note go = ProcessManagementRecord_def p0 rp free get_values_step_def parse
    have s': "traffic (ipcFd r) (os s) [] (os s')" "reqDataPtr s' = r\<lparr>requestId := requestId r\<rparr>"
      using fin by (auto simp: eor_fin_def eor_done_def)
    show ?thesis
    proof (cases "body_complete len pad (skip s) (ahead s)")
      case False
      then have e: "FCGI_errno s' = FCGX_PROTOCOL_ERROR" using fin by (simp add: eor_fin_def eor_done_def)
      let ?t = "if ok then s' else SetError FCGX_PARAMS_ERROR s'"
      have "FCGI_errno ?t = FCGX_PROTOCOL_ERROR" "os ?t = os s'" "reqDataPtr ?t = reqDataPtr s'"
        using e by (simp_all add: SetError_def)
      with False s' show ?thesis
        by (auto simp: go FCGX_GetError_def intro!: dispatch_error [where i = "requestId r"])
    next
      case True
      then have c: "reader_frame md r s'" "rdNext s' \<le> buffStop s'" "ahead s' = drop (len + pad) (ahead s)"
          "contentLen s' = 0" "paddingLen s' = 0" "skip s' = (skip s \<and> len = 0)" "FCGI_errno s' = 0"
        using fin by (auto simp: eor_fin_def eor_done_def reader_frame_def)
      show ?thesis
      proof (cases ok)
        case False
        with True s' c(7) show ?thesis
          by (auto simp: go FCGX_GetError_def SetError_def intro!: dispatch_error [where i = "requestId r"])
      next
        case ok: True
        show ?thesis
        proof (cases "values_reply (rm_fresh md) (map pair_entry kvs)")
          case None
          with True ok show ?thesis by (simp add: get_values_step_def parse follows_def)
        next
          case (Some reply)
          have "fresh (os s') = rm_fresh md" using c(1) by (simp add: reader_frame_def)
          then have "GetValues_response p' (os s') = Inr reply"
            using GetValues_response_ok [OF rel] Some by simp
          with True ok Some c dispatch_reply [OF c(1,2) _ s'(1), of MGMT_RECORD reply] show ?thesis
            by (simp add: go FCGX_GetError_def case_prod_unfold)
        qed
      qed
    qed
  qed
qed

lemma begin_follows:
  assumes inv: "loop_inv md r s" and k: "length (ahead s) < k"
    and new: "\<not> rm_begun md" "rid \<noteq> 0"
  shows "follows md r (os s)
    (Inl ([], if skip s \<or> length (ahead s) < 8 then Failed FCGX_PROTOCOL_ERROR
       else BeginRequest rid (begin_body_of (take 8 (ahead s))) (drop 8 (ahead s)) pad))
    (bindR (ProcessBeginRecord (FillBuffProc k []) k rid (at_body 8 pad s))
      (\<lambda>(status, s). fill_dispatch status s))"
proof -
  let ?r = "r\<lparr>requestId := rid\<rparr>" and ?md = "md\<lparr>rm_id := rid\<rparr>" and ?s = "s\<lparr>reqDataPtr := r\<lparr>requestId := rid\<rparr>\<rparr>"
  have r: "reqDataPtr s = r" "\<not> isBeginProcessed r" using inv new by (auto simp: loop_inv_def reader_frame_def)
  have inv': "loop_inv ?md ?r ?s" using inv by (auto simp: loop_inv_def reader_frame_def)
  have ah: "ahead ?s = ahead s" using r by (simp add: ahead_def input_from_def)
  have eq: "at_body 8 pad s\<lparr>reqDataPtr := ?r\<rparr> = at_body 8 pad ?s" by (simp add: at_body_def)
  let ?xs = "if skip s then [] else take 8 (ahead s)"
  have "length (ahead ?s) < k" using k ah by simp
  from at_body_src [OF inv' this, of 8 pad]
  have src: "eor.src k ?md ?r (os s) 8 pad (skip s) (ahead s) (at_body 8 pad ?s) ?xs" unfolding ah by simp
  note go = ProcessBeginRecord_def r new(2) eq
  have l: "length ?xs < k" using k by auto
  show ?thesis
  proof (cases "skip s \<or> length (ahead s) < 8")
    case True
    then have "length ?xs < 8" by auto
    with eor.GetStr_short [OF src l, of 8] obtain s' where
      s': "FCGX_GetStr (FillBuffProc k []) k 8 (at_body 8 pad ?s) = Inr (?xs, s')"
        "eor_fin ?md ?r (os s) 8 pad (skip s) (ahead s) s'" by auto
    have "length ?xs \<noteq> 8" using \<open>length ?xs < 8\<close> by linarith
    moreover have "FCGI_errno s' = 0 \<or> FCGI_errno s' = FCGX_PROTOCOL_ERROR" "traffic (ipcFd r) (os s) [] (os s')"
      "reqDataPtr s' = ?r"
      using s'(2) by (auto simp: eor_fin_def eor_done_def reader_frame_def split: if_splits)
    ultimately show ?thesis using True s'(1)
      by (auto simp: go intro!: dispatch_error [where i = rid])
  next
    case False
    let ?b = "begin_body_of (take 8 (ahead s))"
    have full: "?xs = take 8 (ahead s)" "length (take 8 (ahead s)) = 8" using False by auto
    with eor.GetStr_full [OF src l, of 8] obtain s' where
      s': "FCGX_GetStr (FillBuffProc k []) k 8 (at_body 8 pad ?s) = Inr (take 8 (ahead s), s')"
      and fin: "eor.src k ?md ?r (os s) 8 pad (skip s) (ahead s) s' []" using False by auto
    from fin False obtain m where
      m: "m \<le> 8" "contentLen s' = 8 - m" "paddingLen s' = pad" "\<not> skip s'"
        "avail s' = drop m (ahead s)" "take (8 - m) (drop m (ahead s)) = []"
      and i: "eor_inv k ?md ?r (os s) s'" "window s' = []"
      unfolding eor.src_def eor_rest_def by auto
    have m8: "m = 8" using m(1,6) False by auto
    have rd: "rdNext s' = stop s'"
      using i length_seg [of "stop s'" "buff s'" "rdNext s'"]
      by (auto simp: eor_inv_def reader_frame_def window_def simp del: length_seg)
    let ?t = "s'\<lparr>reqDataPtr := begun r rid ?b\<rparr>"
    have st: "begun r rid ?b = (reqDataPtr s')\<lparr>keepConnection := (bflags ?b AND FCGI_KEEP_CONN \<noteq> 0),
        role := short_of (roleB1 ?b) (roleB0 ?b), isBeginProcessed := True\<rparr>"
      using i(1) by (simp add: begun_def eor_inv_def reader_frame_def)
    have "ProcessBeginRecord (FillBuffProc k []) k rid (at_body 8 pad s) = Inr (BEGIN_RECORD, ?t)"
      unfolding st using s' full(2) False by (simp add: go Let_def)
    moreover have "ahead (?t\<lparr>eorStop := False, isClosed := False\<rparr>) = avail s'"
      using rd i(1) by (simp add: ahead_def avail_def input_from_def begun_def eor_inv_def reader_frame_def)
    ultimately show ?thesis
      using i rd m m8 False inv
      by (auto simp: follows_def ended_def fill_dispatch_def Let_def eor_inv_def reader_frame_def begun_def
          loop_inv_def)
  qed
qed

lemma version_eq: "uint (version h) = 1 \<longleftrightarrow> version h = 1"
  using word_uint_eq_iff [of "version h" 1] by simp

lemma header_follows:
  assumes inv: "loop_inv md r s" and k: "length (ahead s) < k"
    and e: "\<not> eorStop s"
  shows "follows md r (os s) (record_step md (skip s) h (ahead s)) (handle_record k h s)"
proof -
  define rid where "rid = short_of (requestIdB1 h) (requestIdB0 h)"
  define len where "len = nat (short_of (contentLengthB1 h) (contentLengthB0 h))"
  define pad where "pad = unat (paddingLength h)"
  have len: "len \<le> 65535"
    using short_of_range [of "contentLengthB1 h" "contentLengthB0 h"] by (simp add: len_def)
  have f: "reader_frame md r s" "rdNext s \<le> buffStop s" "reqDataPtr s = r" "requestId r = rm_id md" "isBeginProcessed r = rm_begun md"
    "stype s = rm_type md" "FCGI_errno s = 0" "\<not> isClosed s"
    using inv by (auto simp: loop_inv_def reader_frame_def)
  have rep: "follows md r (os s) (Inr (out, len, pad, ok = SKIP \<or> skip s, ahead s))
      (case send_reply out ok (at_body len pad s) of (status, s) \<Rightarrow> fill_dispatch status s)"
    if "ok = SKIP \<or> ok = MGMT_RECORD" for out ok
    using dispatch_reply [of md r "at_body len pad s" ok "os s" out] f(1,2) that by simp
  have err: "follows md r (os s) (Inl ([], Failed st)) (fill_dispatch st t)"
    if "st < 0" "t = at_body len pad s \<or> t = s\<lparr>eorStop := True, stop := rdNext s\<rparr>" for st t
    using that f by (intro dispatch_error [where i = "requestId r"]) auto
  have go: "handle_record k h s =
      (if version h \<noteq> 1 then fill_dispatch FCGX_UNSUPPORTED_VERSION (s\<lparr>eorStop := True, stop := rdNext s\<rparr>)
       else bindR (let s = at_body len pad s in
         if uint (htype h) = FCGI_BEGIN_REQUEST then ProcessBeginRecord (FillBuffProc k []) k rid s
         else if rid = FCGI_NULL_REQUEST_ID then ProcessManagementRecord (FillBuffProc k []) k (uint (htype h)) s
         else if rid \<noteq> requestId r then Inr (SKIP, s)
         else if uint (htype h) \<noteq> stype s then Inr (FCGX_PROTOCOL_ERROR, s)
         else Inr (STREAM_RECORD, s)) (\<lambda>(status, s). fill_dispatch status s))"
    using f(3) by (simp add: handle_record_def ProcessHeader_def version_eq rid_def len_def pad_def at_body_def Let_def)
  have skp: "follows md r (os s) (Inr ([], len, pad, True, ahead s)) (fill_dispatch SKIP (at_body len pad s))"
    and str: "follows md r (os s) (if len = 0 then Inl ([], EndOfStream (ahead s) pad (skip s))
        else Inr ([], len, pad, skip s, ahead s)) (fill_dispatch STREAM_RECORD (at_body len pad s))"
    using inv by (auto simp: follows_def going_on_def ended_def fill_dispatch_def at_body_def loop_inv_def
        reader_frame_def ahead_def Let_def)
  have unk: "ProcessManagementRecord (FillBuffProc k []) k ty t = Inr (send_reply (unknown_reply ty) MGMT_RECORD t)"
    if "ty \<noteq> FCGI_GET_VALUES" for ty t
    using that NewParams_rel [of 3] by (auto simp: ProcessManagementRecord_def UnknownType_response_ok)
  have ref: "ProcessBeginRecord (FillBuffProc k []) k rid (at_body len pad s) =
      Inr (send_reply (refuse_reply rid) SKIP (at_body len pad s))"
    if "rid \<noteq> 0" "len = 8" "rm_begun md"
    using that f MakeHeader_mk [of 8 0 FCGI_END_REQUEST rid] by (simp add: ProcessBeginRecord_def refuse_reply_def)
  have ill: "ProcessBeginRecord (FillBuffProc k []) k rid (at_body len pad s) = Inr (FCGX_PROTOCOL_ERROR, at_body len pad s)"
    if "rid = 0 \<or> len \<noteq> 8" using that by (simp add: ProcessBeginRecord_def)
  note step = record_step_def rid_def [symmetric] len_def [symmetric] pad_def [symmetric]
  consider (ver) "version h \<noteq> 1" | (beg) "version h = 1" "uint (htype h) = FCGI_BEGIN_REQUEST"
    | (mgm) "version h = 1" "uint (htype h) \<noteq> FCGI_BEGIN_REQUEST" "rid = 0"
    | (oth) "version h = 1" "uint (htype h) \<noteq> FCGI_BEGIN_REQUEST" "rid \<noteq> 0" by blast
  then show ?thesis
  proof cases
    case ver
    then show ?thesis using err by (simp add: step go)
  next
    case beg
    show ?thesis
    proof (cases "rid = 0 \<or> len \<noteq> 8")
      case True
      with beg ill err show ?thesis by (auto simp: step go Let_def)
    next
      case False
      with beg ref rep [of SKIP "refuse_reply rid"] begin_follows [OF inv k, of rid pad] show ?thesis
        by (cases "rm_begun md") (auto simp: step go Let_def)
    qed
  next
    case mgm
    with get_values_follows [OF inv k len, of pad] unk rep [of MGMT_RECORD] show ?thesis
      by (simp add: step go Let_def)
  next
    case oth
    with skp str err f show ?thesis by (auto simp: step go Let_def split: if_splits)
  qed
qed

section \<open>\<open>FillBuffProc\<close> implements the specification\<close>

definition stream_inv :: "rmode \<Rightarrow> ReqData \<Rightarrow> stream_io \<Rightarrow> bool" where
  "stream_inv md r s \<longleftrightarrow> reader_frame md r s \<and> \<not> isClosed s \<and> \<not> eorStop s \<and> rdNext s \<le> stop s \<and> stop s \<le> buffStop s"

text \<open>
  \<open>outcome md r w n xs out e res\<close>: \<open>res\<close> is a result of \<open>FillBuffProc\<close> from which on the client
  gets \<open>xs\<close>, the peer gets \<open>out\<close> and the stream ends with \<open>e\<close>; at most \<open>n\<close> bytes of input are left.
\<close>

definition outcome ::
  "rmode \<Rightarrow> ReqData \<Rightarrow> os_unix \<Rightarrow> nat \<Rightarrow> bytes \<Rightarrow> bytes \<Rightarrow> rd_end \<Rightarrow> stream_io res \<Rightarrow> bool" where
  "outcome md r w n xs out e res \<longleftrightarrow>
     (if xs = [] then e = Undef \<or> (\<exists>s'. res = Inr s' \<and> ended md r w out e s')
      else \<exists>s' ys o1 o2. res = Inr s' \<and> stream_inv md r s' \<and> rdNext s' < stop s' \<and> length (avail s') \<le> n
        \<and> traffic (ipcFd r) w o1 (os s') \<and> out = o1 @ o2 \<and> xs = window s' @ ys
        \<and> deliver md (contentLen s') (paddingLen s') (skip s') (avail s') = (ys, o2, e))"

lemma ended_pre: "traffic (ipcFd r) w0 o0 w \<Longrightarrow> ended md r w out e s \<Longrightarrow> ended md r w0 (o0 @ out) e s"
  by (auto simp: ended_def intro: traffic_trans)

lemma outcome_pre:
  assumes "outcome md r w n xs out e res" "traffic (ipcFd r) w0 o0 w" "n \<le> n'"
  shows "outcome md r w0 n' xs (o0 @ out) e res"
proof (cases "xs = []")
  case True
  with assms ended_pre show ?thesis unfolding outcome_def by (auto 4 3)
next
  case False
  with assms(1) obtain s' ys o1 o2 where "res = Inr s'" "stream_inv md r s'" "rdNext s' < stop s'"
    "length (avail s') \<le> n" "traffic (ipcFd r) w o1 (os s')" "out = o1 @ o2" "xs = window s' @ ys"
    "deliver md (contentLen s') (paddingLen s') (skip s') (avail s') = (ys, o2, e)"
    by (auto simp: outcome_def)
  with False assms(3) traffic_trans [OF assms(2)] show ?thesis
    unfolding outcome_def
    by (auto intro!: exI [of _ s'] exI [of _ ys] exI [of _ "o0 @ o1"] exI [of _ o2])
qed

lemma outcome_pre_Nil:
  "outcome md r w n xs out e res \<Longrightarrow> traffic (ipcFd r) w0 [] w \<Longrightarrow> n \<le> n' \<Longrightarrow> outcome md r w0 n' xs out e res"
  using outcome_pre [of md r w n xs out e res w0 "[]"] by simp

lemma header_of_append: "length h = 8 \<Longrightarrow> header_of (h @ xs) = header_of h"
  by (simp add: header_of_def nth_append)

lemma FillBuffProc_Go:
  assumes "fill_body s = Inr (Go s1)" "fill_header hdr s1 = Inr (hdr', s2)"
  shows "FillBuffProc (Suc k) hdr s = (if length hdr' < 8 then FillBuffProc k hdr' s2
    else bindR (handle_record k (header_of hdr') s2) (\<lambda>f.
      case f of Ret s \<Rightarrow> Inr s | Again s \<Rightarrow> FillBuffProc k [] s | Go s \<Rightarrow> FillBuffProc k [] s))"
  using assms by (simp add: FillBuffProc_body handle_record_def bindR_assoc case_prod_unfold del: FillBuffProc.simps)

lemma fill_header_ok:
  assumes "loop_inv md r s" "length hdr < 8"
  defines "m \<equiv> min (8 - length hdr) (buffStop s - rdNext s)"
  shows "fill_header hdr s = Inr (hdr @ take m (ahead s), s\<lparr>rdNext := rdNext s + m\<rparr>)"
    "loop_inv md r (s\<lparr>rdNext := rdNext s + m\<rparr>)" "ahead (s\<lparr>rdNext := rdNext s + m\<rparr>) = drop m (ahead s)"
    "m \<le> length (ahead s)"
proof -
  have b: "buffStop s \<le> length (buff s)" "buffStop s \<le> 65536" "rdNext s \<le> buffStop s"
    using assms(1) by (auto simp: loop_inv_def reader_frame_def)
  have m: "rdNext s + m \<le> buffStop s" using b(3) by (auto simp: m_def)
  show "fill_header hdr s = Inr (hdr @ take m (ahead s), s\<lparr>rdNext := rdNext s + m\<rparr>)"
    using b m take_input [OF b(1) m]
    by (simp add: fill_header_def ptrDiff_def copy_out_def ahead_def m_def [symmetric] Let_def)
  show "loop_inv md r (s\<lparr>rdNext := rdNext s + m\<rparr>)"
    using assms(1) m by (auto simp: loop_inv_def reader_frame_def)
  show "ahead (s\<lparr>rdNext := rdNext s + m\<rparr>) = drop m (ahead s)"
    using drop_input [OF b(1) m] by (simp add: ahead_def)
  show "m \<le> length (ahead s)" using m b by (simp add: ahead_def input_from_def)
qed

lemma FillBuffProc_content:
  assumes "loop_inv md r s" "\<not> eorStop s" "ahead s \<noteq> []" "0 < contentLen s" "\<not> skip s"
    "deliver md (contentLen s) (paddingLen s) (skip s) (ahead s) = (xs, out, e)"
  shows "outcome md r (os s) (length (ahead s)) xs out e (FillBuffProc (Suc k) hdr s)"
proof -
  from fill_body_content [OF assms(1,3-5)] obtain s' n where
    s': "fill_body s = Inr (Ret s')" "loop_inv md r s'" "eorStop s' = eorStop s" "\<not> skip s'"
      "rdNext s' < stop s'" "stop s' \<le> buffStop s'" "0 < n" "n \<le> contentLen s" "n \<le> length (ahead s)"
      "contentLen s' = contentLen s - n" "paddingLen s' = paddingLen s"
      "window s' = take n (ahead s)" "avail s' = drop n (ahead s)" "traffic (ipcFd r) (os s) [] (os s')" by blast
  obtain ys where ys: "deliver md (contentLen s') (paddingLen s') (skip s') (avail s') = (ys, out, e)"
    "xs = window s' @ ys"
    using deliver_content [OF s'(8,9), of md "paddingLen s"] assms(5,6) s' by (auto split: prod.splits)
  moreover have "window s' \<noteq> []" using s'(7,12) assms(3) by simp
  ultimately show ?thesis using s' assms(2)
    by (auto simp: FillBuffProc_body outcome_def stream_inv_def loop_inv_def simp del: FillBuffProc.simps)
qed

text \<open>The induction hypothesis of the refinement, for \<open>k\<close> rounds.\<close>

definition refines :: "nat \<Rightarrow> bool" where
  "refines k \<longleftrightarrow> (\<forall>md r hdr s xs out e. loop_inv md r s \<longrightarrow> \<not> eorStop s \<longrightarrow> length (ahead s) < k \<longrightarrow>
     length hdr < 8 \<longrightarrow> hdr = [] \<or> contentLen s = 0 \<and> paddingLen s = 0 \<longrightarrow>
     deliver md (contentLen s) (paddingLen s) (skip s) (hdr @ ahead s) = (xs, out, e) \<longrightarrow>
     outcome md r (os s) (length (ahead s)) xs out e (FillBuffProc k hdr s))"

lemma refinesD:
  assumes "refines k" "loop_inv md r s" "\<not> eorStop s" "length (ahead s) < k" "length hdr < 8"
    "hdr = [] \<or> contentLen s = 0 \<and> paddingLen s = 0"
    "deliver md (contentLen s) (paddingLen s) (skip s) (hdr @ ahead s) = (xs, out, e)"
  shows "outcome md r (os s) (length (ahead s)) xs out e (FillBuffProc k hdr s)"
  using assms unfolding refines_def by blast

lemma record_refines:
  assumes ih: "refines k" and inv: "loop_inv md r s" "\<not> eorStop s" "length (ahead s) < k"
    and h: "length hdr = 8" "contentLen s = 0" "paddingLen s = 0"
    and d: "deliver md 0 0 (skip s) (hdr @ ahead s) = (xs, out, e)"
  shows "outcome md r (os s) (length (ahead s)) xs out e (bindR (handle_record k (header_of hdr) s) (\<lambda>f.
      case f of Ret s \<Rightarrow> Inr s | Again s \<Rightarrow> FillBuffProc k [] s | Go s \<Rightarrow> FillBuffProc k [] s))"
proof -
  let ?step = "record_step md (skip s) (header_of hdr) (ahead s)"
  note f = header_follows [OF inv(1,3,2), of "header_of hdr"]
  have d: "(xs, out, e) = (case ?step of Inl (out, e) \<Rightarrow> ([], out, e)
      | Inr (out, c', p', sk', bs') \<Rightarrow>
          (case deliver md c' p' sk' bs' of (xs, outs, e) \<Rightarrow> (xs, out @ outs, e)))"
    using d h(1) by (subst (asm) deliver.simps) (auto simp: header_of_append Let_def split: sum.splits prod.splits)
  show ?thesis
  proof (cases ?step)
    case (Inl oe)
    with d f show ?thesis by (cases oe) (auto simp: follows_def outcome_def ended_def)
  next
    case (Inr st)
    obtain o1 c p sk R where st: "st = (o1, c, p, sk, R)" by (cases st) auto
    obtain o2 where o2: "deliver md c p sk R = (xs, o2, e)" "out = o1 @ o2"
      using d Inr st by (auto split: prod.splits)
    from f Inr st obtain s' where s': "handle_record k (header_of hdr) s = Inr (Again s')"
      "traffic (ipcFd r) (os s) o1 (os s')" "loop_inv md r s'" "\<not> eorStop s'" "contentLen s' = c"
      "paddingLen s' = p" "skip s' = sk" "ahead s' = R"
      by (auto simp: follows_def going_on_def)
    have R: "length R \<le> length (ahead s)" using record_step_shorter Inr st by blast
    from refinesD [OF ih s'(3,4), of "[]"] R inv(3) s' o2
    have "outcome md r (os s') (length R) xs o2 e (FillBuffProc k [] s')" by auto
    with outcome_pre [OF _ s'(2) R] s'(1) o2(2) show ?thesis by simp
  qed
qed

lemma FillBuffProc_refines: "refines k"
proof (induction k)
  case 0
  then show ?case by (simp add: refines_def)
next
  case (Suc k)
  show ?case unfolding refines_def
  proof (intro allI impI)
    fix md r hdr s xs out e
    assume inv: "loop_inv md r s" "\<not> eorStop s" "length (ahead s) < Suc k" and h: "length hdr < 8"
      "hdr = [] \<or> contentLen s = 0 \<and> paddingLen s = 0"
      and d: "deliver md (contentLen s) (paddingLen s) (skip s) (hdr @ ahead s) = (xs, out, e)"
    consider (none) "ahead s = []" | (content) "ahead s \<noteq> []" "0 < contentLen s" "\<not> skip s"
      | (skip) "ahead s \<noteq> []" "contentLen s = 0 \<or> skip s" by blast
    then show "outcome md r (os s) (length (ahead s)) xs out e (FillBuffProc (Suc k) hdr s)"
    proof cases
      case none
      with fill_read_empty [OF inv(1)] obtain w where
        w: "fill_body s = Inr (Ret (SetError FCGX_PROTOCOL_ERROR (s\<lparr>os := w\<rparr>)))" "traffic (ipcFd r) (os s) [] w"
        by (auto simp: fill_body_def)
      have x: "xs = [] \<and> out = [] \<and> e = Failed FCGX_PROTOCOL_ERROR"
        using d none h by (subst (asm) deliver.simps) auto
      have "FCGI_errno s = 0" "reqDataPtr s = r\<lparr>requestId := requestId r\<rparr>"
        using inv(1) by (simp_all add: loop_inv_def reader_frame_def)
      then have "ended md r (os s) [] (Failed FCGX_PROTOCOL_ERROR) (SetError FCGX_PROTOCOL_ERROR (s\<lparr>os := w\<rparr>))"
        using w(2) unfolding ended_def by (simp add: SetError_def) (rule exI [of _ "requestId r"], simp)
      with x w(1) show ?thesis
        by (simp add: outcome_def FillBuffProc_body del: FillBuffProc.simps)
    next
      case content
      then have "hdr = []" using h by auto
      with FillBuffProc_content [OF inv(1,2) content] d show ?thesis by simp
    next
      case skip
      from fill_body_skip [OF inv(1) skip] obtain s' n where
        s': "passed_over md r s n s'" "n = 0 \<longrightarrow> rdNext s' < buffStop s'" and
        step: "if 0 < contentLen s' + paddingLen s' then fill_body s = Inr (Again s') \<and> 0 < n
          else fill_body s = Inr (Go s')"
        using inv(2) by auto
      have p: "loop_inv md r s'" "\<not> eorStop s'" "n \<le> length (ahead s)" "ahead s' = drop n (ahead s)"
        "traffic (ipcFd r) (os s) [] (os s')"
        "consumed (contentLen s) (paddingLen s) (skip s) n (contentLen s') (paddingLen s') (skip s')"
        using s'(1) inv(2) by (auto simp: passed_over_def)
      have shorter: "length (ahead s') \<le> length (ahead s)" by (simp add: p(4))
      have d': "deliver md (contentLen s') (paddingLen s') (skip s') (hdr @ ahead s') = (xs, out, e)"
      proof (cases "hdr = []")
        case True
        then show ?thesis using d deliver_consumed [OF p(6,3) skip(2), of md] p(4) by simp
      next
        case False
        with h p(6) have "n = 0" "skip s' = skip s" "contentLen s' = 0" "paddingLen s' = 0"
          by (auto simp: consumed_def)
        with d p(4) h False show ?thesis by simp
      qed
      show ?thesis
      proof (cases "0 < contentLen s' + paddingLen s'")
        case True
        then have "hdr = []" "0 < n" "fill_body s = Inr (Again s')"
          using h p(6) step by (auto simp: consumed_def split: if_splits)
        moreover have "length (ahead s') < k" using \<open>0 < n\<close> p(3,4) inv(3) by simp
        ultimately show ?thesis
          using refinesD [OF Suc.IH p(1,2) _ h(1)] d' outcome_pre_Nil [OF _ p(5) shorter]
          by (simp add: FillBuffProc_body del: FillBuffProc.simps)
      next
        case False
        then have z: "contentLen s' = 0" "paddingLen s' = 0" "fill_body s = Inr (Go s')" using step by auto
        define m where "m = min (8 - length hdr) (buffStop s' - rdNext s')"
        let ?s = "s'\<lparr>rdNext := rdNext s' + m\<rparr>" and ?h = "hdr @ take m (ahead s')"
        note fh = fill_header_ok [OF p(1) h(1), folded m_def]
        have hd: "?h @ ahead ?s = hdr @ ahead s'" by (simp add: fh(3))
        have "0 < n + m" using s'(2) h(1) by (cases "n = 0") (auto simp: m_def)
        then have k: "length (ahead ?s) < k" using fh(3,4) p(3,4) inv(3) by auto
        have le: "length (ahead ?s) \<le> length (ahead s)" using fh(3) shorter by simp
        have "length ?h = 8" if "\<not> length ?h < 8" using that fh(4) h(1) by (simp add: m_def)
        then show ?thesis
          using refinesD [OF Suc.IH fh(2), of ?h xs out e] record_refines [OF Suc.IH fh(2), of ?h xs out e]
            outcome_pre_Nil [of md r "os ?s" "length (ahead ?s)" xs out e _ "os s"] p(2,5) k le d' z hd
          unfolding FillBuffProc_Go [OF z(3) fh(1)] by auto
      qed
    qed
  qed
qed

text \<open>
  When the handling of the next record fails in every state with that record's content ahead, so does
  \<open>FillBuffProc\<close>, however the record's header is cut into pieces.
\<close>

lemma FillBuffProc_fails:
  assumes "loop_inv md r s" "\<not> eorStop s" "contentLen s = 0" "paddingLen s = 0" "length hdr < 8" "length (ahead s) < k"
    "hdr @ ahead s = h @ R" "length h = 8"
    and fails: "\<And>j s. loop_inv md r s \<Longrightarrow> \<not> eorStop s \<Longrightarrow> skip s = sk \<Longrightarrow> ahead s = R \<Longrightarrow> length R < j
      \<Longrightarrow> handle_record j (header_of h) s = Inl f"
    and "skip s = sk"
  shows "FillBuffProc k hdr s = Inl f"
  using assms(1-8,10)
proof (induction k arbitrary: hdr s)
  case (Suc k)
  have ne: "ahead s \<noteq> []" using Suc.prems(5,7,8) by (metis append_Nil2 length_append not_add_less1)
  from fill_body_skip [OF Suc.prems(1) ne] Suc.prems(2,3) obtain s' n where
    p: "passed_over md r s n s'" "n = 0 \<longrightarrow> rdNext s' < buffStop s'" and
    step: "if 0 < contentLen s' + paddingLen s' then fill_body s = Inr (Again s') \<and> 0 < n else fill_body s = Inr (Go s')"
    by auto
  then have s': "loop_inv md r s'" "\<not> eorStop s'" "contentLen s' = 0" "paddingLen s' = 0" "skip s' = sk" "ahead s' = ahead s"
    "rdNext s' < buffStop s'" and go: "fill_body s = Inr (Go s')"
    using Suc.prems by (auto simp: passed_over_def consumed_def)
  define m where "m = min (8 - length hdr) (buffStop s' - rdNext s')"
  let ?s = "s'\<lparr>rdNext := rdNext s' + m\<rparr>" and ?h = "hdr @ take m (ahead s')"
  note fh = fill_header_ok [OF s'(1) Suc.prems(5), folded m_def]
  have m: "0 < m" "m \<le> 8 - length hdr" using s'(7) Suc.prems(5) by (simp_all add: m_def)
  then have k: "length (ahead ?s) < k" using fh(3,4) s'(6) Suc.prems(6) by simp
  have whole: "?h @ ahead ?s = h @ R" using fh(3) s'(6) Suc.prems(7) by simp
  show ?case
  proof (cases "length ?h < 8")
    case True
    then show ?thesis using Suc.IH [OF fh(2) _ _ _ True k whole Suc.prems(8)] s' unfolding FillBuffProc_Go [OF go fh(1)] by simp
  next
    case False
    then have "length ?h = length h" using m fh(4) Suc.prems(8) by simp
    with whole have "?h = h \<and> ahead ?s = R" by (metis append_eq_append_conv)
    then show ?thesis using fails [OF fh(2), of k] s' k Suc.prems(8) unfolding FillBuffProc_Go [OF go fh(1)] by simp
  qed
qed simp

section \<open>An input stream is a byte source\<close>

lemma get_values_step_begin: "get_values_step md sk len pad r \<noteq> Inl (out, BeginRequest i b l p)"
  by (simp add: get_values_step_def split: option.split prod.split)

lemma record_step_begun:
  "rm_begun md \<Longrightarrow> record_step md sk h r \<noteq> Inl (out, BeginRequest i b l p)"
  unfolding record_step_def Let_def by (simp add: get_values_step_begin)

lemma deliver_begun:
  assumes "rm_begun md" "deliver md c p sk bs = (xs, out, e)"
  shows "e \<noteq> BeginRequest i b l q"
  using assms(2)
proof (induction "length bs" arbitrary: c p sk bs xs out rule: less_induct)
  case less
  let ?step = "record_step md (sk \<and> c = 0) (header_of (drop (c + p) bs)) (drop (c + p + 8) bs)"
  show ?case
  proof (cases "length bs < c + p + 8")
    case True
    with less.prems show ?thesis by (auto simp: deliver.simps [of md c])
  next
    case long: False
    show ?thesis
    proof (cases ?step)
      case (Inl oe)
      with long less.prems record_step_begun [OF assms(1), of "sk \<and> c = 0"] show ?thesis
        by (cases oe) (auto simp: deliver.simps [of md c] Let_def)
    next
      case (Inr st)
      obtain o1 c' p' sk' R where st: "st = (o1, c', p', sk', R)" by (cases st) auto
      then have "length R < length bs" using Inr long record_step_shorter by fastforce
      moreover obtain ys o2 where "deliver md c' p' sk' R = (ys, o2, e)"
        using less.prems long Inr st
        by (cases "deliver md c' p' sk' R") (auto simp: deliver.simps [of md c] Let_def)
      ultimately show ?thesis by (rule less.hyps)
    qed
  qed
qed

primrec rest_of :: "rd_end \<Rightarrow> bytes" where
  "rest_of (EndOfStream r p sk) = r"
| "rest_of (BeginRequest i b r p) = r"
| "rest_of (Failed e) = []"
| "rest_of Undef = []"

lemma record_step_rest: "record_step md sk h r = Inl (out, e) \<Longrightarrow> length (rest_of e) \<le> length r"
  by (auto simp: record_step_def get_values_step_def Let_def split: if_splits option.splits)

lemma deliver_length:
  assumes "deliver md c p sk bs = (xs, out, e)"
  shows "length xs + length (rest_of e) \<le> length bs"
  using assms
proof (induction "length bs" arbitrary: c p sk bs xs out rule: less_induct)
  case less
  let ?step = "record_step md (sk \<and> c = 0) (header_of (drop (c + p) bs)) (drop (c + p + 8) bs)"
  show ?case
  proof (cases "length bs < c + p + 8")
    case True
    with less.prems show ?thesis by (auto simp: deliver.simps [of md c] Let_def)
  next
    case long: False
    show ?thesis
    proof (cases ?step)
      case (Inl oe)
      obtain o1 e' where "oe = (o1, e')" by (cases oe)
      with Inl long less.prems record_step_rest [of md "sk \<and> c = 0"] show ?thesis
        by (fastforce simp: deliver.simps [of md c] Let_def split: if_splits)
    next
      case (Inr st)
      obtain o1 c' p' sk' R where st: "st = (o1, c', p', sk', R)" by (cases st) auto
      then have R: "length R + (c + p + 8) \<le> length bs" using Inr long record_step_shorter by fastforce
      obtain ys o2 where ys: "deliver md c' p' sk' R = (ys, o2, e)" "xs = (if sk then [] else take c bs) @ ys"
        using less.prems long Inr st
        by (cases "deliver md c' p' sk' R") (auto simp: deliver.simps [of md c] Let_def)
      from less.hyps [OF _ ys(1)] R have "length ys + length (rest_of e) \<le> length R" by linarith
      with R ys(2) show ?thesis by simp
    qed
  qed
qed

definition str_inv :: "nat \<Rightarrow> rmode \<Rightarrow> ReqData \<Rightarrow> rd_end \<Rightarrow> stream_io \<Rightarrow> bool" where
  "str_inv K md r e s \<longleftrightarrow> stream_inv md r s \<and> rm_begun md \<and> e \<noteq> Undef \<and> length (avail s) < K"

definition str_rest :: "rmode \<Rightarrow> ReqData \<Rightarrow> os_unix \<Rightarrow> bytes \<Rightarrow> rd_end \<Rightarrow> stream_io \<Rightarrow> bytes \<Rightarrow> bool" where
  "str_rest md r w out e s xs \<longleftrightarrow> (\<exists>o1 o2. traffic (ipcFd r) w o1 (os s) \<and> out = o1 @ o2
     \<and> deliver md (contentLen s) (paddingLen s) (skip s) (avail s) = (xs, o2, e))"

definition str_fin :: "rmode \<Rightarrow> ReqData \<Rightarrow> os_unix \<Rightarrow> bytes \<Rightarrow> rd_end \<Rightarrow> stream_io \<Rightarrow> bool" where
  "str_fin md r w out e s \<longleftrightarrow> isClosed s \<and> e \<noteq> Undef \<and> ended md r w out e s"

lemma str_fill:
  assumes "str_inv K md r e s" "str_rest md r w out e s xs" "rdNext s = stop s"
  shows "if xs = [] then \<exists>s'. FillBuffProc K [] s = Inr s' \<and> str_fin md r w out e s'
    else \<exists>s' ys. FillBuffProc K [] s = Inr s' \<and> str_inv K md r e s' \<and> rdNext s' < stop s'
      \<and> str_rest md r w out e s' ys \<and> xs = window s' @ ys"
proof -
  obtain o1 o2 where o: "traffic (ipcFd r) w o1 (os s)" "out = o1 @ o2"
    "deliver md (contentLen s) (paddingLen s) (skip s) (ahead s) = (xs, o2, e)"
    using assms(2,3) by (auto simp: str_rest_def ahead_def avail_def)
  have i: "loop_inv md r s" "\<not> eorStop s" "length (ahead s) < K" "rm_begun md" "e \<noteq> Undef"
    using assms(1,3) by (auto simp: str_inv_def stream_inv_def loop_inv_def ahead_def avail_def)
  have "outcome md r (os s) (length (ahead s)) xs o2 e (FillBuffProc K [] s)"
    using refinesD [OF FillBuffProc_refines i(1-3), of "[]"] o(3) by simp
  from outcome_pre [OF this o(1) order_refl]
  have oc: "outcome md r w (length (ahead s)) xs out e (FillBuffProc K [] s)" by (simp add: o(2))
  have nb: "\<nexists>rid b l p. e = BeginRequest rid b l p"
    using deliver_begun [OF i(4) o(3)] by blast
  show ?thesis
  proof (cases "xs = []")
    case True
    with oc i(5) obtain s' where s': "FillBuffProc K [] s = Inr s'" "ended md r w out e s'"
      by (auto simp: outcome_def)
    moreover have "isClosed s'" using s'(2) i(5) nb by (cases e) (auto simp: ended_def)
    ultimately show ?thesis using True i(5) by (auto simp: str_fin_def)
  next
    case False
    with oc obtain s' ys o1' o2' where s': "FillBuffProc K [] s = Inr s'" "stream_inv md r s'" "rdNext s' < stop s'"
      "length (avail s') \<le> length (ahead s)" "traffic (ipcFd r) w o1' (os s')" "out = o1' @ o2'" "xs = window s' @ ys"
      "deliver md (contentLen s') (paddingLen s') (skip s') (avail s') = (ys, o2', e)"
      by (auto simp: outcome_def)
    then have "str_inv K md r e s'" "str_rest md r w out e s' ys"
      using i by (auto simp: str_inv_def str_rest_def)
    with s' False show ?thesis by auto
  qed
qed

interpretation str: param_source "FillBuffProc K []" "str_inv K md r e" "str_rest md r w out e"
  "str_fin md r w out e" "rm_lim md"
  for K md r e w out
proof unfold_locales
  fix s xs
  assume "str_inv K md r e s" "str_rest md r w out e s xs" "rdNext s = stop s" "xs \<noteq> []"
  then show "\<exists>s' ys. FillBuffProc K [] s = Inr s' \<and> str_inv K md r e s' \<and> rdNext s' < stop s'
      \<and> str_rest md r w out e s' ys \<and> xs = window s' @ ys" using str_fill by force
next
  fix s
  assume "str_inv K md r e s" "str_rest md r w out e s []" "rdNext s = stop s"
  then show "\<exists>s'. FillBuffProc K [] s = Inr s' \<and> str_fin md r w out e s'" using str_fill by force
qed (auto simp: str_inv_def str_rest_def str_fin_def stream_inv_def reader_frame_def avail_def)

section \<open>What records deliver\<close>

text \<open>A record with any padding.\<close>

definition record_bytes :: "int \<Rightarrow> int \<Rightarrow> bytes \<Rightarrow> bytes \<Rightarrow> bytes" where
  "record_bytes ty rid c pad = header_bytes (mk_header ty rid (length c) (length pad)) @ c @ pad"

lemma wrap_record_bytes: "wrap_record rid ty c = record_bytes ty rid c (replicate (pad_of (length c)) 0)"
  by (simp add: wrap_record_def record_bytes_def)

lemma mk_header_fields:
  assumes "0 \<le> ty" "ty \<le> 255" "0 \<le> rid" "rid \<le> 65535" "len \<le> 65535" "pad \<le> 255"
  shows "uint (htype (mk_header ty rid len pad)) = ty"
    "short_of (requestIdB1 (mk_header ty rid len pad)) (requestIdB0 (mk_header ty rid len pad)) = rid"
    "nat (short_of (contentLengthB1 (mk_header ty rid len pad)) (contentLengthB0 (mk_header ty rid len pad))) = len"
    "unat (paddingLength (mk_header ty rid len pad)) = pad" "version (mk_header ty rid len pad) = 1"
  using assms short_of_bytes [of rid] short_of_bytes [of "int len"]
  by (simp_all add: mk_header_def uint_word_of_int unat_of_nat take_bit_eq_mod)

lemma deliver_body:
  "deliver md (length c) (length pad) sk (c @ pad @ rest) =
    (case deliver md 0 0 (sk \<and> c = []) rest of (xs, out, e) \<Rightarrow> ((if sk then [] else c) @ xs, out, e))"
proof (cases sk)
  case True
  have "consumed (length c) (length pad) True (length c + length pad) 0 0 (c = [])"
    by (simp add: consumed_def)
  from deliver_consumed [OF this, of "c @ pad @ rest" md] True show ?thesis by (simp split: prod.split)
next
  case False
  have "consumed 0 (length pad) False (length pad) 0 0 False" by (simp add: consumed_def)
  from deliver_consumed [OF this, of "pad @ rest" md]
    deliver_content [of "length c" "length c" "c @ pad @ rest" md "length pad"] False
  show ?thesis by (simp split: prod.split)
qed

lemma deliver_header:
  assumes "length h = 8"
  shows "deliver md 0 0 sk (h @ rest) =
    (case record_step md sk (header_of h) rest of Inl (out, e) \<Rightarrow> ([], out, e)
     | Inr (out, c', p', sk', bs') \<Rightarrow>
         (case deliver md c' p' sk' bs' of (xs, outs, e) \<Rightarrow> (xs, out @ outs, e)))"
  using assms by (subst deliver.simps) (auto simp: header_of_append Let_def split: sum.split prod.split)

text \<open>A record of the stream delivers its content, and the empty one ends it.\<close>

lemma deliver_stream_record:
  assumes "rm_type md \<noteq> FCGI_BEGIN_REQUEST" "0 \<le> rm_type md" "rm_type md \<le> 255" "0 < rm_id md" "rm_id md \<le> 65535"
    "length c \<le> 65535" "length pad \<le> 255"
  shows "deliver md 0 0 False (record_bytes (rm_type md) (rm_id md) c pad @ rest) =
    (if c = [] then ([], [], EndOfStream (pad @ rest) (length pad) False)
     else case deliver md 0 0 False rest of (xs, out, e) \<Rightarrow> (c @ xs, out, e))"
proof -
  note f = mk_header_fields [of "rm_type md" "rm_id md" "length c" "length pad"]
  have "record_step md False (mk_header (rm_type md) (rm_id md) (length c) (length pad)) (c @ pad @ rest) =
      (if c = [] then Inl ([], EndOfStream (pad @ rest) (length pad) False)
       else Inr ([], length c, length pad, False, c @ pad @ rest))"
    using assms f by (simp add: record_step_def Let_def)
  with deliver_body [of md c pad False rest] show ?thesis
    by (simp add: record_bytes_def deliver_header header_of_bytes [of _ "[]", simplified] split: prod.split)
qed

text \<open>A record of another request is passed over, unless it is empty.\<close>

lemma deliver_foreign_record:
  assumes "ty \<noteq> FCGI_BEGIN_REQUEST" "0 \<le> ty" "ty \<le> 255" "0 < rid" "rid \<le> 65535" "rid \<noteq> rm_id md"
    "length c \<le> 65535" "length pad \<le> 255"
  shows "deliver md 0 0 sk (record_bytes ty rid c pad @ rest) = deliver md 0 0 (c = []) rest"
proof -
  note f = mk_header_fields [of ty rid "length c" "length pad"]
  have "record_step md sk (mk_header ty rid (length c) (length pad)) (c @ pad @ rest) =
      Inr ([], length c, length pad, True, c @ pad @ rest)"
    using assms f by (simp add: record_step_def Let_def)
  with deliver_body [of md c pad True rest] show ?thesis
    by (simp add: record_bytes_def deliver_header header_of_bytes [of _ "[]", simplified] split: prod.split)
qed

lemma deliver_wire:
  assumes "rm_type md \<noteq> FCGI_BEGIN_REQUEST" "0 \<le> rm_type md" "rm_type md \<le> 255" "0 < rm_id md" "rm_id md \<le> 65535"
    and "\<forall>(t, c) \<in> set recs. t = rm_type md \<and> c \<noteq> [] \<and> length c \<le> 65535"
  shows "deliver md 0 0 False (wire (rm_id md) recs @ rest) =
    (case deliver md 0 0 False rest of (xs, out, e) \<Rightarrow> (content_of (rm_type md) recs @ xs, out, e))"
  using assms(6)
proof (induction recs)
  case Nil
  then show ?case by (simp split: prod.split)
next
  case (Cons tc recs)
  obtain c where tc: "tc = (rm_type md, c)" and c: "c \<noteq> []" "length c \<le> 65535" using Cons.prems by (cases tc) auto
  have "wire (rm_id md) (tc # recs) @ rest =
      record_bytes (rm_type md) (rm_id md) c (replicate (pad_of (length c)) 0) @ (wire (rm_id md) recs @ rest)"
    by (simp add: wire_def tc wrap_record_bytes)
  moreover have "content_of (rm_type md) (tc # recs) = c @ content_of (rm_type md) recs"
    by (simp add: content_of_def tc)
  ultimately show ?case
    using deliver_stream_record [OF assms(1-5), of c "replicate (pad_of (length c)) 0" "wire (rm_id md) recs @ rest"]
      c Cons.IH Cons.prems pad_of_bound [of "length c"]
    by (simp split: prod.split)
qed

end
