(* ===== verification/Os_Listen.thy ===== *)
theory Os_Listen
  imports Os_Unix
begin

text \<open>
  Start-up and sockets of \<open>libfcgi/os_unix.c\<close>: the library initialisation with its signal
  handlers, the listening socket, the connection of a client, and the test whether the process
  was started with a listening socket.
\<close>

unbundle bit_operations_syntax

section \<open>Signals and initialisation\<close>

abbreviation (input) SIGPIPE :: int where "SIGPIPE \<equiv> 13"
abbreviation (input) SIGUSR1 :: int where "SIGUSR1 \<equiv> 10"
abbreviation (input) ENOMEM :: int where "ENOMEM \<equiv> 12"
abbreviation (input) ENOTCONN :: int where "ENOTCONN \<equiv> 107"
abbreviation (input) EMFILE :: int where "EMFILE \<equiv> 24"

definition OS_SigpipeHandler :: "int \<Rightarrow> os_unix \<Rightarrow> os_unix" where
  "OS_SigpipeHandler signo os = os"

text \<open>What the delivery of a signal does when one of the library's handlers is installed.\<close>

definition deliver_signal :: "int \<Rightarrow> os_unix \<Rightarrow> os_unix option" where
  "deliver_signal signo os =
     (case sigactions os signo of
        SigpipeHandler \<Rightarrow> Some (OS_SigpipeHandler signo os)
      | Sigusr1Handler \<Rightarrow> Some (OS_Sigusr1Handler signo os)
      | SIG_IGN \<Rightarrow> Some os
      | _ \<Rightarrow> None)"

definition installSignalHandler :: "int \<Rightarrow> sig_handler \<Rightarrow> bool \<Rightarrow> os_unix \<Rightarrow> os_unix" where
  "installSignalHandler signo act force os =
     (if force \<or> sigactions os signo = SIG_DFL
      then os\<lparr>sigactions := (sigactions os)(signo := act)\<rparr> else os)"

definition OS_InstallSignalHandlers :: "bool \<Rightarrow> os_unix \<Rightarrow> os_unix" where
  "OS_InstallSignalHandlers force os =
     installSignalHandler SIGUSR1 Sigusr1Handler force
       (installSignalHandler SIGPIPE SigpipeHandler force os)"

abbreviation (input) AIO_SIZE :: nat where "AIO_SIZE \<equiv> 48"

definition aio_zero :: AioInfo where
  "aio_zero = \<lparr>procPtr = None, clientData = 0, aioFd = 0, aioLen = 0, aioOffset = 0, aioBuf = 0, inUse = False\<rparr>"

definition OS_LibInit :: "os_unix \<Rightarrow> int \<times> os_unix" where
  "OS_LibInit os =
     (if osLibInitialized os then (0, os)
      else if heapLimit os < asyncIoTableSize os * AIO_SIZE
      then (- 1, os\<lparr>asyncIoTable := None, errno := ENOMEM\<rparr>)
      else
        (0, (OS_InstallSignalHandlers False
           (os\<lparr>asyncIoTable := Some (replicate (asyncIoTableSize os) aio_zero),
               readFdSet := {}, writeFdSet := {}, readFdSetPost := {}, writeFdSetPost := {}\<rparr>))
           \<lparr>osLibInitialized := True\<rparr>))"

definition OS_LibShutdown :: "os_unix \<Rightarrow> os_unix" where
  "OS_LibShutdown os =
     (if \<not> osLibInitialized os then os else os\<lparr>asyncIoTable := None, osLibInitialized := False\<rparr>)"

definition OS_IsFcgi :: "int \<Rightarrow> os_unix \<Rightarrow> int \<times> os_unix" where
  "OS_IsFcgi sock os =
     (let os = os\<lparr>errno := 0\<rparr>; e = peerErr os sock in
      if e \<noteq> 0 then (if e = ENOTCONN then 1 else 0, os\<lparr>errno := e\<rparr>) else (0, os))"

definition OS_SetFlags :: "int \<Rightarrow> int \<Rightarrow> os_unix \<Rightarrow> os_unix res" where
  "OS_SetFlags fd fl os =
     (case getfl os fd of
        Inl e \<Rightarrow> Inl (Exit e)
      | Inr val \<Rightarrow>
          if setflErr os \<noteq> 0 then Inl (Exit (setflErr os))
          else Inr (os\<lparr>getfl := (getfl os)(fd := Inr (val OR fl))\<rparr>))"

section \<open>Addresses\<close>

text \<open>
  The sizes are those of Linux; the \<open>MAXPATHLEN\<close> of \<open>include/fcgios.h\<close> (1024) counts only where the
  system's headers define none.
\<close>

abbreviation (input) MAXPATHLEN :: nat where "MAXPATHLEN \<equiv> 4096"
abbreviation (input) SUN_PATH_SIZE :: nat where "SUN_PATH_SIZE \<equiv> 108"
abbreviation (input) INADDR_ANY :: "32 word" where "INADDR_ANY \<equiv> 0"
abbreviation (input) INADDR_NONE :: "32 word" where "INADDR_NONE \<equiv> - 1"

text \<open>
  The split of \<open>bindPath\<close> into host and port; \<open>port\<close> is a \<open>short\<close>, so the number is cut to
  16 bits.  \<open>None\<close> is a path: no colon, or a port that is 0 as a \<open>short\<close>.
\<close>

definition tcp_address :: "bytes \<Rightarrow> (bytes \<times> 16 word) option res" where
  "tcp_address bindPath =
     (if MAXPATHLEN \<le> length bindPath then Inl StackOverflow
      else Inr (case dropWhile (\<lambda>b. b \<noteq> 58) bindPath of
          [] \<Rightarrow> None
        | _ # tp \<Rightarrow>
            let port = (word_of_int (atoi tp) :: 16 word) in
            if port = 0 then None else Some (takeWhile (\<lambda>b. b \<noteq> 58) bindPath, port)))"

text \<open>\<open>OS_BuildSockAddrUn\<close>: \<open>None\<close> is the failure, otherwise the path and \<open>servAddrLen\<close>.\<close>

definition OS_BuildSockAddrUn :: "bytes \<Rightarrow> (bytes \<times> int) option" where
  "OS_BuildSockAddrUn bindPath =
     (if SUN_PATH_SIZE < length bindPath then None
      else Some (bindPath, 2 + int (length bindPath)))"

section \<open>The listening socket\<close>

definition sys_socket :: "os_unix \<Rightarrow> int \<times> os_unix" where
  "sys_socket os =
     (case sockets os of
        [] \<Rightarrow> (- 1, os\<lparr>errno := EMFILE\<rparr>)
      | Inl e # ss \<Rightarrow> (- 1, os\<lparr>errno := e, sockets := ss\<rparr>)
      | Inr fd # ss \<Rightarrow> (fd, os\<lparr>sockets := ss\<rparr>))"

definition listen_address :: "bytes \<Rightarrow> os_unix \<Rightarrow> 32 word res" where
  "listen_address host os =
     (if host = [] \<or> host = [42] then Inr INADDR_ANY
      else let ia = inet_addr os host in
        if ia \<noteq> INADDR_NONE then Inr ia
        else case gethostbyname os host of
            None \<Rightarrow> Inl (Exit 1)
          | Some hep \<Rightarrow>
              if \<not> h_inet hep \<or> h_addr_list hep = [] then Inl (Exit 1)
              else if length (h_addr_list hep) > 1 then Inl (Exit 1)
              else Inr (hd (h_addr_list hep)))"

text \<open>\<open>socket\<close>, for TCP with \<open>SO_REUSEADDR\<close>.\<close>

definition listen_socket :: "bool \<Rightarrow> os_unix \<Rightarrow> (int \<times> os_unix) res" where
  "listen_socket tcp os =
     (case sys_socket os of (sock, os) \<Rightarrow>
        if tcp \<and> 0 \<le> sock \<and> setsockoptErr os \<noteq> 0 then Inl (Exit 1001) else Inr (sock, os))"

definition bind_listen :: "int \<Rightarrow> sockname \<Rightarrow> int \<Rightarrow> os_unix \<Rightarrow> (int \<times> os_unix) res" where
  "bind_listen sock nm backlog os =
     (if bindErr os \<noteq> 0 then Inl (Exit (bindErr os))
      else let os = os\<lparr>bound := (bound os)(sock \<mapsto> nm)\<rparr> in
        if listenErr os \<noteq> 0 then Inl (Exit (listenErr os))
        else Inr (sock, os\<lparr>listening := (listening os)(sock \<mapsto> backlog)\<rparr>))"

definition OS_CreateLocalIpcFd :: "bytes \<Rightarrow> int \<Rightarrow> os_unix \<Rightarrow> (int \<times> os_unix) res" where
  "OS_CreateLocalIpcFd bindPath backlog os =
     bindR (tcp_address (cstr bindPath)) (\<lambda>tcp.
     case tcp of
       Some (host, port) \<Rightarrow>
         bindR (listen_address host os) (\<lambda>ia.
         bindR (listen_socket True os) (\<lambda>(sock, os).
         if sock < 0 then Inr (- 1, os) else bind_listen sock (Inet ia port) backlog os))
     | None \<Rightarrow>
         bindR (listen_socket False os) (\<lambda>(sock, os).
         if sock < 0 then Inr (- 1, os)
         else let os = os\<lparr>unlinked := unlinked os @ [cstr bindPath]\<rparr> in
           case OS_BuildSockAddrUn (cstr bindPath) of
             None \<Rightarrow> Inl (Exit 1000)
           | Some (p, _) \<Rightarrow> bind_listen sock (Path p) backlog os))"

section \<open>Connecting to an application\<close>

definition do_connect :: "sockname \<Rightarrow> int \<times> os_unix \<Rightarrow> (int \<times> os_unix) res" where
  "do_connect nm so =
     (case so of (sock, os) \<Rightarrow>
        bindR (ASSERT (0 \<le> sock)) (\<lambda>_.
        if connectErr os = 0 then Inr (sock, os\<lparr>connected := (connected os)(sock \<mapsto> nm)\<rparr>)
        else Inr (- 1, snd (sys_close sock (os\<lparr>errno := connectErr os\<rparr>)))))"

definition OS_FcgiConnect :: "bytes \<Rightarrow> os_unix \<Rightarrow> (int \<times> os_unix) res" where
  "OS_FcgiConnect bindPath os =
     bindR (tcp_address (cstr bindPath)) (\<lambda>tcp.
     case tcp of
       Some (host, port) \<Rightarrow>
         (case gethostbyname os (if host = [] then chars ''localhost'' else host) of
            None \<Rightarrow> Inl (Exit 1000)
          | Some hp \<Rightarrow>
              if h_addr_list hp = [] then Inl NullDeref
              else do_connect (Inet (hd (h_addr_list hp)) port) (sys_socket os))
     | None \<Rightarrow>
         (case OS_BuildSockAddrUn (cstr bindPath) of
            None \<Rightarrow> Inl (Exit 1000)
          | Some (p, _) \<Rightarrow> do_connect (Path p) (sys_socket os)))"

end
