(* ===== verification/Os_Accept.thy ===== *)
theory Os_Accept
  imports Os_Unix
begin

text \<open>
  Properties of accepting and closing connections (\<open>OS_Accept\<close>, \<open>ClientAddrOK\<close>, \<open>OS_Close\<close> of
  \<open>libfcgi/os_unix.c\<close>): which client \<open>OS_Accept\<close> returns, that it finds the first admissible one,
  what a shutdown request does to it, and what a lingering close leaves unread.
\<close>

section \<open>The list of allowed addresses\<close>

text \<open>A field of a comma separated list: a maximal part without a comma.\<close>

definition comma_field :: "bytes \<Rightarrow> bytes \<Rightarrow> bool" where
  "comma_field f l \<longleftrightarrow> (\<exists>pre post. l = pre @ f @ post \<and> 44 \<notin> set f \<and> (pre = [] \<or> last pre = 44) \<and> (post = [] \<or> hd post = 44))"

lemma comma_field_first: "44 \<notin> set f \<Longrightarrow> comma_field g f \<longleftrightarrow> g = f"
proof
  assume f: "44 \<notin> set f" and "comma_field g f"
  then obtain pre post where p: "f = pre @ g @ post" "pre = [] \<or> last pre = 44" "post = [] \<or> hd post = 44"
    by (auto simp: comma_field_def)
  then have "pre = []" using f last_in_set [of pre] by (cases "pre = []") auto
  moreover have "post = []" using f p hd_in_set [of post] by (cases "post = []") auto
  ultimately show "g = f" using p(1) by simp
next
  assume "44 \<notin> set f" "g = f"
  then show "comma_field g f" unfolding comma_field_def by (intro exI [of _ "[]"]) simp
qed

lemma comma_field_Cons:
  assumes "44 \<notin> set f"
  shows "comma_field g (f @ 44 # l) \<longleftrightarrow> g = f \<or> comma_field g l"
proof
  assume "comma_field g (f @ 44 # l)"
  then obtain pre post where p: "f @ 44 # l = pre @ g @ post" "44 \<notin> set g" "pre = [] \<or> last pre = 44" "post = [] \<or> hd post = 44"
    by (auto simp: comma_field_def)
  show "g = f \<or> comma_field g l"
  proof (cases "pre = []")
    case True
    have "takeWhile (\<lambda>b. b \<noteq> 44) (f @ 44 # l) = f" using assms by (subst takeWhile_append2) auto
    moreover have "takeWhile (\<lambda>b. b \<noteq> 44) (g @ post) = g"
      using p(2,4) by (cases post; subst takeWhile_append2) auto
    ultimately show ?thesis using p(1) True by simp
  next
    case False
    then have "44 \<in> set pre" using p(3) by (metis last_in_set)
    then obtain a b where ab: "pre = a @ 44 # b" "44 \<notin> set a" by (metis split_list_first)
    have "a = f \<and> l = b @ g @ post"
      using p(1) ab assms by (auto simp: append_eq_append_conv2 append_eq_Cons_conv Cons_eq_append_conv)
    moreover have "b = [] \<or> last b = 44" using p(3) ab(1) by (cases "b = []") auto
    ultimately show ?thesis using p(2,4) unfolding comma_field_def by blast
  qed
next
  assume "g = f \<or> comma_field g l"
  then show "comma_field g (f @ 44 # l)"
  proof
    assume "g = f"
    then show ?thesis using assms unfolding comma_field_def by (intro exI [of _ "[]"] exI [of _ "44 # l"]) simp
  next
    assume "comma_field g l"
    then obtain pre post where "l = pre @ g @ post" "44 \<notin> set g" "pre = [] \<or> last pre = 44" "post = [] \<or> hd post = 44"
      by (auto simp: comma_field_def)
    then show ?thesis unfolding comma_field_def
      by (intro exI [of _ "f @ 44 # pre"] exI [of _ post]) auto
  qed
qed

lemma ClientAddr_loop_field: "ClientAddr_loop ia addr cur \<longleftrightarrow> (\<exists>f. comma_field f cur \<and> ia f = addr)"
proof (induction ia addr cur rule: ClientAddr_loop.induct)
  case (1 ia addr cur)
  let ?f = "takeWhile (\<lambda>b. b \<noteq> 44) cur"
  have n: "44 \<notin> set ?f" by (auto dest: set_takeWhileD)
  show ?case
  proof (cases "dropWhile (\<lambda>b. b \<noteq> 44) cur")
    case Nil
    then have "cur = ?f" by (metis append_Nil2 takeWhile_dropWhile_id)
    then have "comma_field f cur \<longleftrightarrow> f = ?f" for f using comma_field_first [OF n] by simp
    then show ?thesis unfolding ClientAddr_loop.simps [of _ _ cur] Nil by simp
  next
    case (Cons b l)
    then have "b = 44" by (metis (full_types) hd_dropWhile list.discI list.sel(1))
    then have "cur = ?f @ 44 # l" using Cons by (metis takeWhile_dropWhile_id)
    then have "comma_field f cur \<longleftrightarrow> f = ?f \<or> comma_field f l" for f using comma_field_Cons [OF n] by metis
    then show ?thesis using 1 [OF _ Cons] Cons by (cases "ia ?f = addr") (auto simp: ClientAddr_loop.simps [of _ _ cur])
  qed
qed

text \<open>
  C14.  \<open>ClientAddrOK\<close> admits a client exactly when there is no list, the list is empty, or its copy
  fits into memory and the client's address is the one \<open>inet_addr\<close> gives for some comma separated
  field of the list.
\<close>

theorem client_addr_in_list:
  "ClientAddrOK lim ia addr l \<longleftrightarrow>
     (case l of
        None \<Rightarrow> True
      | Some s \<Rightarrow> cstr s = [] \<or> length (cstr s) < lim \<and> (\<exists>f. comma_field f (cstr s) \<and> ia f = addr))"
  by (auto simp: ClientAddrOK_def str_dup_def ClientAddr_loop_field split: option.splits)

section \<open>Which client is returned\<close>

text \<open>The client a listening socket may hand out: its address is allowed, or it is local and has sent something.\<close>

definition addr_ok :: "bytes option \<Rightarrow> sockaddr \<Rightarrow> os_unix \<Rightarrow> bool" where
  "addr_ok addrs sa w = (case sa of Sockaddr_in a \<Rightarrow> ClientAddrOK (heapLimit w) (inet_addr w) a addrs | _ \<Rightarrow> True)"

definition admitted :: "bytes option \<Rightarrow> sockaddr \<Rightarrow> conn \<Rightarrow> os_unix \<Rightarrow> bool" where
  "admitted addrs sa c w \<longleftrightarrow> addr_ok addrs sa w \<and> (sa = Sockaddr_un \<longrightarrow> opened c \<and> readable (rx c))"

definition steady :: "os_unix \<Rightarrow> os_unix \<Rightarrow> bool" where
  "steady w w' \<longleftrightarrow> heapLimit w' = heapLimit w \<and> inet_addr w' = inet_addr w \<and> set (accepts w') \<subseteq> set (accepts w)"

lemma steady_refl: "steady w w" by (simp add: steady_def)
lemma steady_trans: "steady a b \<Longrightarrow> steady b c \<Longrightarrow> steady a c" by (auto simp: steady_def)

lemma steady_addr: "steady w w' \<Longrightarrow> addr_ok addrs sa w' = addr_ok addrs sa w"
  by (simp add: steady_def addr_ok_def split: sockaddr.split)

lemma raise_sig_simps [simp]:
  "heapLimit (raise_sig s w) = heapLimit w" "inet_addr (raise_sig s w) = inet_addr w" "accepts (raise_sig s w) = accepts w"
  "conns (raise_sig s w) = conns w" "shutdownPending (raise_sig s w) = (s \<or> shutdownPending w)" "errno (raise_sig s w) = errno w"
  by (simp_all add: raise_sig_def)

lemma accept_retry_cases:
  assumes "accept_retry foi socket sa w = Inr ((s, sa'), w')"
  shows "steady w w' \<and> (s < 0 \<or> s = socket \<and> sa' = sa \<and> conns w' = conns w
    \<or> (\<exists>c sig. AccConn s sa' c sig \<in> set (accepts w) \<and> conns w' s = c))"
  using assms
proof (induction "length (accepts w)" arbitrary: socket sa w rule: less_induct)
  case less
  show ?case
  proof (cases "shutdownPending w")
    case True
    then show ?thesis using less.prems by (simp add: accept_retry.simps steady_refl)
  next
    case False
    then obtain e es where a: "accepts w = e # es" using less.prems
      by (cases "accepts w") (auto simp: accept_retry.simps [of _ _ _ w] sys_accept_def)
    then obtain s1 sao w1 where ac: "sys_accept w = Inr ((s1, sao), w1)" "steady w w1" "length (accepts w1) < length (accepts w)"
      "(\<exists>ad c sig. sao = Some ad \<and> e = AccConn s1 ad c sig \<and> conns w1 s1 = c) \<or> s1 < 0"
      by (cases e) (auto simp: sys_accept_def steady_def)
    let ?sa = "case sao of Some ad \<Rightarrow> ad | None \<Rightarrow> sa"
    show ?thesis
    proof (cases "s1 < 0 \<and> errno w1 = EINTR \<and> \<not> foi \<and> \<not> shutdownPending w1")
      case True
      then have "accept_retry foi s1 ?sa w1 = Inr ((s, sa'), w')"
        using less.prems False ac(1) by (simp add: accept_retry.simps [of _ _ _ w])
      from less.hyps [OF ac(3) this] True ac(2) show ?thesis
        by (auto simp: steady_def)
    next
      case nr: False
      then have "s = s1" "sa' = ?sa" "w' = w1"
        using less.prems False ac(1) by (auto simp: accept_retry.simps [of _ _ _ w] Let_def split: if_splits)
      then show ?thesis using a ac(2,4) by auto
    qed
  qed
qed

text \<open>
  Between two rounds the variable \<open>socket\<close> may still hold a client that was turned away; it will
  be turned away again.
\<close>

definition turned_away :: "bytes option \<Rightarrow> int \<Rightarrow> sockaddr \<Rightarrow> os_unix \<Rightarrow> bool" where
  "turned_away addrs socket sa w \<longleftrightarrow>
     socket < 0 \<or> \<not> addr_ok addrs sa w \<or> sa = Sockaddr_un \<and> \<not> opened (conns w socket)"

lemma lock_frame:
  "AcquireLock ls foi w = (rc, w') \<Longrightarrow> steady w w' \<and> conns w' = conns w"
  "ReleaseLock ls w = (rc, w') \<Longrightarrow> steady w w' \<and> conns w' = conns w \<and> (rc = 0 \<longrightarrow> \<not> lockHeld w')"
  by (auto simp: AcquireLock_def ReleaseLock_def steady_def split: prod.splits option.splits list.splits if_splits)

lemma OS_Accept_loop_False:
  "OS_Accept_loop (Suc k) False ls foi addrs socket sa os =
     bindR (accept_retry foi socket sa os) (\<lambda>((socket, sa), os).
       if socket < 0 then
         if shutdownPending os \<or> \<not> is_reasonable_accept_errno (errno os) then
           (let os' = snd (ReleaseLock ls os) in
            Inr (- 1, if shutdownPending os' then os' else os'\<lparr>errno := errno os\<rparr>))
         else OS_Accept_loop k False ls foi addrs socket sa (os\<lparr>errno := 0\<rparr>)
       else
         if addr_ok addrs sa os then
           (case ReleaseLock ls os of (rc, os) \<Rightarrow>
              if rc \<noteq> 0 then Inr (- 1, os)
              else if sa \<noteq> Sockaddr_un \<or> is_af_unix_keeper socket os then Inr (socket, os)
              else OS_Accept_loop k True ls foi addrs socket sa (snd (sys_close socket os)))
         else OS_Accept_loop k False ls foi addrs socket sa (snd (sys_close socket os)))"
  by (simp add: addr_ok_def cong: if_cong)

lemma sys_close_frame: "steady w (snd (sys_close fd w))" "\<not> opened (conns (snd (sys_close fd w)) fd)"
  by (simp_all add: sys_close_def steady_def)

lemma OS_Accept_loop_sound:
  assumes "OS_Accept_loop k atLock ls foi addrs socket sa w = Inr (fd, w')" "0 \<le> fd" "turned_away addrs socket sa w"
  shows "\<exists>sa' c sig. AccConn fd sa' c sig \<in> set (accepts w) \<and> conns w' fd = c \<and> admitted addrs sa' c w' \<and> \<not> lockHeld w'"
  using assms
proof (induction k arbitrary: atLock socket sa w)
  case (Suc k)
  show ?case
  proof (cases atLock)
    case True
    then obtain w1 where w1: "AcquireLock ls foi w = (0, w1)" "OS_Accept_loop k False ls foi addrs socket sa w1 = Inr (fd, w')"
      using Suc.prems(1,2) by (auto split: prod.splits if_splits)
    then have f: "steady w w1" "conns w1 = conns w" using lock_frame(1) by blast+
    then have "turned_away addrs socket sa w1" using Suc.prems(3) steady_addr by (simp add: turned_away_def)
    from Suc.IH [OF w1(2) Suc.prems(2) this] f(1) show ?thesis by (auto simp: steady_def)
  next
    case False
    then obtain s1 sa1 w1 where r: "accept_retry foi socket sa w = Inr ((s1, sa1), w1)"
      using Suc.prems(1) by (auto simp: OS_Accept_loop_False bindR_eq_Inr)
    have al: "atLock = False" using False by simp
    note run = Suc.prems(1) [unfolded al OS_Accept_loop_False r bindR_Inr prod.case]
    have st: "steady w w1" using accept_retry_cases [OF r] by blast
    have again: ?thesis if "OS_Accept_loop k b ls foi addrs s1 sa1 w2 = Inr (fd, w')" "turned_away addrs s1 sa1 w2" "steady w1 w2" for b w2
      using Suc.IH [OF that(1) Suc.prems(2) that(2)] steady_trans [OF st that(3)] by (auto simp: steady_def)
    consider (none) "s1 < 0" | (wrong) "0 \<le> s1" "\<not> addr_ok addrs sa1 w1" | (right) "0 \<le> s1" "addr_ok addrs sa1 w1" by linarith
    then show ?thesis
    proof cases
      case none
      then show ?thesis using run Suc.prems(2) again [of False "w1\<lparr>errno := 0\<rparr>"]
        by (auto simp: turned_away_def steady_def Let_def split: if_splits)
    next
      case wrong
      have "turned_away addrs s1 sa1 (snd (sys_close s1 w1))"
        using wrong(2) steady_addr [OF sys_close_frame(1)] by (simp add: turned_away_def)
      then show ?thesis using run wrong again [of False "snd (sys_close s1 w1)"] sys_close_frame(1) by simp
    next
      case right
      obtain rc w2 where rel: "ReleaseLock ls w1 = (rc, w2)" by (cases "ReleaseLock ls w1")
      have f: "steady w1 w2" "conns w2 = conns w1" "rc = 0 \<Longrightarrow> \<not> lockHeld w2" using lock_frame(2) [OF rel] by blast+
      have rc: "rc = 0" using run right rel Suc.prems(2) by (auto split: if_splits)
      show ?thesis
      proof (cases "sa1 \<noteq> Sockaddr_un \<or> is_af_unix_keeper s1 w2")
        case True
        then have "fd = s1" "w' = w2" using run right rel rc by auto
        have "addr_ok addrs sa1 w2" using right(2) steady_addr [OF f(1)] by simp
        then have adm: "admitted addrs sa1 (conns w2 s1) w2" using True by (auto simp: admitted_def is_af_unix_keeper_def)
        have "\<not> (s1 = socket \<and> sa1 = sa \<and> conns w1 = conns w)"
          using Suc.prems(3) right True f(2) steady_addr [OF st] by (auto simp: turned_away_def is_af_unix_keeper_def)
        then have "\<exists>sig. AccConn s1 sa1 (conns w1 s1) sig \<in> set (accepts w)" using accept_retry_cases [OF r] right(1) by auto
        with adm f(2,3) rc \<open>fd = s1\<close> \<open>w' = w2\<close> show ?thesis by auto
      next
        case False
        then have "turned_away addrs s1 sa1 (snd (sys_close s1 w2))" using sys_close_frame(2) by (simp add: turned_away_def)
        then show ?thesis
          using run right rel rc False again [of True "snd (sys_close s1 w2)"] steady_trans [OF f(1) sys_close_frame(1)] by simp
      qed
    qed
  qed
qed simp

text \<open>
  C12.  Whatever the kernel answers and whenever a shutdown is requested: a descriptor that
  \<open>OS_Accept\<close> returns is a connection handed over by \<open>accept\<close> during the call, its client is
  admitted (an Internet client by the address list, a local one because it has sent something in
  time), and the lock on the listening socket is not held any more.
\<close>

theorem accept_sound:
  assumes "OS_Accept k ls foi addrs w = Inr (fd, w')" "0 \<le> fd"
  shows "\<exists>sa c sig. AccConn fd sa c sig \<in> set (accepts w) \<and> conns w' fd = c \<and> admitted addrs sa c w' \<and> \<not> lockHeld w'"
  using OS_Accept_loop_sound [OF assms(1) [unfolded OS_Accept_def] assms(2)] by (simp add: turned_away_def)

section \<open>The first admitted client\<close>

text \<open>What \<open>OS_Accept\<close> passes over: a client it may not admit, an error it takes as the client's.\<close>

definition passed :: "bytes option \<Rightarrow> os_unix \<Rightarrow> acc_event \<Rightarrow> bool" where
  "passed addrs w e =
     (case e of
        AccConn fd sa c sig \<Rightarrow> \<not> sig \<and> 0 \<le> fd \<and> \<not> admitted addrs sa c w
      | AccFail er sig \<Rightarrow> \<not> sig \<and> is_reasonable_accept_errno er)"

definition rejected_fds :: "acc_event list \<Rightarrow> int set" where
  "rejected_fds es = {fd. \<exists>sa c sig. AccConn fd sa c sig \<in> set es}"

definition quiet :: "os_unix \<Rightarrow> bool" where
  "quiet w \<longleftrightarrow> \<not> shutdownPending w \<and> locks w = [] \<and> unlocks w = []"

lemma quiet_lock:
  "quiet w \<Longrightarrow> AcquireLock ls foi w = (0, w\<lparr>lockHeld := True\<rparr>)"
  "quiet w \<Longrightarrow> ReleaseLock ls w = (0, w\<lparr>lockHeld := False\<rparr>)"
  by (simp_all add: quiet_def AcquireLock_def ReleaseLock_def)

lemma accept_next:
  assumes "quiet w" "accepts w = AccConn fd sa c False # es" "0 \<le> fd"
  shows "accept_retry foi socket sa0 w = Inr ((fd, sa), w\<lparr>accepts := es, conns := (conns w)(fd := c)\<rparr>)"
  using assms by (simp add: accept_retry.simps [of _ _ _ w] sys_accept_def raise_sig_def quiet_def)

lemma reject_step:
  assumes "quiet w" "accepts w = e # es" "passed addrs w e"
  shows "\<exists>w' j s' sa'. k \<le> j \<and> OS_Accept_loop (Suc (Suc k)) False ls foi addrs socket sa0 w =
        OS_Accept_loop j False ls foi addrs s' sa' w'
    \<and> quiet w' \<and> accepts w' = es \<and> heapLimit w' = heapLimit w \<and> inet_addr w' = inet_addr w
    \<and> (\<forall>f \<in> rejected_fds [e]. \<not> opened (conns w' f)) \<and> (\<forall>f. f \<notin> rejected_fds [e] \<longrightarrow> conns w' f = conns w f)"
proof (cases e)
  case (AccFail er sig)
  then have er: "\<not> sig" "is_reasonable_accept_errno er" using assms(3) by (simp_all add: passed_def)
  then have "accept_retry foi socket sa0 w = Inr ((- 1, sa0), w\<lparr>accepts := es, errno := er\<rparr>)"
    using assms AccFail
    by (auto simp: accept_retry.simps [of _ _ _ w] sys_accept_def raise_sig_def quiet_def is_reasonable_accept_errno_def)
  then show ?thesis using er assms(1) AccFail
    by (intro exI [of _ "w\<lparr>accepts := es, errno := 0\<rparr>"] exI [of _ "Suc k"] exI [of _ "- 1"] exI [of _ sa0])
      (simp add: OS_Accept_loop_False quiet_def rejected_fds_def del: OS_Accept_loop.simps)
next
  case (AccConn f sa c sig)
  then have f: "\<not> sig" "0 \<le> f" "\<not> admitted addrs sa c w" using assms(3) by (simp_all add: passed_def)
  let ?w = "w\<lparr>accepts := es, conns := (conns w)(f := c)\<rparr>"
  have r: "accept_retry foi socket sa0 w = Inr ((f, sa), ?w)" using accept_next [OF assms(1) _ f(2)] assms(2) AccConn f(1) by simp
  have a: "addr_ok addrs sa ?w = addr_ok addrs sa w" by (simp add: addr_ok_def split: sockaddr.split)
  have rej: "rejected_fds [e] = {f}" using AccConn by (simp add: rejected_fds_def)
  have q: "quiet ?w" using assms(1) by (simp add: quiet_def)
  show ?thesis
  proof (cases "addr_ok addrs sa w")
    case False
    then have "OS_Accept_loop (Suc (Suc k)) False ls foi addrs socket sa0 w =
        OS_Accept_loop (Suc k) False ls foi addrs f sa (snd (sys_close f ?w))"
      using r f(2) a by (simp add: OS_Accept_loop_False del: OS_Accept_loop.simps)
    then show ?thesis using rej q
      by (intro exI [of _ "snd (sys_close f ?w)"] exI [of _ "Suc k"] exI [of _ f] exI [of _ sa])
        (auto simp: sys_close_def quiet_def)
  next
    case True
    then have un: "sa = Sockaddr_un" "\<not> (opened c \<and> readable (rx c))" using f(3) by (auto simp: admitted_def)
    let ?w1 = "(snd (sys_close f (?w\<lparr>lockHeld := False\<rparr>)))"
    have q1: "quiet ?w1" using q by (simp add: sys_close_def quiet_def)
    have "\<not> is_af_unix_keeper f (?w\<lparr>lockHeld := False\<rparr>)" using un(2) by (auto simp: is_af_unix_keeper_def)
    then have "OS_Accept_loop (Suc (Suc k)) False ls foi addrs socket sa0 w = OS_Accept_loop (Suc k) True ls foi addrs f sa ?w1"
      using r f(2) a True un(1) quiet_lock(2) [OF q] by (simp add: OS_Accept_loop_False del: OS_Accept_loop.simps)
    also have "\<dots> = OS_Accept_loop k False ls foi addrs f sa (?w1\<lparr>lockHeld := True\<rparr>)"
      using quiet_lock(1) [OF q1] by simp
    finally show ?thesis using rej q
      by (intro exI [of _ "?w1\<lparr>lockHeld := True\<rparr>"] exI [of _ k] exI [of _ f] exI [of _ sa])
        (auto simp: sys_close_def quiet_def)
  qed
qed

lemma admitted_cong: "heapLimit w' = heapLimit w \<Longrightarrow> inet_addr w' = inet_addr w \<Longrightarrow> admitted addrs sa c w' = admitted addrs sa c w"
  by (simp add: admitted_def addr_ok_def split: sockaddr.split)

lemma passed_cong: "heapLimit w' = heapLimit w \<Longrightarrow> inet_addr w' = inet_addr w \<Longrightarrow> passed addrs w' e = passed addrs w e"
  by (simp add: passed_def admitted_cong [of w' w] split: acc_event.split)

lemma rejected_Cons: "rejected_fds (e # es) = rejected_fds [e] \<union> rejected_fds es"
  by (auto simp: rejected_fds_def)

lemma OS_Accept_loop_finds:
  assumes "quiet w" "accepts w = es @ AccConn fd sa c False # rest" "\<forall>e \<in> set es. passed addrs w e" "0 \<le> fd"
    "admitted addrs sa c w" "2 * length es + 1 \<le> k"
  shows "\<exists>w'. OS_Accept_loop k False ls foi addrs socket sa0 w = Inr (fd, w') \<and> accepts w' = rest \<and> \<not> lockHeld w'
    \<and> conns w' fd = c \<and> (\<forall>f \<in> rejected_fds es. f \<noteq> fd \<longrightarrow> \<not> opened (conns w' f))
    \<and> (\<forall>f. f \<noteq> fd \<longrightarrow> f \<notin> rejected_fds es \<longrightarrow> conns w' f = conns w f)"
  using assms
proof (induction es arbitrary: w k socket sa0)
  case Nil
  then obtain j where k: "k = Suc j" by (cases k) auto
  let ?w = "w\<lparr>accepts := rest, conns := (conns w)(fd := c)\<rparr>"
  have r: "accept_retry foi socket sa0 w = Inr ((fd, sa), ?w)" using accept_next [OF Nil.prems(1)] Nil.prems(2,4) by simp
  have adm: "admitted addrs sa c ?w" using Nil.prems(5) by (subst admitted_cong [where w = w]) simp_all
  have "quiet ?w" using Nil.prems(1) by (simp add: quiet_def)
  from quiet_lock(2) [OF this] r adm Nil.prems(4) show ?case
    by (auto simp: k OS_Accept_loop_False admitted_def is_af_unix_keeper_def rejected_fds_def simp del: OS_Accept_loop.simps)
next
  case (Cons e es)
  define i where "i = k - 2"
  have k: "k = Suc (Suc i)" "2 * length es + 1 \<le> i" using Cons.prems(6) by (simp_all add: i_def)
  have "accepts w = e # es @ AccConn fd sa c False # rest" "passed addrs w e" using Cons.prems(2,3) by simp_all
  from reject_step [OF Cons.prems(1) this, of i ls foi socket sa0] obtain w1 j s1 sa1 where
    w1: "i \<le> j" "OS_Accept_loop k False ls foi addrs socket sa0 w = OS_Accept_loop j False ls foi addrs s1 sa1 w1"
      "quiet w1" "accepts w1 = es @ AccConn fd sa c False # rest" "heapLimit w1 = heapLimit w" "inet_addr w1 = inet_addr w"
      "\<forall>f \<in> rejected_fds [e]. \<not> opened (conns w1 f)" "\<forall>f. f \<notin> rejected_fds [e] \<longrightarrow> conns w1 f = conns w f"
    unfolding k(1) by blast
  have "\<forall>e \<in> set es. passed addrs w1 e" "admitted addrs sa c w1" "2 * length es + 1 \<le> j"
    using Cons.prems(3,5) passed_cong [OF w1(5,6)] admitted_cong [OF w1(5,6)] k(2) w1(1) by simp_all
  from Cons.IH [OF w1(3,4) this(1) Cons.prems(4) this(2,3), of s1 sa1] obtain w' where
    "OS_Accept_loop j False ls foi addrs s1 sa1 w1 = Inr (fd, w')" "accepts w' = rest" "\<not> lockHeld w'" "conns w' fd = c"
    and c: "\<forall>f \<in> rejected_fds es. f \<noteq> fd \<longrightarrow> \<not> opened (conns w' f)"
      "\<forall>f. f \<noteq> fd \<longrightarrow> f \<notin> rejected_fds es \<longrightarrow> conns w' f = conns w1 f"
    by blast
  moreover have "\<not> opened (conns w' f)" if "f \<in> rejected_fds (e # es)" "f \<noteq> fd" for f
  proof (cases "f \<in> rejected_fds es")
    case False
    then have "f \<in> rejected_fds [e]" using that(1) rejected_Cons [of e es] by simp
    with w1(7) c(2) False that(2) show ?thesis by simp
  qed (use c(1) that(2) in simp)
  moreover have "conns w' f = conns w f" if "f \<notin> rejected_fds (e # es)" "f \<noteq> fd" for f
    using that w1(8) c(2) rejected_Cons [of e es] by simp
  ultimately show ?case using w1(2) by simp
qed

text \<open>
  C13.  With no shutdown request and the lock available, \<open>OS_Accept\<close> passes over clients that may
  not be admitted and over errors of the client's side, and returns the first admitted client; every
  client turned away has been closed, no other connection is touched, later clients stay queued and
  the lock is released.  Two rounds for each client passed over, and two more, are enough.
\<close>

theorem accept_finds_first:
  assumes "quiet w" "accepts w = es @ AccConn fd sa c False # rest" "\<forall>e \<in> set es. passed addrs w e" "0 \<le> fd"
    "admitted addrs sa c w" "2 * length es + 2 \<le> k"
  shows "\<exists>w'. OS_Accept k ls foi addrs w = Inr (fd, w') \<and> accepts w' = rest \<and> \<not> lockHeld w'
    \<and> conns w' fd = c \<and> (\<forall>f \<in> rejected_fds es. f \<noteq> fd \<longrightarrow> \<not> opened (conns w' f))
    \<and> (\<forall>f. f \<noteq> fd \<longrightarrow> f \<notin> rejected_fds es \<longrightarrow> conns w' f = conns w f)"
proof -
  obtain j where k: "k = Suc j" using assms(6) by (cases k) auto
  let ?w = "w\<lparr>lockHeld := True\<rparr>"
  have "quiet ?w" "\<forall>e \<in> set es. passed addrs ?w e" "admitted addrs sa c ?w"
    using assms(1,3,5) passed_cong [of ?w w] admitted_cong [of ?w w] by (simp_all add: quiet_def)
  from OS_Accept_loop_finds [OF this(1) _ this(2) assms(4) this(3), of rest j ls foi "- 1" Sockaddr_un] assms(2,6)
  show ?thesis using quiet_lock(1) [OF assms(1)] by (simp add: OS_Accept_def k)
qed

text \<open>An Internet client that is not on the list, then a local one that has already sent a byte.\<close>

definition demo_clients :: os_unix where
  "demo_clients = idle_os\<lparr>accepts := [AccConn 4 (Sockaddr_in 9) idle_conn False, AccFail 103 False,
     AccConn 5 Sockaddr_un (idle_conn\<lparr>rx := [RData [1]]\<rparr>) False]\<rparr>"

lemma demo_clients_addr: "\<not> ClientAddrOK 16777216 (\<lambda>_. - 1) 9 (Some [49])"
  by (simp add: client_addr_in_list cstr_def)

theorem accept_finds_first_witness:
  "\<exists>w'. OS_Accept 6 0 False (Some [49]) demo_clients = Inr (5, w') \<and> accepts w' = [] \<and> \<not> opened (conns w' 4)"
proof -
  let ?es = "[AccConn 4 (Sockaddr_in 9) idle_conn False, AccFail 103 False]"
  have "quiet demo_clients" by (simp add: quiet_def demo_clients_def)
  moreover have "accepts demo_clients = ?es @ AccConn 5 Sockaddr_un (idle_conn\<lparr>rx := [RData [1]]\<rparr>) False # []"
    by (simp add: demo_clients_def)
  moreover have "\<forall>e \<in> set ?es. passed (Some [49]) demo_clients e"
    using demo_clients_addr
    by (simp add: passed_def admitted_def addr_ok_def demo_clients_def is_reasonable_accept_errno_def)
  moreover have "admitted (Some [49]) Sockaddr_un (idle_conn\<lparr>rx := [RData [1]]\<rparr>) demo_clients"
    by (simp add: admitted_def addr_ok_def readable_def)
  ultimately have "\<exists>w'. OS_Accept 6 0 False (Some [49]) demo_clients = Inr (5, w') \<and> accepts w' = [] \<and> \<not> lockHeld w'
    \<and> conns w' 5 = idle_conn\<lparr>rx := [RData [1]]\<rparr> \<and> (\<forall>f \<in> rejected_fds ?es. f \<noteq> 5 \<longrightarrow> \<not> opened (conns w' f))
    \<and> (\<forall>f. f \<noteq> 5 \<longrightarrow> f \<notin> rejected_fds ?es \<longrightarrow> conns w' f = conns demo_clients f)"
    by (intro accept_finds_first) simp_all
  moreover have "4 \<in> rejected_fds ?es" by (auto simp: rejected_fds_def)
  ultimately show ?thesis by (metis num.distinct(1) numeral_eq_iff semiring_norm(85,88,89))
qed

definition demo_accept :: "int \<times> os_unix" where
  "demo_accept = projr (OS_Accept 2 0 False None (idle_os\<lparr>accepts := [AccConn 5 Sockaddr_other idle_conn False]\<rparr>))"

theorem accept_sound_witness:
  "\<exists>sa c sig. AccConn 5 sa c sig \<in> set [AccConn 5 Sockaddr_other idle_conn False] \<and> conns (snd demo_accept) 5 = c
    \<and> admitted None sa c (snd demo_accept) \<and> \<not> lockHeld (snd demo_accept)"
proof -
  let ?w = "idle_os\<lparr>accepts := [AccConn 5 Sockaddr_other idle_conn False]\<rparr>"
  have "OS_Accept 2 0 False None ?w = Inr (5, snd demo_accept)"
    by (simp add: demo_accept_def OS_Accept_def numeral_2_eq_2 AcquireLock_def ReleaseLock_def accept_retry.simps sys_accept_def
        raise_sig_def)
  from accept_sound [OF this] show ?thesis by simp
qed

section \<open>Shutdown\<close>

text \<open>
  C15.  Once a shutdown has been requested, \<open>OS_Accept\<close> accepts nobody: it returns -1 in two
  rounds, whatever the lock answers, and leaves the queue of clients and all connections alone.
\<close>

theorem accept_shutdown:
  assumes "shutdownPending w" "2 \<le> k"
  shows "\<exists>w'. OS_Accept k ls foi addrs w = Inr (- 1, w') \<and> accepts w' = accepts w \<and> conns w' = conns w"
proof -
  obtain j where k: "k = Suc (Suc j)" using assms(2) by (metis add_2_eq_Suc le_Suc_ex)
  obtain rc w1 where l: "AcquireLock ls foi w = (rc, w1)" by (cases "AcquireLock ls foi w")
  have pend: "snd (fst (acquire_loop foi True es))" for es by (cases es; cases "hd es") auto
  have w1: "shutdownPending w1" "accepts w1 = accepts w" "conns w1 = conns w"
    using l assms(1) pend [of "locks w"] by (auto simp: AcquireLock_def split: prod.splits option.splits)
  have rel: "accepts (snd (ReleaseLock ls w1)) = accepts w1" "conns (snd (ReleaseLock ls w1)) = conns w1"
    by (simp_all add: ReleaseLock_def split: list.splits)
  have "accept_retry foi (- 1) Sockaddr_un w1 = Inr ((- 1, Sockaddr_un), w1)" using w1(1) by (simp add: accept_retry.simps)
  then show ?thesis using l w1 rel by (auto simp: OS_Accept_def k Let_def)
qed

theorem accept_shutdown_witness:
  "\<exists>w'. OS_Accept 2 0 False None (demo_clients\<lparr>shutdownPending := True\<rparr>) = Inr (- 1, w') \<and> accepts w' = accepts demo_clients"
  using accept_shutdown [of "demo_clients\<lparr>shutdownPending := True\<rparr>" 2 0 False None] by auto

lemma OS_Accept_loop_stuck:
  "shutdownPending w \<Longrightarrow> 0 \<le> socket \<Longrightarrow> \<not> addr_ok addrs sa w \<Longrightarrow> OS_Accept_loop k False ls foi addrs socket sa w = Inl OutOfFuel"
proof (induction k arbitrary: w)
  case (Suc k)
  have "accept_retry foi socket sa w = Inr ((socket, sa), w)" using Suc.prems(1) by (simp add: accept_retry.simps)
  moreover have "shutdownPending (snd (sys_close socket w))" using Suc.prems(1) by (simp add: sys_close_def)
  moreover have "\<not> addr_ok addrs sa (snd (sys_close socket w))" using Suc.prems(3) steady_addr [OF sys_close_frame(1)] by simp
  ultimately show ?case using Suc.IH [of "snd (sys_close socket w)"] Suc.prems by (simp only: OS_Accept_loop_False) simp
qed simp

text \<open>
  C16.  When the shutdown request arrives while a client that is not on the address list is being
  accepted, \<open>OS_Accept\<close> never returns: no number of rounds is enough.  The inner loop leaves
  \<open>accept\<close> alone from then on and turns the same client away again and again.
\<close>

theorem accept_shutdown_hangs:
  assumes "\<not> shutdownPending w" "locks w = []" "accepts w = AccConn fd (Sockaddr_in a) c True # es" "0 \<le> fd"
    "\<not> ClientAddrOK (heapLimit w) (inet_addr w) a addrs"
  shows "OS_Accept k ls foi addrs w = Inl OutOfFuel"
proof (cases k)
  case (Suc j)
  let ?w = "w\<lparr>lockHeld := True, shutdownPending := True, accepts := es, conns := (conns w)(fd := c)\<rparr>"
  have l: "AcquireLock ls foi w = (0, w\<lparr>lockHeld := True\<rparr>)" using assms(1,2) by (simp add: AcquireLock_def)
  have r: "accept_retry foi (- 1) Sockaddr_un (w\<lparr>lockHeld := True\<rparr>) = Inr ((fd, Sockaddr_in a), ?w)"
    using assms(1,3,4) by (simp add: accept_retry.simps sys_accept_def raise_sig_def)
  have n: "\<not> addr_ok addrs (Sockaddr_in a) ?w" using assms(5) by (simp add: addr_ok_def)
  have n': "\<not> addr_ok addrs (Sockaddr_in a) (snd (sys_close fd ?w))" using n steady_addr [OF sys_close_frame(1)] by simp
  have "OS_Accept_loop j False ls foi addrs (- 1) Sockaddr_un (w\<lparr>lockHeld := True\<rparr>) = Inl OutOfFuel"
  proof (cases j)
    case (Suc i)
    have "OS_Accept_loop i False ls foi addrs fd (Sockaddr_in a) (snd (sys_close fd ?w)) = Inl OutOfFuel"
      by (rule OS_Accept_loop_stuck [OF _ assms(4) n']) (simp add: sys_close_def)
    then show ?thesis unfolding Suc OS_Accept_loop_False r using assms(4) n by simp
  qed simp
  then show ?thesis using Suc l by (simp add: OS_Accept_def)
qed (simp add: OS_Accept_def)

theorem accept_shutdown_hangs_witness:
  "OS_Accept 1000 0 False (Some [49]) (idle_os\<lparr>accepts := [AccConn 4 (Sockaddr_in 9) idle_conn True]\<rparr>) = Inl OutOfFuel"
  by (rule accept_shutdown_hangs [of _ 4 9 idle_conn "[]"]) (use demo_clients_addr in simp_all)

section \<open>Lingering close\<close>

lemma rx_drain_data:
  assumes "[] \<notin> set ds" "\<not> readable rest \<or> rest = []"
  shows "\<exists>trash. rx_drain err (map RData ds @ rest) = (trash, err, rest) \<and> concat trash = concat ds
    \<and> (\<forall>t \<in> set trash. t \<noteq> [] \<and> length t \<le> 1024)"
  using assms(1)
proof (induction "rx_weight (map RData ds)" arbitrary: ds rule: less_induct)
  case less
  show ?case
  proof (cases ds)
    case Nil
    then show ?thesis using assms(2) by (auto simp: rx_drain.simps readable_def)
  next
    case (Cons d ds')
    then have d: "d \<noteq> []" "[] \<notin> set ds'" using less.prems by auto
    let ?r = "if length d \<le> 1024 then ds' else drop 1024 d # ds'"
    have "[] \<notin> set ?r" using d by auto
    moreover have "rx_weight (map RData ?r) < rx_weight (map RData ds)" using Cons d by auto
    ultimately obtain trash where t: "rx_drain err (map RData ?r @ rest) = (trash, err, rest)" "concat trash = concat ?r"
      "\<forall>t \<in> set trash. t \<noteq> [] \<and> length t \<le> 1024" using less.hyps by blast
    have "rx_drain err (map RData ds @ rest) = (take 1024 d # trash, err, rest)"
      using Cons d t(1) by (auto simp: rx_drain.simps [of err "RData d # _"] readable_def)
    moreover have "concat (take 1024 d # trash) = concat ds" using Cons t(2) by (auto simp flip: append_assoc)
    ultimately show ?thesis using t(3) d(1) by (intro exI [of _ "take 1024 d # trash"]) auto
  qed
qed

text \<open>
  C17.  Closing a connection on which the peer has still data in flight: the sending side is shut
  down first, then all data the peer sends until it ends or falls silent is read and thrown away in pieces of
  at most 1024 bytes, and only then the descriptor is closed, so that the peer gets no reset; what
  was sent stays sent, and no other connection is touched.
\<close>

theorem close_lingers:
  assumes "\<not> asyncIoInUse w" "0 \<le> fd" "opened (conns w fd)" "shutErr (conns w fd) = 0"
    "rx (conns w fd) = map RData ds @ rest" "[] \<notin> set ds" "rest = [] \<or> hd rest = RStall"
  shows "\<exists>trash. OS_Close fd w = Inr (0, w\<lparr>conns := (conns w)(fd := (conns w fd)\<lparr>rx := rest, opened := False,
        ending := ending (conns w fd) @ [Shut 1] @ map Discard trash @ [Closed]\<rparr>)\<rparr>)
    \<and> concat trash = concat ds \<and> (\<forall>t \<in> set trash. t \<noteq> [] \<and> length t \<le> 1024)"
proof -
  have "\<not> readable rest \<or> rest = []" using assms(7) by (cases rest) (auto simp: readable_def)
  with assms(5,6) obtain trash where t: "rx_drain (errno w) (rx (conns w fd)) = (trash, errno w, rest)" "concat trash = concat ds"
    "\<forall>t \<in> set trash. t \<noteq> [] \<and> length t \<le> 1024" using rx_drain_data by metis
  let ?c = "conns w fd"
  let ?w1 = "w\<lparr>conns := (conns w)(fd := ?c\<lparr>ending := ending ?c @ [Shut 1]\<rparr>)\<rparr>"
  let ?w2 = "w\<lparr>conns := (conns w)(fd := ?c\<lparr>rx := rest, ending := ending ?c @ [Shut 1] @ map Discard trash\<rparr>)\<rparr>"
  have "sys_shutdown fd 1 w = (0, ?w1)" using assms(4) by (simp add: sys_shutdown_def)
  moreover have "drain_conn fd ?w1 = ?w2" using t(1) by (simp add: drain_conn_def)
  moreover have "sys_close fd ?w2 = (0, w\<lparr>conns := (conns w)(fd := ?c\<lparr>rx := rest, opened := False,
      ending := ending ?c @ [Shut 1] @ map Discard trash @ [Closed]\<rparr>)\<rparr>)" using assms(3) by (simp add: sys_close_def)
  moreover have "fd \<noteq> - 1" using assms(2) by simp
  ultimately have "OS_Close fd w = Inr (0, w\<lparr>conns := (conns w)(fd := ?c\<lparr>rx := rest, opened := False,
      ending := ending ?c @ [Shut 1] @ map Discard trash @ [Closed]\<rparr>)\<rparr>)"
    using assms(1) by (simp only: OS_Close_def bindR_Inr prod.case if_False if_True refl simp_thms)
  with t(2,3) show ?thesis by blast
qed

theorem close_lingers_witness:
  "\<exists>trash w'. OS_Close 5 (idle_os\<lparr>conns := (\<lambda>_. idle_conn\<lparr>rx := [RData [1, 2], RData [3], RStall]\<rparr>)\<rparr>) = Inr (0, w')
     \<and> ending (conns w' 5) = Shut 1 # map Discard trash @ [Closed] \<and> concat trash = [1, 2, 3] \<and> rx (conns w' 5) = [RStall]"
  using close_lingers [of "idle_os\<lparr>conns := (\<lambda>_. idle_conn\<lparr>rx := [RData [1, 2], RData [3], RStall]\<rparr>)\<rparr>" 5
      "[[1, 2], [3]]" "[RStall]"]
  by auto

end
