(* ===== verification/Fcgi_Request.thy ===== *)
theory Fcgi_Request
  imports Fcgi_Reader Os_Listen Os_Accept
begin

text \<open>
  Requests (\<open>libfcgi/fcgiapp.c\<close>, sections Stream operations and Control): creating and freeing
  streams, accepting and finishing a request, and the global state of the library.

  A request owns up to three streams and its parameters.  A stream operation works on the stream
  together with the data of its request (the C pointer \<open>data->reqDataPtr\<close>) and the operating
  system; \<open>attach\<close> puts the three together and the result is taken apart again.
\<close>

unbundle bit_operations_syntax

section \<open>State\<close>

record FCGX_Request =
  rdata :: ReqData
  in_stream :: "FCGX_Stream_Data option"
  out_stream :: "FCGX_Stream_Data option"
  err_stream :: "FCGX_Stream_Data option"
  envp :: "cell list option"
  paramsPtr :: "Params option"

record fcgx_lib =
  libInitialized :: bool
  isFastCGI :: int
  webServerAddressList :: "bytes option"
  the_request :: FCGX_Request
  getenv :: "bytes \<Rightarrow> bytes option"

abbreviation (input) FCGI_FAIL_ACCEPT_ON_INTR :: int where "FCGI_FAIL_ACCEPT_ON_INTR \<equiv> 1"

definition attach :: "FCGX_Stream_Data \<Rightarrow> ReqData \<Rightarrow> os_unix \<Rightarrow> stream_io" where
  "attach d r w = FCGX_Stream_Data.extend d (stream_io.fields r w)"

definition detach :: "stream_io \<Rightarrow> FCGX_Stream_Data" where
  "detach s = FCGX_Stream_Data.truncate s"

section \<open>Streams\<close>

definition sizeof_FCGX_Stream :: nat where "sizeof_FCGX_Stream = 72"
definition sizeof_FCGX_Stream_Data :: nat where "sizeof_FCGX_Stream_Data = 72"
definition sizeof_FCGX_Request :: nat where "sizeof_FCGX_Request = 88"

text \<open>
  \<open>NewStream\<close>.  The buffer is seen as the \<open>bufflen\<close> bytes at \<open>data->buff\<close>; when \<open>malloc\<close>'s
  address is not a multiple of 8, eight bytes are given up.
\<close>

definition NewStream :: "int \<Rightarrow> bool \<Rightarrow> int \<Rightarrow> os_unix \<Rightarrow> (FCGX_Stream_Data \<times> os_unix) res" where
  "NewStream len reader streamType w =
     bindR (Malloc sizeof_FCGX_Stream w) (\<lambda>_.
     bindR (Malloc sizeof_FCGX_Stream_Data w) (\<lambda>_.
     let len = AlignInt8 (min (max len 32) (FCGI_MAX_LENGTH + 1)) in
     bindR (ASSERT (0 \<le> len \<and> len \<le> INT_MAX)) (\<lambda>_.
     bindR (Malloc (nat len) w) (\<lambda>_.
     let m = mallocAddr w (mallocCount w);
         len = (if AlignPtr8 m \<noteq> m then nat len - 8 else nat len) in
     Inr (\<lparr>rdNext = (if reader then 0 else len),
           wrNext = (if reader then 0 else 8),
           stop = (if reader then 0 else len),
           stopUnget = (if reader then Some 0 else None),
           isReader = reader, isClosed = False, wasFCloseCalled = False, FCGI_errno = 0,
           buff = map (fresh w) [0..<len], bufflen = len, mBuff = m,
           buffStop = (if reader then 0 else len),
           stype = streamType, eorStop = False, skip = False, contentLen = 0, paddingLen = 0,
           isAnythingWritten = False, rawWrite = False\<rparr>,
          w\<lparr>mallocCount := Suc (mallocCount w)\<rparr>)))))"

definition FCGX_FreeStream :: "FCGX_Stream_Data option \<Rightarrow> FCGX_Stream_Data option" where
  "FCGX_FreeStream streamPtr = None"

definition SetReaderType :: "int \<Rightarrow> FCGX_Stream_Data \<Rightarrow> FCGX_Stream_Data res" where
  "SetReaderType streamType d =
     bindR (ASSERT (isReader d)) (\<lambda>_.
     Inr (d\<lparr>stype := streamType, eorStop := False, skip := False, contentLen := 0, paddingLen := 0,
           wrNext := rdNext d, stop := rdNext d, isClosed := False\<rparr>))"

definition NewReader :: "int \<Rightarrow> int \<Rightarrow> os_unix \<Rightarrow> (FCGX_Stream_Data \<times> os_unix) res" where
  "NewReader len streamType w = NewStream len True streamType w"

definition NewWriter :: "int \<Rightarrow> int \<Rightarrow> os_unix \<Rightarrow> (FCGX_Stream_Data \<times> os_unix) res" where
  "NewWriter len streamType w = NewStream len False streamType w"

text \<open>\<open>memset(request, 0, sizeof(FCGX_Request))\<close>\<close>

definition zero_data :: ReqData where
  "zero_data = \<lparr>requestId = 0, role = 0, ipcFd = 0, isBeginProcessed = False, keepConnection = False,
     appStatus = 0, nWriters = 0, flags = 0, listen_sock = 0\<rparr>"

definition FCGX_InitRequest :: "int \<Rightarrow> int \<Rightarrow> int \<times> FCGX_Request" where
  "FCGX_InitRequest sock fl =
     (0, \<lparr>rdata = zero_data\<lparr>listen_sock := sock, flags := fl, ipcFd := - 1\<rparr>,
          in_stream = None, out_stream = None, err_stream = None, envp = None, paramsPtr = None\<rparr>)"

text \<open>
  \<open>FCGX_CreateWriter\<close>: only \<open>ipcFd\<close>, \<open>requestId\<close> and \<open>nWriters\<close> of the allocated request are
  set; \<open>garbage\<close> is what the block held.
\<close>

definition FCGX_CreateWriter ::
  "ReqData \<Rightarrow> int \<Rightarrow> int \<Rightarrow> int \<Rightarrow> int \<Rightarrow> os_unix \<Rightarrow> stream_io res" where
  "FCGX_CreateWriter garbage fd rid len streamType w =
     bindR (Malloc sizeof_FCGX_Request w) (\<lambda>_.
     let r = garbage\<lparr>ipcFd := fd, requestId := rid, nWriters := 2\<rparr> in
     bindR (NewWriter len streamType w) (\<lambda>(d, w). Inr (attach d r w)))"

section \<open>Finishing a request\<close>

definition FCGX_Free :: "FCGX_Request \<Rightarrow> bool \<Rightarrow> os_unix \<Rightarrow> (FCGX_Request \<times> os_unix) res" where
  "FCGX_Free req close w =
     (let req = req\<lparr>in_stream := FCGX_FreeStream (in_stream req),
                    out_stream := FCGX_FreeStream (out_stream req),
                    err_stream := FCGX_FreeStream (err_stream req)\<rparr> in
      bindR (FreeParams (paramsPtr req)) (\<lambda>p.
      let req = req\<lparr>paramsPtr := p\<rparr> in
      if close
      then bindR (OS_IpcClose (ipcFd (rdata req)) w) (\<lambda>(_, w).
           Inr (req\<lparr>rdata := (rdata req)\<lparr>ipcFd := - 1\<rparr>\<rparr>, w))
      else Inr (req, w)))"

text \<open>
  \<open>FCGX_FClose\<close> of one of the request's output streams, with the stream put back;
  \<open>FCGX_FClose(NULL)\<close> returns 0.
\<close>

definition close_writer ::
  "FCGX_Stream_Data option \<Rightarrow> ReqData \<Rightarrow> os_unix \<Rightarrow> (int \<times> FCGX_Stream_Data option \<times> ReqData \<times> os_unix) res" where
  "close_writer st r w =
     (case st of
        None \<Rightarrow> Inr (0, None, r, w)
      | Some d \<Rightarrow> bindR (FCGX_FClose EmptyBuffProc (attach d r w)) (\<lambda>(rc, s).
          Inr (rc, Some (detach s), reqDataPtr s, os s)))"

definition FCGX_Finish_r :: "FCGX_Request \<Rightarrow> os_unix \<Rightarrow> (FCGX_Request \<times> os_unix) res" where
  "FCGX_Finish_r req w =
     (let close = \<not> keepConnection (rdata req) in
      case in_stream req of
        None \<Rightarrow> FCGX_Free req close w
      | Some i \<Rightarrow>
          bindR (close_writer (err_stream req) (rdata req) w) (\<lambda>(rcE, e, r, w).
          bindR (close_writer (out_stream req) r w) (\<lambda>(rcO, d, r, w).
          FCGX_Free (req\<lparr>err_stream := e, out_stream := d, rdata := r\<rparr>)
            (close \<or> rcE \<noteq> 0 \<or> rcO \<noteq> 0 \<or> FCGI_errno i \<noteq> 0) w)))"

section \<open>Accepting a request\<close>

definition StringCopy :: "bytes \<Rightarrow> os_unix \<Rightarrow> bytes res" where
  "StringCopy str w = bindR (Malloc (length (cstr str) + 1) w) (\<lambda>_. Inr (cstr str))"

definition role_string :: "int \<Rightarrow> bytes option" where
  "role_string rl =
     (if rl = FCGI_RESPONDER then Some (chars ''FCGI_ROLE=RESPONDER'')
      else if rl = FCGI_AUTHORIZER then Some (chars ''FCGI_ROLE=AUTHORIZER'')
      else if rl = FCGI_FILTER then Some (chars ''FCGI_ROLE=FILTER'')
      else None)"

text \<open>
  The body of the loop of \<open>FCGX_Accept_r\<close> once a connection is open: read the begin record and
  the parameters.  The flag says whether the loop is left; otherwise it goes to \<open>TryAgain\<close>.
\<close>

definition accept_request :: "nat \<Rightarrow> FCGX_Request \<Rightarrow> os_unix \<Rightarrow> (bool \<times> FCGX_Request \<times> os_unix) res" where
  "accept_request k req w =
     (let r = (rdata req)\<lparr>isBeginProcessed := False\<rparr> in
      bindR (NewReader 8192 0 w) (\<lambda>(d, w).
      bindR (FillBuffProc k [] (attach d r w)) (\<lambda>s.
      let req = req\<lparr>rdata := reqDataPtr s, in_stream := Some (detach s)\<rparr> in
      if \<not> isBeginProcessed (reqDataPtr s) then Inr (False, req, os s)
      else case role_string (role (reqDataPtr s)) of
          None \<Rightarrow> Inr (False, req, os s)
        | Some roleStr \<Rightarrow>
            bindR (NewParams 30) (\<lambda>p.
            bindR (StringCopy roleStr (os s)) (\<lambda>roleStr.
            bindR (PutParam (heapLimit (os s)) p roleStr) (\<lambda>p.
            bindR (SetReaderType FCGI_PARAMS (detach s)) (\<lambda>d.
            bindR (ReadParams (FillBuffProc k []) k k p (attach d (reqDataPtr s) (os s))) (\<lambda>(rc, p, s).
            Inr (0 \<le> rc, req\<lparr>rdata := reqDataPtr s, in_stream := Some (detach s), paramsPtr := Some p\<rparr>, os s)))))))))"

text \<open>What is built after the loop.\<close>

definition accept_finish :: "FCGX_Request \<Rightarrow> os_unix \<Rightarrow> (int \<times> FCGX_Request \<times> os_unix) res" where
  "accept_finish req w =
     (case (in_stream req, paramsPtr req) of
        (Some d, Some p) \<Rightarrow>
          bindR (SetReaderType FCGI_STDIN d) (\<lambda>d.
          bindR (NewWriter 8192 FCGI_STDOUT w) (\<lambda>(o1, w).
          bindR (NewWriter 512 FCGI_STDERR w) (\<lambda>(o2, w).
          Inr (0, req\<lparr>in_stream := Some d, out_stream := Some o1, err_stream := Some o2,
                      rdata := (rdata req)\<lparr>nWriters := 2\<rparr>, envp := Some (vec p)\<rparr>, w))))
      | _ \<Rightarrow> Inl NullDeref)"

primrec Accept_loop ::
  "nat \<Rightarrow> nat \<Rightarrow> bytes option \<Rightarrow> FCGX_Request \<Rightarrow> os_unix \<Rightarrow> (int \<times> FCGX_Request \<times> os_unix) res" where
  "Accept_loop 0 k addrs req w = Inl OutOfFuel"
| "Accept_loop (Suc n) k addrs req w =
     bindR
       (if ipcFd (rdata req) < 0
        then bindR (OS_Accept k (listen_sock (rdata req))
               (flags (rdata req) AND FCGI_FAIL_ACCEPT_ON_INTR \<noteq> 0) addrs w) (\<lambda>(fd, w).
             Inr (req\<lparr>rdata := (rdata req)\<lparr>ipcFd := fd\<rparr>\<rparr>, w))
        else Inr (req, w)) (\<lambda>(req, w).
     if ipcFd (rdata req) < 0 then Inr (if errno w > 0 then - errno w else - 9999, req, w)
     else bindR (accept_request k req w) (\<lambda>(ok, req, w).
       if ok then accept_finish req w
       else bindR (FCGX_Free req True w) (\<lambda>(req, w). Accept_loop n k addrs req w)))"

definition FCGX_Accept_r ::
  "nat \<Rightarrow> nat \<Rightarrow> fcgx_lib \<Rightarrow> FCGX_Request \<Rightarrow> os_unix \<Rightarrow> (int \<times> FCGX_Request \<times> os_unix) res" where
  "FCGX_Accept_r n k lib req w =
     (if \<not> libInitialized lib then Inr (- 9998, req, w)
      else bindR (FCGX_Finish_r req w) (\<lambda>(req, w). Accept_loop n k (webServerAddressList lib) req w))"

section \<open>The library\<close>

definition FCGX_Init :: "fcgx_lib \<Rightarrow> os_unix \<Rightarrow> (int \<times> fcgx_lib \<times> os_unix) res" where
  "FCGX_Init lib w =
     (if libInitialized lib then Inr (0, lib, w)
      else let lib = lib\<lparr>the_request := snd (FCGX_InitRequest FCGI_LISTENSOCK_FILENO 0)\<rparr> in
        case OS_LibInit w of (rc, w) \<Rightarrow>
          if rc = - 1 then Inr (if errno w \<noteq> 0 then errno w else - 9997, lib, w)
          else bindR (case getenv lib (chars ''FCGI_WEB_SERVER_ADDRS'') of
                 None \<Rightarrow> Inr None
               | Some p \<Rightarrow> bindR (StringCopy p w) (\<lambda>c. Inr (Some c))) (\<lambda>l.
               Inr (0, lib\<lparr>webServerAddressList := l, libInitialized := True\<rparr>, w)))"

definition FCGX_IsCGI :: "fcgx_lib \<Rightarrow> os_unix \<Rightarrow> (bool \<times> fcgx_lib \<times> os_unix) res" where
  "FCGX_IsCGI lib w =
     (if isFastCGI lib \<noteq> - 1 then Inr (isFastCGI lib = 0, lib, w)
      else bindR (if libInitialized lib then Inr (lib, w)
             else bindR (FCGX_Init lib w) (\<lambda>(rc, lib, w).
               if rc \<noteq> 0 then Inl (Exit (if rc < 0 then rc else - rc)) else Inr (lib, w))) (\<lambda>(lib, w).
           case OS_IsFcgi FCGI_LISTENSOCK_FILENO w of (b, w) \<Rightarrow>
             Inr (b = 0, lib\<lparr>isFastCGI := b\<rparr>, w)))"

definition FCGX_OpenSocket :: "bytes \<Rightarrow> int \<Rightarrow> fcgx_lib \<Rightarrow> os_unix \<Rightarrow> (int \<times> fcgx_lib \<times> os_unix) res" where
  "FCGX_OpenSocket path backlog lib w =
     bindR (OS_CreateLocalIpcFd path backlog w) (\<lambda>(rc, w).
     Inr (rc, if rc = FCGI_LISTENSOCK_FILENO \<and> isFastCGI lib = 0 then lib\<lparr>isFastCGI := 1\<rparr> else lib, w))"

definition FCGX_Finish :: "fcgx_lib \<Rightarrow> os_unix \<Rightarrow> (fcgx_lib \<times> os_unix) res" where
  "FCGX_Finish lib w =
     bindR (FCGX_Finish_r (the_request lib) w) (\<lambda>(req, w). Inr (lib\<lparr>the_request := req\<rparr>, w))"

definition FCGX_Accept :: "nat \<Rightarrow> nat \<Rightarrow> fcgx_lib \<Rightarrow> os_unix \<Rightarrow> (int \<times> fcgx_lib \<times> os_unix) res" where
  "FCGX_Accept n k lib w =
     bindR (if libInitialized lib then Inr (0, lib, w) else FCGX_Init lib w) (\<lambda>(rc, lib, w).
     if rc \<noteq> 0 then Inr (rc, lib, w)
     else bindR (FCGX_Accept_r n k lib (the_request lib) w) (\<lambda>(rc, req, w).
       Inr (rc, lib\<lparr>the_request := req\<rparr>, w)))"

section \<open>Operations on the current request\<close>

definition FCGX_StartFilterData :: "stream_io \<Rightarrow> (int \<times> stream_io) res" where
  "FCGX_StartFilterData s =
     (if role (reqDataPtr s) \<noteq> FCGI_FILTER \<or> \<not> isReader s \<or> \<not> isClosed s \<or> stype s \<noteq> FCGI_STDIN
      then Inr (- 1, SetError FCGX_CALL_SEQ_ERROR s)
      else bindR (SetReaderType FCGI_DATA (detach s)) (\<lambda>d. Inr (0, attach d (reqDataPtr s) (os s))))"

definition FCGX_SetExitStatus :: "int \<Rightarrow> stream_io \<Rightarrow> stream_io" where
  "FCGX_SetExitStatus status s = s\<lparr>reqDataPtr := (reqDataPtr s)\<lparr>appStatus := status\<rparr>\<rparr>"

definition FCGX_ShutdownPending :: "os_unix \<Rightarrow> os_unix" where
  "FCGX_ShutdownPending w = OS_ShutdownPending w"

section \<open>Lemmas on streams\<close>

lemma attach_simps [simp]:
  "rdNext (attach d r w) = rdNext d" "wrNext (attach d r w) = wrNext d" "stop (attach d r w) = stop d"
  "stopUnget (attach d r w) = stopUnget d" "isReader (attach d r w) = isReader d"
  "isClosed (attach d r w) = isClosed d" "wasFCloseCalled (attach d r w) = wasFCloseCalled d"
  "FCGI_errno (attach d r w) = FCGI_errno d" "buff (attach d r w) = buff d" "bufflen (attach d r w) = bufflen d"
  "buffStop (attach d r w) = buffStop d" "stype (attach d r w) = stype d" "eorStop (attach d r w) = eorStop d"
  "skip (attach d r w) = skip d" "contentLen (attach d r w) = contentLen d" "paddingLen (attach d r w) = paddingLen d"
  "isAnythingWritten (attach d r w) = isAnythingWritten d" "rawWrite (attach d r w) = rawWrite d"
  "reqDataPtr (attach d r w) = r" "os (attach d r w) = w"
  by (simp_all add: attach_def FCGX_Stream_Data.defs stream_io.defs)

lemma detach_attach [simp]: "detach (attach d r w) = d"
  by (cases d) (simp add: attach_def detach_def FCGX_Stream_Data.defs stream_io.defs)

lemma attach_detach [simp]: "attach (detach s) (reqDataPtr s) (os s) = s"
  by (cases s) (simp add: attach_def detach_def FCGX_Stream_Data.defs stream_io.defs)

lemma detach_simps [simp]:
  "rdNext (detach s) = rdNext s" "isReader (detach s) = isReader s" "FCGI_errno (detach s) = FCGI_errno s"
  "isClosed (detach s) = isClosed s" "buff (detach s) = buff s" "bufflen (detach s) = bufflen s"
  "buffStop (detach s) = buffStop s" "stop (detach s) = stop s" "paddingLen (detach s) = paddingLen s"
  "stype (detach s) = stype s" "skip (detach s) = skip s" "contentLen (detach s) = contentLen s"
  "eorStop (detach s) = eorStop s"
  by (simp_all add: detach_def FCGX_Stream_Data.defs)

lemma align_len: "32 \<le> (n :: int) \<Longrightarrow> n \<le> 65536 \<Longrightarrow> 32 \<le> AlignInt8 n \<and> AlignInt8 n \<le> 65536 \<and> 8 dvd AlignInt8 n"
  unfolding AlignInt8_eq by auto

text \<open>What every new stream has, and what it is as a reader and as a writer.\<close>

lemma NewStream_ok:
  assumes "HEAP_MIN \<le> heapLimit w"
  shows "\<exists>d. NewStream len rd ty w = Inr (d, w\<lparr>mallocCount := Suc (mallocCount w)\<rparr>)
    \<and> 24 \<le> bufflen d \<and> bufflen d \<le> 65536 \<and> 8 dvd bufflen d \<and> length (buff d) = bufflen d
    \<and> isReader d = rd \<and> \<not> isClosed d \<and> \<not> wasFCloseCalled d \<and> FCGI_errno d = 0 \<and> stype d = ty
    \<and> \<not> eorStop d \<and> \<not> skip d \<and> contentLen d = 0 \<and> paddingLen d = 0 \<and> \<not> isAnythingWritten d \<and> \<not> rawWrite d
    \<and> (if rd then rdNext d = 0 \<and> stop d = 0 \<and> buffStop d = 0
       else wrNext d = 8 \<and> stop d = bufflen d \<and> buffStop d = bufflen d)"
proof -
  define n where "n = AlignInt8 (min (max len 32) 65536)"
  have n: "32 \<le> n" "n \<le> 65536" "8 dvd n" using align_len [of "min (max len 32) 65536"] by (auto simp: n_def)
  obtain m where "n = 8 * m" using n(3) by (auto elim: dvdE)
  with n(1) obtain q where q: "n = 8 * int q" "4 \<le> q" by (intro that [of "nat m"]) auto
  have "nat n \<le> 65536" using n(2) by simp
  then have "nat n \<le> heapLimit w" using assms unfolding HEAP_MIN_def by linarith
  then have m: "Malloc sizeof_FCGX_Stream w = Inr ()" "Malloc sizeof_FCGX_Stream_Data w = Inr ()" "Malloc (nat n) w = Inr ()"
    using assms n(2) by (simp_all add: Malloc_def HEAP_MIN_def sizeof_FCGX_Stream_def sizeof_FCGX_Stream_Data_def)
  have "8 dvd nat n" "8 dvd nat n - 8" "24 \<le> nat n - 8" "24 \<le> nat n" "nat n - 8 \<le> 65536" "nat n \<le> 65536"
    using q n(2) by (auto simp: nat_mult_distrib)
  then show ?thesis using m n unfolding NewStream_def
    by (simp add: n_def [symmetric] Let_def)
qed

lemma new_writer:
  assumes "HEAP_MIN \<le> heapLimit w" "tx_ok (ipcFd r) w"
  shows "\<exists>d. NewWriter len ty w = Inr (d, w\<lparr>mallocCount := Suc (mallocCount w)\<rparr>)
    \<and> (\<forall>v. tx_ok (ipcFd r) v \<longrightarrow> writer_inv ty r (attach d r v)) \<and> wrNext d = 8 \<and> \<not> isAnythingWritten d"
proof -
  from NewStream_ok [OF assms(1), of len False ty] obtain d where
    "NewWriter len ty w = Inr (d, w\<lparr>mallocCount := Suc (mallocCount w)\<rparr>)"
    "24 \<le> bufflen d \<and> bufflen d \<le> 65536 \<and> 8 dvd bufflen d \<and> length (buff d) = bufflen d
    \<and> \<not> isReader d \<and> \<not> isClosed d \<and> \<not> wasFCloseCalled d \<and> FCGI_errno d = 0 \<and> stype d = ty
    \<and> \<not> isAnythingWritten d \<and> \<not> rawWrite d \<and> wrNext d = 8 \<and> stop d = bufflen d"
    unfolding NewWriter_def by auto
  then show ?thesis by (intro exI [of _ d]) (auto simp: writer_inv_def)
qed

text \<open>A connection that works, and the mode of a reader for request data \<open>r\<close>.\<close>

definition conn_ok :: "int \<Rightarrow> os_unix \<Rightarrow> bool" where
  "conn_ok fd w \<longleftrightarrow> \<not> shutdownNow w \<and> rx_ok (rx (conns w fd)) \<and> tx_ok fd w \<and> HEAP_MIN \<le> heapLimit w"

definition mode_for :: "int \<Rightarrow> ReqData \<Rightarrow> os_unix \<Rightarrow> rmode" where
  "mode_for ty r w = \<lparr>rm_type = ty, rm_id = requestId r, rm_begun = isBeginProcessed r,
     rm_lim = heapLimit w, rm_fresh = fresh w\<rparr>"

lemma new_reader:
  assumes "conn_ok (ipcFd r) w"
  shows "\<exists>d. NewReader len ty w = Inr (d, w\<lparr>mallocCount := Suc (mallocCount w)\<rparr>)
    \<and> loop_inv (mode_for ty r w) r (attach d r (w\<lparr>mallocCount := Suc (mallocCount w)\<rparr>))
    \<and> ahead (attach d r (w\<lparr>mallocCount := Suc (mallocCount w)\<rparr>)) = rx_bytes (rx (conns w (ipcFd r)))
    \<and> \<not> eorStop d \<and> \<not> skip d \<and> contentLen d = 0 \<and> paddingLen d = 0"
proof -
  from NewStream_ok [of w len True ty] assms obtain d where
    "NewReader len ty w = Inr (d, w\<lparr>mallocCount := Suc (mallocCount w)\<rparr>)"
    "24 \<le> bufflen d \<and> bufflen d \<le> 65536 \<and> length (buff d) = bufflen d
    \<and> isReader d \<and> \<not> isClosed d \<and> FCGI_errno d = 0 \<and> stype d = ty
    \<and> \<not> eorStop d \<and> \<not> skip d \<and> contentLen d = 0 \<and> paddingLen d = 0
    \<and> rdNext d = 0 \<and> stop d = 0 \<and> buffStop d = 0"
    unfolding NewReader_def conn_ok_def by auto
  then show ?thesis using assms
    by (intro exI [of _ d]) (auto simp: loop_inv_def reader_frame_def conn_ok_def mode_for_def tx_ok_def
        ahead_def input_from_def)
qed

text \<open>\<open>SetReaderType\<close> turns a reader between two records into one for the given type.\<close>

lemma SetReaderType_ok:
  assumes "reader_frame md r s" "rdNext s \<le> buffStop s"
  shows "\<exists>d. SetReaderType ty (detach s) = Inr d \<and> isReader d
    \<and> (\<forall>r' w'. reader_frame md r' (attach (detach s) r' w') \<longrightarrow> stream_inv (md\<lparr>rm_type := ty\<rparr>) r' (attach d r' w'))
    \<and> (\<forall>r' w'. avail (attach d r' w') = ahead (attach (detach s) r' w'))
    \<and> \<not> skip d \<and> contentLen d = 0 \<and> paddingLen d = 0 \<and> rdNext d = stop d"
proof -
  let ?d = "(detach s)\<lparr>stype := ty, eorStop := False, skip := False, contentLen := 0, paddingLen := 0,
           wrNext := rdNext (detach s), stop := rdNext (detach s), isClosed := False\<rparr>"
  have "SetReaderType ty (detach s) = Inr ?d" using assms by (simp add: SetReaderType_def reader_frame_def)
  moreover have "avail (attach ?d r' w') = ahead (attach (detach s) r' w')" for r' w'
    by (simp add: avail_def ahead_def input_from_def)
  ultimately show ?thesis using assms
    by (intro exI [of _ ?d]) (simp add: stream_inv_def reader_frame_def)
qed

lemma frame_attach:
  assumes "reader_frame md r s"
  shows "reader_frame md r (attach (detach s) r (os s))"
  using assms by (simp add: reader_frame_def)

section \<open>Accepting a request, read off the input\<close>

text \<open>
  \<open>incoming w r B\<close> reads the input \<open>B\<close> of a connection as a request: the begin record, then the
  parameters.  The result is the request data, the role entry, the parameters, all replies, and
  how the parameters ended.
\<close>

definition incoming :: "os_unix \<Rightarrow> ReqData \<Rightarrow> bytes \<Rightarrow>
    (ReqData \<times> bytes \<times> (bytes \<times> bytes) list \<times> bytes \<times> bytes) option" where
  "incoming w r B =
     (let r = r\<lparr>isBeginProcessed := False\<rparr> in
      case deliver (mode_for 0 r w) 0 0 False B of
        ([], o0, BeginRequest rid body R _) \<Rightarrow>
          (case role_string (short_of (roleB1 body) (roleB0 body)) of
             None \<Rightarrow> None
           | Some roleStr \<Rightarrow>
               let r = begun r rid body in
               (case deliver (mode_for FCGI_PARAMS r w) 0 0 False R of
                  (xs, o1, EndOfStream L _ _) \<Rightarrow>
                    (case parse_pairs (heapLimit w) xs of
                       Some (kvs, True) \<Rightarrow>
                         if 16 * Suc (length kvs) \<le> heapLimit w \<and> 2 * int (Suc (length kvs)) \<le> INT_MAX
                         then Some (r, roleStr, kvs, o0 @ o1, L) else None
                     | _ \<Rightarrow> None)
                | _ \<Rightarrow> None))
      | _ \<Rightarrow> None)"

lemma incoming_SomeD:
  assumes "incoming w r B = Some (r', roleStr, kvs, out, L)"
  shows "\<exists>o0 rid body R p xs o1 q sk. deliver (mode_for 0 (r\<lparr>isBeginProcessed := False\<rparr>) w) 0 0 False B =
      ([], o0, BeginRequest rid body R p) \<and> role_string (short_of (roleB1 body) (roleB0 body)) = Some roleStr
    \<and> r' = begun (r\<lparr>isBeginProcessed := False\<rparr>) rid body
    \<and> deliver (mode_for FCGI_PARAMS r' w) 0 0 False R = (xs, o1, EndOfStream L q sk)
    \<and> parse_pairs (heapLimit w) xs = Some (kvs, True) \<and> 16 * Suc (length kvs) \<le> heapLimit w
    \<and> 2 * int (Suc (length kvs)) \<le> INT_MAX \<and> out = o0 @ o1"
  using assms unfolding incoming_def Let_def
  by (simp split: prod.splits list.splits rd_end.splits option.splits bool.splits if_splits)

lemma incoming_cong:
  assumes "heapLimit w' = heapLimit w" "fresh w' = fresh w"
  shows "incoming w' r B = incoming w r B"
proof -
  have m: "mode_for ty r w' = mode_for ty r w" for ty r using assms by (simp add: mode_for_def)
  show ?thesis unfolding incoming_def assms(1) m by (rule refl)
qed

lemma role_string_ok:
  assumes "role_string rl = Some e" "HEAP_MIN \<le> heapLimit w"
  shows "StringCopy e w = Inr e"
proof -
  have "e = chars ''FCGI_ROLE=RESPONDER'' \<or> e = chars ''FCGI_ROLE=AUTHORIZER'' \<or> e = chars ''FCGI_ROLE=FILTER''"
    using assms(1) by (auto simp: role_string_def split: if_splits)
  then have "cstr e = e" "length e \<le> 20" by (auto simp: chars_def cstr_def)
  with assms(2) show ?thesis by (simp add: StringCopy_def Malloc_def HEAP_MIN_def)
qed

lemma accept_request_ok:
  assumes c: "conn_ok (ipcFd (rdata req)) w" and k: "length (rx_bytes (rx (conns w (ipcFd (rdata req))))) < k"
    and B: "incoming w (rdata req) (rx_bytes (rx (conns w (ipcFd (rdata req))))) = Some (r', roleStr, kvs, out, L)"
  shows "\<exists>p s. accept_request k req w =
      Inr (True, req\<lparr>rdata := r', in_stream := Some (detach s), paramsPtr := Some p\<rparr>, os s)
    \<and> params_rel p (roleStr # map pair_entry kvs) \<and> reader_frame (mode_for FCGI_PARAMS r' w) r' s
    \<and> rdNext s \<le> buffStop s \<and> ahead s = L \<and> traffic (ipcFd r') (w\<lparr>mallocCount := Suc (mallocCount w)\<rparr>) out (os s)"
proof -
  let ?B = "rx_bytes (rx (conns w (ipcFd (rdata req))))" and ?r = "(rdata req)\<lparr>isBeginProcessed := False\<rparr>"
    and ?w = "w\<lparr>mallocCount := Suc (mallocCount w)\<rparr>"
  from incoming_SomeD [OF B] obtain o0 rid body R p xs o1 q sk where
    d0: "deliver (mode_for 0 ?r w) 0 0 False ?B = ([], o0, BeginRequest rid body R p)"
    and rl: "role_string (short_of (roleB1 body) (roleB0 body)) = Some roleStr" and r': "r' = begun ?r rid body"
    and d1: "deliver (mode_for FCGI_PARAMS r' w) 0 0 False R = (xs, o1, EndOfStream L q sk)"
    and pp: "parse_pairs (heapLimit w) xs = Some (kvs, True)" "16 * Suc (length kvs) \<le> heapLimit w"
      "2 * int (Suc (length kvs)) \<le> INT_MAX" and out: "out = o0 @ o1" by blast
  have c': "conn_ok (ipcFd ?r) w" "ipcFd ?r = ipcFd (rdata req)" using c by simp_all
  from new_reader [OF c'(1), of 8192 0] obtain d where
    d: "NewReader 8192 0 w = Inr (d, ?w)" "loop_inv (mode_for 0 ?r w) ?r (attach d ?r ?w)"
      "ahead (attach d ?r ?w) = ?B" "\<not> eorStop d" "\<not> skip d" "contentLen d = 0" "paddingLen d = 0" by auto
  have "outcome (mode_for 0 ?r w) ?r ?w (length ?B) [] o0 (BeginRequest rid body R p) (FillBuffProc k [] (attach d ?r ?w))"
    using refinesD [OF FillBuffProc_refines d(2), of k "[]"] d k d0 by simp
  then obtain s where s: "FillBuffProc k [] (attach d ?r ?w) = Inr s"
    "ended (mode_for 0 ?r w) ?r ?w o0 (BeginRequest rid body R p) s" by (auto simp: outcome_def)
  let ?md = "(mode_for 0 ?r w)\<lparr>rm_id := rid, rm_begun := True\<rparr>"
  have e: "reader_frame ?md r' s" "rdNext s = stop s" "stop s \<le> buffStop s" "ahead s = R"
    "traffic (ipcFd ?r) ?w o0 (os s)"
    using s(2) by (simp_all add: ended_def r')
  have sr: "reqDataPtr s = r'" using e(1) by (simp add: reader_frame_def)
  have md1: "?md\<lparr>rm_type := FCGI_PARAMS\<rparr> = mode_for FCGI_PARAMS r' w"
    by (simp add: mode_for_def r' begun_def)
  from SetReaderType_ok [OF e(1), of FCGI_PARAMS] e(2,3) obtain d' where
    d': "SetReaderType FCGI_PARAMS (detach s) = Inr d'" "stream_inv (mode_for FCGI_PARAMS r' w) r' (attach d' r' (os s))"
      "avail (attach d' r' (os s)) = R" "\<not> skip d'" "contentLen d' = 0" "paddingLen d' = 0" "rdNext d' = stop d'"
    using frame_attach [OF e(1)] md1 e(4) attach_detach [of s] sr by metis
  have hl: "heapLimit (os s) = heapLimit w" using traffic_keeps(1) [OF e(5)] by simp
  obtain p0 where p0: "NewParams 30 = Inr p0" "params_rel p0 []" using NewParams_rel [of 30] by auto
  have "16 * Suc (length ([] :: bytes list)) \<le> heapLimit w" using c by (simp add: conn_ok_def HEAP_MIN_def)
  then obtain p1 where p1: "PutParam (heapLimit w) p0 roleStr = Inr p1" "params_rel p1 [roleStr]"
    using PutParam_rel [OF p0(2), of "heapLimit w" roleStr] by auto
  have lR: "length R < k"
  proof -
    have "length R \<le> length ?B" using deliver_length [OF d0] by simp
    then show ?thesis using k by simp
  qed
  have src: "str.src k (mode_for FCGI_PARAMS r' w) r' (EndOfStream L q sk) (os s) o1 (attach d' r' (os s)) xs"
    unfolding str.src_def str_inv_def str_rest_def
    using d' lR d1 r' by (auto simp: mode_for_def begun_def window_def intro!: exI [of _ "[]"])
  have lx: "length xs < k" using deliver_length [OF d1] lR by simp
  from str.ReadParams_src [OF src p1(2), of kvs True k k] pp lx obtain p2 t where
    t: "ReadParams (FillBuffProc k []) k k p1 (attach d' r' (os s)) = Inr (0, p2, t)"
      "str_fin (mode_for FCGI_PARAMS r' w) r' (os s) o1 (EndOfStream L q sk) t"
      "params_rel p2 (roleStr # map pair_entry kvs)"
    by (auto simp: mode_for_def)
  have t': "reader_frame (mode_for FCGI_PARAMS r' w) r' t" "rdNext t \<le> buffStop t" "ahead t = L"
    "traffic (ipcFd r') (os s) o1 (os t)" using t(2) by (auto simp: str_fin_def ended_def)
  have "traffic (ipcFd r') ?w out (os t)"
    using traffic_trans [OF e(5), of o1 "os t"] t'(4) by (simp add: out r' begun_def)
  moreover have "isBeginProcessed r'" "role r' = short_of (roleB1 body) (roleB0 body)" "reqDataPtr t = r'"
    using t'(1) by (simp_all add: r' begun_def reader_frame_def)
  moreover have "StringCopy roleStr (os s) = Inr roleStr"
    using role_string_ok [OF rl, of "os s"] hl c by (simp add: conn_ok_def)
  ultimately have "accept_request k req w =
      Inr (True, req\<lparr>rdata := r', in_stream := Some (detach t), paramsPtr := Some p2\<rparr>, os t)"
    using d(1) s(1) sr rl p0(1) p1(1) d'(1) t(1) hl by (simp add: accept_request_def Let_def)
  with t(3) t' \<open>traffic (ipcFd r') ?w out (os t)\<close> show ?thesis by blast
qed

text \<open>
  The state of a request the application works on: \<open>L\<close> is the input after the parameters, \<open>es\<close>
  the environment; both output streams are open and empty.
\<close>

definition fresh_writer :: "int \<Rightarrow> ReqData \<Rightarrow> FCGX_Stream_Data \<Rightarrow> os_unix \<Rightarrow> bool" where
  "fresh_writer ty r d w \<longleftrightarrow> writer_inv ty r (attach d r w) \<and> wrNext d = 8 \<and> \<not> isAnythingWritten d"

definition ready_reader :: "int \<Rightarrow> ReqData \<Rightarrow> FCGX_Stream_Data \<Rightarrow> os_unix \<Rightarrow> bytes \<Rightarrow> bool" where
  "ready_reader ty r d w L \<longleftrightarrow> stream_inv (mode_for ty r w) r (attach d r w) \<and> isBeginProcessed r
     \<and> avail (attach d r w) = L \<and> \<not> skip d \<and> contentLen d = 0 \<and> paddingLen d = 0 \<and> rdNext d = stop d"

definition accepted :: "FCGX_Request \<Rightarrow> os_unix \<Rightarrow> bytes \<Rightarrow> bytes list \<Rightarrow> bool" where
  "accepted req w L es \<longleftrightarrow>
     (\<exists>i d e p. in_stream req = Some i \<and> out_stream req = Some d \<and> err_stream req = Some e
        \<and> paramsPtr req = Some p \<and> envp req = Some (vec p) \<and> params_rel p es \<and> nWriters (rdata req) = 2
        \<and> ready_reader FCGI_STDIN (rdata req) i w L
        \<and> fresh_writer FCGI_STDOUT (rdata req) d w \<and> fresh_writer FCGI_STDERR (rdata req) e w)"

lemma traffic_conn:
  "traffic fd w out w' \<Longrightarrow> asyncIoInUse w' = asyncIoInUse w \<and> opened (conns w' fd) = opened (conns w fd)"
  by (auto simp: traffic_def)

lemma accept_finish_ok:
  assumes req: "rdata req = r" "in_stream req = Some (detach s)" "paramsPtr req = Some p" "params_rel p es"
    and fr: "reader_frame (mode_for FCGI_PARAMS r w0) r s" "rdNext s \<le> buffStop s" "isBeginProcessed r"
    and w0: "heapLimit (os s) = heapLimit w0" "fresh (os s) = fresh w0"
  shows "\<exists>req' w'. accept_finish req (os s) = Inr (0, req', w') \<and> accepted req' w' (ahead s) es
    \<and> rdata req' = r\<lparr>nWriters := 2\<rparr> \<and> w' = (os s)\<lparr>mallocCount := mallocCount (os s) + 2\<rparr>"
proof -
  let ?w1 = "(os s)\<lparr>mallocCount := Suc (mallocCount (os s))\<rparr>" and ?w2 = "(os s)\<lparr>mallocCount := mallocCount (os s) + 2\<rparr>"
    and ?r = "r\<lparr>nWriters := 2\<rparr>"
  have h: "HEAP_MIN \<le> heapLimit (os s)" "tx_ok (ipcFd ?r) (os s)" "HEAP_MIN \<le> heapLimit ?w1" "tx_ok (ipcFd ?r) ?w1"
    and tx2: "tx_ok (ipcFd ?r) ?w2"
    using fr(1) by (auto simp: reader_frame_def tx_ok_def)
  obtain d where d: "SetReaderType FCGI_STDIN (detach s) = Inr d"
    "\<And>r' w'. reader_frame (mode_for FCGI_PARAMS r w0) r' (attach (detach s) r' w') \<Longrightarrow>
      stream_inv ((mode_for FCGI_PARAMS r w0)\<lparr>rm_type := FCGI_STDIN\<rparr>) r' (attach d r' w')"
    "\<And>r' w'. avail (attach d r' w') = ahead (attach (detach s) r' w')"
    "\<not> skip d" "contentLen d = 0" "paddingLen d = 0" "rdNext d = stop d"
    using SetReaderType_ok [OF fr(1,2), of FCGI_STDIN] by blast
  have "reader_frame (mode_for FCGI_PARAMS r w0) ?r (attach (detach s) ?r ?w2)"
    using fr(1) by (simp add: reader_frame_def tx_ok_def mode_for_def)
  moreover have "(mode_for FCGI_PARAMS r w0)\<lparr>rm_type := FCGI_STDIN\<rparr> = mode_for FCGI_STDIN ?r ?w2"
    using w0 by (simp add: mode_for_def)
  moreover have "ahead (attach (detach s) ?r ?w2) = ahead s"
    using fr(1) by (simp add: ahead_def input_from_def reader_frame_def)
  ultimately have "ready_reader FCGI_STDIN ?r d ?w2 (ahead s)"
    using d fr(3) unfolding ready_reader_def by (metis ReqData.select_convs(4) ReqData.surjective ReqData.update_convs(7))
  moreover obtain o1 where o1: "NewWriter 8192 FCGI_STDOUT (os s) = Inr (o1, ?w1)"
      "fresh_writer FCGI_STDOUT ?r o1 ?w2"
    using new_writer [OF h(1,2), of 8192 FCGI_STDOUT] tx2 by (auto simp: fresh_writer_def)
  moreover obtain o2 where o2: "NewWriter 512 FCGI_STDERR ?w1 = Inr (o2, ?w2)"
      "fresh_writer FCGI_STDERR ?r o2 ?w2"
    using new_writer [OF h(3,4), of 512 FCGI_STDERR] tx2 by (auto simp: fresh_writer_def)
  ultimately show ?thesis using req d(1)
    by (simp add: accept_finish_def accepted_def)
qed

text \<open>One round of the accept loop on an open connection that carries a request.\<close>

lemma Accept_loop_open:
  assumes fd: "0 \<le> ipcFd (rdata req)"
    and c: "conn_ok (ipcFd (rdata req)) w" "length (rx_bytes (rx (conns w (ipcFd (rdata req))))) < k"
    and B: "incoming w (rdata req) (rx_bytes (rx (conns w (ipcFd (rdata req))))) = Some (r', roleStr, kvs, out, L)"
  shows "\<exists>req' w'. Accept_loop (Suc n) k addrs req w = Inr (0, req', w')
    \<and> accepted req' w' L (roleStr # map pair_entry kvs) \<and> rdata req' = r'\<lparr>nWriters := 2\<rparr>
    \<and> sent (conns w' (ipcFd r')) = sent (conns w (ipcFd r')) @ out
    \<and> asyncIoInUse w' = asyncIoInUse w \<and> opened (conns w' (ipcFd r')) = opened (conns w (ipcFd r'))"
proof -
  from accept_request_ok [OF c B] obtain p s where
    a: "accept_request k req w = Inr (True, req\<lparr>rdata := r', in_stream := Some (detach s), paramsPtr := Some p\<rparr>, os s)"
      "params_rel p (roleStr # map pair_entry kvs)" "reader_frame (mode_for FCGI_PARAMS r' w) r' s"
      "rdNext s \<le> buffStop s" "ahead s = L"
      "traffic (ipcFd r') (w\<lparr>mallocCount := Suc (mallocCount w)\<rparr>) out (os s)" by blast
  have "isBeginProcessed r'" using incoming_SomeD [OF B] by (auto simp: begun_def)
  with accept_finish_ok [of "req\<lparr>rdata := r', in_stream := Some (detach s), paramsPtr := Some p\<rparr>" r' s p
      "roleStr # map pair_entry kvs" w] a
    traffic_keeps [OF a(6)]
  obtain req' w' where f: "accept_finish (req\<lparr>rdata := r', in_stream := Some (detach s), paramsPtr := Some p\<rparr>) (os s) =
      Inr (0, req', w')" "accepted req' w' L (roleStr # map pair_entry kvs)" "rdata req' = r'\<lparr>nWriters := 2\<rparr>"
      "w' = (os s)\<lparr>mallocCount := mallocCount (os s) + 2\<rparr>" by auto
  then show ?thesis using a(1) fd traffic_keeps(5) [OF a(6)] traffic_conn [OF a(6)] by auto
qed

section \<open>The first connection\<close>

lemma OS_Accept_first:
  assumes acc: "accepts w = AccConn fd sa c False # es" "0 \<le> fd" "admitted addrs sa c w"
    and idle: "\<not> shutdownPending w" "locks w = []" "unlocks w = []" and k: "1 < k"
  shows "OS_Accept k ls foi addrs w =
    Inr (fd, w\<lparr>accepts := es, conns := (conns w)(fd := c), lockHeld := False\<rparr>)"
proof -
  obtain j where j: "k = Suc (Suc j)" using k by (cases k; cases "k - 1") auto
  let ?w1 = "w\<lparr>locks := [], shutdownPending := False, lockHeld := True\<rparr>"
  have w1: "w\<lparr>locks := [], shutdownPending := False, lockHeld := True\<rparr> = w\<lparr>lockHeld := True\<rparr>"
    using idle by simp
  have lock: "AcquireLock ls foi w = (0, w\<lparr>lockHeld := True\<rparr>)"
    using idle by (simp add: AcquireLock_def)
  let ?w2 = "w\<lparr>lockHeld := True, accepts := es, conns := (conns w)(fd := c)\<rparr>"
  have "accept_retry foi (- 1) Sockaddr_un (w\<lparr>lockHeld := True\<rparr>) = Inr ((fd, sa), ?w2)"
    using acc(1,2) idle(1) by (simp add: accept_retry.simps sys_accept_def raise_sig_def)
  moreover have "ReleaseLock ls ?w2 = (0, w\<lparr>accepts := es, conns := (conns w)(fd := c), lockHeld := False\<rparr>)"
    using idle(3) by (simp add: ReleaseLock_def)
  ultimately show ?thesis
    using acc lock by (auto simp: OS_Accept_def j admitted_def addr_ok_def is_af_unix_keeper_def split: sockaddr.splits)
qed

text \<open>A request structure as \<open>FCGX_InitRequest\<close> leaves it, or after a finished request.\<close>

definition idle_request :: "FCGX_Request \<Rightarrow> bool" where
  "idle_request req \<longleftrightarrow> in_stream req = None \<and> out_stream req = None \<and> err_stream req = None
     \<and> paramsPtr req = None \<and> ipcFd (rdata req) = - 1"

lemma Finish_idle:
  assumes "idle_request req" shows "FCGX_Finish_r req w = Inr (req, w)"
  using assms
  by (auto simp: idle_request_def FCGX_Finish_r_def FCGX_Free_def FCGX_FreeStream_def FreeParams_def
      OS_IpcClose_def OS_Close_def Let_def)

lemma Accept_r_first:
  assumes lib: "libInitialized lib" and req: "idle_request req"
    and acc: "accepts w = AccConn fd sa c False # es" "0 \<le> fd" "admitted (webServerAddressList lib) sa c w"
    and idle: "\<not> shutdownPending w" "locks w = []" "unlocks w = []"
    and c: "conn_ok fd (w\<lparr>conns := (conns w)(fd := c)\<rparr>)" "length (rx_bytes (rx c)) < k" "1 < k"
    and B: "incoming w ((rdata req)\<lparr>ipcFd := fd\<rparr>) (rx_bytes (rx c)) = Some (r', roleStr, kvs, out, L)"
  shows "\<exists>req' w'. FCGX_Accept_r (Suc n) k lib req w = Inr (0, req', w')
    \<and> accepted req' w' L (roleStr # map pair_entry kvs) \<and> rdata req' = r'\<lparr>nWriters := 2\<rparr>
    \<and> sent (conns w' fd) = sent c @ out
    \<and> asyncIoInUse w' = asyncIoInUse w \<and> opened (conns w' fd) = opened c"
proof -
  let ?w = "w\<lparr>accepts := es, conns := (conns w)(fd := c), lockHeld := False\<rparr>"
    and ?req = "req\<lparr>rdata := (rdata req)\<lparr>ipcFd := fd\<rparr>\<rparr>"
  have "conn_ok fd ?w" using c(1) by (simp add: conn_ok_def tx_ok_def)
  moreover have "incoming ?w (rdata ?req) (rx_bytes (rx c)) = Some (r', roleStr, kvs, out, L)"
    using B incoming_cong [of ?w w] by simp
  moreover have fd': "ipcFd r' = fd" using incoming_SomeD [OF B] by (auto simp: begun_def)
  ultimately obtain req' w' where a: "Accept_loop (Suc n) k (webServerAddressList lib) ?req ?w = Inr (0, req', w')"
    "accepted req' w' L (roleStr # map pair_entry kvs)" "rdata req' = r'\<lparr>nWriters := 2\<rparr>"
    "sent (conns w' fd) = sent c @ out" "asyncIoInUse w' = asyncIoInUse w" "opened (conns w' fd) = opened c"
    using Accept_loop_open [of ?req ?w k r' roleStr kvs out L n "webServerAddressList lib"] acc(2) c(2) by auto
  have "Accept_loop (Suc n) k (webServerAddressList lib) req w = Accept_loop (Suc n) k (webServerAddressList lib) ?req ?w"
    using OS_Accept_first [OF acc idle c(3)] req acc(2) by (simp add: idle_request_def)
  with a lib Finish_idle [OF req] show ?thesis
    by (auto simp: FCGX_Accept_r_def simp del: Accept_loop.simps)
qed

section \<open>Finishing a request, seen from the peer\<close>

text \<open>
  A request in progress: the application has written \<open>zo\<close> to the output and \<open>ze\<close> to the error
  stream.  What was sent since \<open>pre\<close> are records, and the rest is still in the buffers.
\<close>

definition session :: "os_unix \<Rightarrow> ReqData \<Rightarrow> FCGX_Stream_Data \<Rightarrow> FCGX_Stream_Data \<Rightarrow> os_unix \<Rightarrow> bytes \<Rightarrow> bytes \<Rightarrow> bool" where
  "session pre r d e w zo ze \<longleftrightarrow>
     writer_inv FCGI_STDOUT r (attach d r w) \<and> writer_inv FCGI_STDERR r (attach e r w)
     \<and> (\<exists>recs xo xe. transmitted (ipcFd r) pre (wire (requestId r) recs) w
        \<and> stream_recs FCGI_STDOUT (filter (\<lambda>r. fst r \<noteq> FCGI_STDOUT) recs) recs xo
        \<and> stream_recs FCGI_STDERR (filter (\<lambda>r. fst r \<noteq> FCGI_STDERR) recs) recs xe
        \<and> zo = xo @ seg 8 (wrNext d) (buff d) \<and> (isAnythingWritten d \<longleftrightarrow> xo \<noteq> [])
        \<and> ze = xe @ seg 8 (wrNext e) (buff e) \<and> (isAnythingWritten e \<longleftrightarrow> xe \<noteq> []))"

text \<open>Each of the two streams is a sink whose other records are the ones of the other stream.\<close>

definition only :: "int \<Rightarrow> (int \<times> bytes) list \<Rightarrow> bool" where
  "only ty recs \<longleftrightarrow> (\<forall>(t, c) \<in> set recs. t = ty \<longrightarrow> c \<noteq> [])"

lemma content_filter: "t \<noteq> ty \<Longrightarrow> content_of t (filter (\<lambda>r. fst r \<noteq> ty) recs) = content_of t recs"
  by (induction recs) (auto simp: content_of_def)

lemma stream_recs_other:
  assumes "stream_recs ty others recs xs" "t \<noteq> ty" "only t others"
  shows "stream_recs t (filter (\<lambda>r. fst r \<noteq> t) recs) recs (content_of t others)"
  using assms content_filter [of t ty recs] by (fastforce simp: stream_recs_def only_def)

lemma stream_recs_only:
  assumes "stream_recs ty others recs xs" "t \<noteq> ty" "stream_recs t ot recs ys"
  shows "only t others \<and> content_of t others = ys"
  using assms content_filter [of t ty recs] by (fastforce simp: stream_recs_def only_def)

lemma session_out:
  assumes "session pre r d e w zo ze"
  shows "\<exists>ot. rec_sink.snk FCGI_STDOUT r pre ot (attach d r w) zo
    \<and> only FCGI_STDERR ot \<and> ze = content_of FCGI_STDERR ot @ seg 8 (wrNext e) (buff e)
    \<and> (isAnythingWritten e \<longleftrightarrow> content_of FCGI_STDERR ot \<noteq> []) \<and> writer_inv FCGI_STDERR r (attach e r w)"
  using assms stream_recs_only [of FCGI_STDOUT _ _ _ FCGI_STDERR]
  by (fastforce simp: session_def rec_sink.snk_def out_rel_def emitted_def)

lemma session_err:
  assumes "session pre r d e w zo ze"
  shows "\<exists>ot. rec_sink.snk FCGI_STDERR r pre ot (attach e r w) ze
    \<and> only FCGI_STDOUT ot \<and> zo = content_of FCGI_STDOUT ot @ seg 8 (wrNext d) (buff d)
    \<and> (isAnythingWritten d \<longleftrightarrow> content_of FCGI_STDOUT ot \<noteq> []) \<and> writer_inv FCGI_STDOUT r (attach d r w)"
  using assms stream_recs_only [of FCGI_STDERR _ _ _ FCGI_STDOUT]
  by (fastforce simp: session_def rec_sink.snk_def out_rel_def emitted_def)

lemma writer_inv_os: "writer_inv ty r (attach d r w) \<Longrightarrow> tx_ok (ipcFd r) w' \<Longrightarrow> writer_inv ty r (attach d r w')"
  by (simp add: writer_inv_def)

lemma session_from_out:
  assumes "rec_sink.snk FCGI_STDOUT r pre ot (attach d r w) zo" "only FCGI_STDERR ot"
    "writer_inv FCGI_STDERR r (attach e r w0)" "isAnythingWritten e \<longleftrightarrow> content_of FCGI_STDERR ot \<noteq> []"
  shows "session pre r d e w zo (content_of FCGI_STDERR ot @ seg 8 (wrNext e) (buff e))"
proof -
  obtain xs recs where x: "writer_inv FCGI_STDOUT r (attach d r w)" "zo = xs @ seg 8 (wrNext d) (buff d)"
    "isAnythingWritten d \<longleftrightarrow> xs \<noteq> []" "transmitted (ipcFd r) pre (wire (requestId r) recs) w"
    "stream_recs FCGI_STDOUT ot recs xs"
    using assms(1) by (auto simp: rec_sink.snk_def out_rel_def emitted_def)
  have "tx_ok (ipcFd r) w" using x(1) by (simp add: writer_inv_def)
  with x assms(3,4) writer_inv_os [OF assms(3)] stream_recs_other [OF x(5), of FCGI_STDERR] assms(2)
  show ?thesis unfolding session_def
    by (intro conjI exI [of _ recs] exI [of _ xs] exI [of _ "content_of FCGI_STDERR ot"])
      (auto simp: stream_recs_def)
qed

lemma session_from_err:
  assumes "rec_sink.snk FCGI_STDERR r pre ot (attach e r w) ze" "only FCGI_STDOUT ot"
    "writer_inv FCGI_STDOUT r (attach d r w0)" "isAnythingWritten d \<longleftrightarrow> content_of FCGI_STDOUT ot \<noteq> []"
  shows "session pre r d e w (content_of FCGI_STDOUT ot @ seg 8 (wrNext d) (buff d)) ze"
proof -
  obtain xs recs where x: "writer_inv FCGI_STDERR r (attach e r w)" "ze = xs @ seg 8 (wrNext e) (buff e)"
    "isAnythingWritten e \<longleftrightarrow> xs \<noteq> []" "transmitted (ipcFd r) pre (wire (requestId r) recs) w"
    "stream_recs FCGI_STDERR ot recs xs"
    using assms(1) by (auto simp: rec_sink.snk_def out_rel_def emitted_def)
  have "tx_ok (ipcFd r) w" using x(1) by (simp add: writer_inv_def)
  with x assms(3,4) writer_inv_os [OF assms(3)] stream_recs_other [OF x(5), of FCGI_STDOUT] assms(2)
  show ?thesis unfolding session_def
    by (intro conjI exI [of _ recs] exI [of _ xs] exI [of _ "content_of FCGI_STDOUT ot"])
      (auto simp: stream_recs_def)
qed

definition finish_records :: "ReqData \<Rightarrow> bytes \<Rightarrow> (int \<times> bytes) list \<Rightarrow> (int \<times> bytes) list \<Rightarrow> (int \<times> bytes) list" where
  "finish_records r ze r1 r2 =
     r1 @ (if ze = [] then [] else [(FCGI_STDERR, [])]) @ r2
     @ [(FCGI_STDOUT, []), (FCGI_END_REQUEST, end_body_bytes (MakeEndRequestBody (appStatus r) FCGI_REQUEST_COMPLETE))]"

lemma writer_inv_move:
  assumes "writer_inv ty r (attach d r w)" "tx_ok (ipcFd r) w'"
  shows "writer_inv ty (r\<lparr>nWriters := n\<rparr>) (attach d (r\<lparr>nWriters := n\<rparr>) w')"
  using assms by (simp add: writer_inv_def)

lemma close_both:
  assumes "session pre r d e w zo ze" "nWriters r = 2"
  shows "\<exists>e' d' w1 w2 recs r2. close_writer (Some e) r w = Inr (0, e', r\<lparr>nWriters := 1\<rparr>, w1)
    \<and> close_writer (Some d) (r\<lparr>nWriters := 1\<rparr>) w1 = Inr (0, d', r\<lparr>nWriters := 0\<rparr>, w2)
    \<and> transmitted (ipcFd r) pre (wire (requestId r) (finish_records r ze recs r2)) w2
    \<and> content_of FCGI_STDOUT (recs @ r2) = zo \<and> content_of FCGI_STDERR (recs @ r2) = ze"
proof -
  from session_err [OF assms(1)] obtain ot where
    e: "rec_sink.snk FCGI_STDERR r pre ot (attach e r w) ze" "only FCGI_STDOUT ot"
    and d: "zo = content_of FCGI_STDOUT ot @ seg 8 (wrNext d) (buff d)"
      "isAnythingWritten d \<longleftrightarrow> content_of FCGI_STDOUT ot \<noteq> []"
      "writer_inv FCGI_STDOUT r (attach d r w)" by blast
  let ?r1 = "r\<lparr>nWriters := 1\<rparr>" and ?r0 = "r\<lparr>nWriters := 0\<rparr>"
  from FClose_ok [OF e(1)] assms(2) obtain s1 recs where
    s1: "FCGX_FClose EmptyBuffProc (attach e r w) = Inr (0, s1)" "reqDataPtr s1 = ?r1" "tx_ok (ipcFd r) (os s1)"
      "transmitted (ipcFd r) pre (wire (requestId r) (recs @ close_records FCGI_STDERR r (ze = []))) (os s1)"
      "stream_recs FCGI_STDERR ot recs ze" by auto
  let ?recs = "recs @ close_records FCGI_STDERR r (ze = [])"
  have cr: "close_records FCGI_STDERR r (ze = []) = (if ze = [] then [] else [(FCGI_STDERR, [])])"
    using assms(2) by (simp add: close_records_def)
  have so: "stream_recs FCGI_STDOUT (filter (\<lambda>r. fst r \<noteq> FCGI_STDOUT) recs) recs (content_of FCGI_STDOUT ot)"
    using stream_recs_other [OF s1(5)] e(2) by simp
  then have "stream_recs FCGI_STDOUT (filter (\<lambda>r. fst r \<noteq> FCGI_STDOUT) ?recs) ?recs (content_of FCGI_STDOUT ot)"
    using cr by (auto simp: stream_recs_def)
  then have "out_rel pre FCGI_STDOUT (filter (\<lambda>r. fst r \<noteq> FCGI_STDOUT) ?recs) ?r1 (attach d ?r1 (os s1))
      (content_of FCGI_STDOUT ot)"
    unfolding out_rel_def emitted_def using s1(4) d(2) by (intro conjI exI [of _ ?recs]) auto
  then have "rec_sink.snk FCGI_STDOUT ?r1 pre (filter (\<lambda>r. fst r \<noteq> FCGI_STDOUT) ?recs) (attach d ?r1 (os s1)) zo"
    using d(1) writer_inv_move [OF d(3) s1(3), of 1] by (auto simp: rec_sink.snk_def)
  from FClose_ok [OF this] obtain s2 where
    s2: "FCGX_FClose EmptyBuffProc (attach d ?r1 (os s1)) = Inr (0, s2)" "reqDataPtr s2 = ?r0"
      "transmitted (ipcFd r) (os s1) (wire (requestId r) (pending FCGI_STDOUT (attach d ?r1 (os s1))
        @ close_records FCGI_STDOUT ?r1 (zo = []))) (os s2)" by auto
  let ?p = "pending FCGI_STDOUT (attach d ?r1 (os s1))"
  have "transmitted (ipcFd r) pre (wire (requestId r) (finish_records r ze recs ?p)) (os s2)"
    using transmitted_trans [OF s1(4) s2(3)] cr by (simp add: finish_records_def close_records_def wire_def)
  moreover have "content_of FCGI_STDOUT (recs @ ?p) = zo" "content_of FCGI_STDERR (recs @ ?p) = ze"
    using s1(5) so d(1) by (auto simp: pending_def stream_recs_def Let_def)
  ultimately show ?thesis
    using s1(1,2) s2(1,2) by (auto simp: close_writer_def)
qed

text \<open>Closing a connection that is not used for asynchronous I/O.\<close>

lemma IpcClose_ok:
  assumes "\<not> asyncIoInUse w" "0 \<le> fd" "opened (conns w fd)"
  shows "\<exists>es e cl. OS_IpcClose fd w =
    Inr (0, w\<lparr>errno := e, conns := (conns w)(fd := (conns w fd)\<lparr>rx := es, opened := False, ending := cl\<rparr>)\<rparr>)"
proof (cases "shutErr (conns w fd) = 0")
  case True
  obtain t e es where "rx_drain (errno w) (rx (conns w fd)) = (t, e, es)" by (metis prod_cases3)
  with True assms show ?thesis
    by (intro exI [of _ es] exI [of _ e] exI [of _ "ending (conns w fd) @ Shut 1 # map Discard t @ [Closed]"])
      (simp add: OS_IpcClose_def OS_Close_def sys_shutdown_def sys_close_def drain_conn_def)
next
  case False
  have "(conns w fd)\<lparr>rx := rx (conns w fd), opened := False, ending := cl\<rparr> = (conns w fd)\<lparr>opened := False, ending := cl\<rparr>" for cl
    by simp
  with False assms show ?thesis
    by (intro exI [of _ "rx (conns w fd)"] exI [of _ "shutErr (conns w fd)"] exI [of _ "ending (conns w fd) @ [Closed]"])
      (simp add: OS_IpcClose_def OS_Close_def sys_shutdown_def sys_close_def)
qed

lemma transmitted_keeps:
  "transmitted fd w b w' \<Longrightarrow> asyncIoInUse w' = asyncIoInUse w \<and> opened (conns w' fd) = opened (conns w fd)"
  by (auto simp: transmitted_def)

lemma Finish_ok:
  assumes s: "session pre (rdata req) d e w zo ze" "nWriters (rdata req) = 2"
    and req: "in_stream req = Some i" "out_stream req = Some d" "err_stream req = Some e"
      "paramsPtr req = Some p" "params_rel p es"
    and c: "\<not> asyncIoInUse pre" "0 \<le> ipcFd (rdata req)" "opened (conns pre (ipcFd (rdata req)))"
  defines "keep \<equiv> keepConnection (rdata req) \<and> FCGI_errno i = 0"
  shows "\<exists>req' w' recs r2. FCGX_Finish_r req w = Inr (req', w')
    \<and> sent (conns w' (ipcFd (rdata req))) =
        sent (conns pre (ipcFd (rdata req))) @ wire (requestId (rdata req)) (finish_records (rdata req) ze recs r2)
    \<and> content_of FCGI_STDOUT (recs @ r2) = zo \<and> content_of FCGI_STDERR (recs @ r2) = ze
    \<and> rdata req' = (rdata req)\<lparr>nWriters := 0, ipcFd := if keep then ipcFd (rdata req) else - 1\<rparr>
    \<and> in_stream req' = None \<and> out_stream req' = None \<and> err_stream req' = None \<and> paramsPtr req' = None
    \<and> opened (conns w' (ipcFd (rdata req))) = keep"
proof -
  let ?r = "rdata req"
  from close_both [OF s] obtain e' d' w1 w2 recs r2 where
    cb: "close_writer (Some e) ?r w = Inr (0, e', ?r\<lparr>nWriters := 1\<rparr>, w1)"
      "close_writer (Some d) (?r\<lparr>nWriters := 1\<rparr>) w1 = Inr (0, d', ?r\<lparr>nWriters := 0\<rparr>, w2)"
      "transmitted (ipcFd ?r) pre (wire (requestId ?r) (finish_records ?r ze recs r2)) w2"
      "content_of FCGI_STDOUT (recs @ r2) = zo" "content_of FCGI_STDERR (recs @ r2) = ze" by blast
  note sent2 = transmitted_sent [OF cb(3)]
  have w2: "\<not> asyncIoInUse w2" "opened (conns w2 (ipcFd ?r))" using transmitted_keeps [OF cb(3)] c by auto
  let ?req = "req\<lparr>err_stream := e', out_stream := d', rdata := ?r\<lparr>nWriters := 0\<rparr>\<rparr>"
  have fin: "FCGX_Finish_r req w = FCGX_Free ?req (\<not> keep) w2"
    using req cb(1,2) by (simp add: FCGX_Finish_r_def keep_def Let_def)
  show ?thesis
  proof (cases keep)
    case True
    with fin req w2 cb(4,5) sent2 FreeParams_rel [OF req(5)] show ?thesis
      by (intro exI [of _ "?req\<lparr>in_stream := None, out_stream := None, err_stream := None, paramsPtr := None\<rparr>"]
          exI [of _ w2] exI [of _ recs] exI [of _ r2]) (simp add: FCGX_Free_def FCGX_FreeStream_def Let_def)
  next
    case False
    from IpcClose_ok [OF w2(1) c(2) w2(2)] obtain rs er cl where
      "OS_IpcClose (ipcFd ?r) w2 = Inr (0, w2\<lparr>errno := er,
        conns := (conns w2)(ipcFd ?r := (conns w2 (ipcFd ?r))\<lparr>rx := rs, opened := False, ending := cl\<rparr>)\<rparr>)" by blast
    with False fin req cb(4,5) sent2 FreeParams_rel [OF req(5)] show ?thesis
      by (simp add: FCGX_Free_def FCGX_FreeStream_def Let_def) blast
  qed
qed

section \<open>Writing a response\<close>

text \<open>
  An application that writes to the two output streams of its request, in any order: the flag
  chooses the error stream.
\<close>

definition app_write :: "nat \<Rightarrow> bool \<times> bytes \<Rightarrow> FCGX_Request \<Rightarrow> os_unix \<Rightarrow> (FCGX_Request \<times> os_unix) res" where
  "app_write k wr req w =
     (case (if fst wr then err_stream req else out_stream req) of
        None \<Rightarrow> Inl NullDeref
      | Some d \<Rightarrow> bindR (FCGX_PutStr EmptyBuffProc k (snd wr) (attach d (rdata req) w)) (\<lambda>(_, s).
          Inr (if fst wr then req\<lparr>err_stream := Some (detach s), rdata := reqDataPtr s\<rparr>
               else req\<lparr>out_stream := Some (detach s), rdata := reqDataPtr s\<rparr>, os s)))"

primrec app_writes :: "nat \<Rightarrow> (bool \<times> bytes) list \<Rightarrow> FCGX_Request \<Rightarrow> os_unix \<Rightarrow> (FCGX_Request \<times> os_unix) res" where
  "app_writes k [] req w = Inr (req, w)"
| "app_writes k (wr # wrs) req w = bindR (app_write k wr req w) (\<lambda>(req, w). app_writes k wrs req w)"

definition written :: "bool \<Rightarrow> (bool \<times> bytes) list \<Rightarrow> bytes" where
  "written err wrs = concat (map snd (filter (\<lambda>wr. fst wr = err) wrs))"

lemma attach_eq: "reqDataPtr s = r \<Longrightarrow> attach (detach s) r (os s) = s"
  using attach_detach [of s] by simp

lemma app_write_session:
  assumes s: "session pre (rdata req) d e w zo ze" "out_stream req = Some d" "err_stream req = Some e"
    and k: "length (snd wr) < k"
  shows "\<exists>d' e' w'. app_write k wr req w = Inr (req\<lparr>out_stream := Some d', err_stream := Some e'\<rparr>, w')
    \<and> session pre (rdata req) d' e' w' (zo @ written False [wr]) (ze @ written True [wr])"
proof (cases "fst wr")
  case True
  from session_err [OF s(1)] obtain ot where
    e: "rec_sink.snk FCGI_STDERR (rdata req) pre ot (attach e (rdata req) w) ze" "only FCGI_STDOUT ot"
    and d: "zo = content_of FCGI_STDOUT ot @ seg 8 (wrNext d) (buff d)"
      "isAnythingWritten d \<longleftrightarrow> content_of FCGI_STDOUT ot \<noteq> []"
      "writer_inv FCGI_STDOUT (rdata req) (attach d (rdata req) w)" by blast
  from rec_sink.PutStr_snk [OF e(1) k] obtain s' where
    s': "FCGX_PutStr EmptyBuffProc k (snd wr) (attach e (rdata req) w) = Inr (int (length (snd wr)), s')"
      "rec_sink.snk FCGI_STDERR (rdata req) pre ot s' (ze @ snd wr)" by blast
  have r: "reqDataPtr s' = rdata req" using s'(2) by (simp add: rec_sink.snk_def writer_inv_def)
  with s'(2) session_from_err [of "rdata req" pre ot "detach s'" "os s'" "ze @ snd wr" d w] e(2) d
  have "session pre (rdata req) d (detach s') (os s') zo (ze @ snd wr)" by (simp add: attach_eq)
  with True s'(1) s(2,3) r show ?thesis
    by (intro exI [of _ d] exI [of _ "detach s'"] exI [of _ "os s'"]) (simp add: app_write_def written_def)
next
  case False
  from session_out [OF s(1)] obtain ot where
    e: "rec_sink.snk FCGI_STDOUT (rdata req) pre ot (attach d (rdata req) w) zo" "only FCGI_STDERR ot"
    and d: "ze = content_of FCGI_STDERR ot @ seg 8 (wrNext e) (buff e)"
      "isAnythingWritten e \<longleftrightarrow> content_of FCGI_STDERR ot \<noteq> []"
      "writer_inv FCGI_STDERR (rdata req) (attach e (rdata req) w)" by blast
  from rec_sink.PutStr_snk [OF e(1) k] obtain s' where
    s': "FCGX_PutStr EmptyBuffProc k (snd wr) (attach d (rdata req) w) = Inr (int (length (snd wr)), s')"
      "rec_sink.snk FCGI_STDOUT (rdata req) pre ot s' (zo @ snd wr)" by blast
  have r: "reqDataPtr s' = rdata req" using s'(2) by (simp add: rec_sink.snk_def writer_inv_def)
  with s'(2) session_from_out [of "rdata req" pre ot "detach s'" "os s'" "zo @ snd wr" e w] e(2) d
  have "session pre (rdata req) (detach s') e (os s') (zo @ snd wr) ze" by (simp add: attach_eq)
  with False s'(1) s(2,3) r show ?thesis
    by (intro exI [of _ "detach s'"] exI [of _ e] exI [of _ "os s'"]) (simp add: app_write_def written_def)
qed

lemma request_id_update:
  "out_stream req = Some d \<Longrightarrow> err_stream req = Some e \<Longrightarrow> req\<lparr>out_stream := Some d, err_stream := Some e\<rparr> = req"
  by (cases req) simp

lemma app_writes_session:
  assumes "session pre (rdata req) d e w zo ze" "out_stream req = Some d" "err_stream req = Some e"
    and "\<forall>wr \<in> set wrs. length (snd wr) < k"
  shows "\<exists>d' e' w'. app_writes k wrs req w = Inr (req\<lparr>out_stream := Some d', err_stream := Some e'\<rparr>, w')
    \<and> session pre (rdata req) d' e' w' (zo @ written False wrs) (ze @ written True wrs)"
  using assms
proof (induction wrs arbitrary: req d e w zo ze)
  case Nil
  with request_id_update [OF Nil(2,3)] show ?case
    by (intro exI [of _ d] exI [of _ e] exI [of _ w]) (simp only: app_writes.simps written_def list.simps
        filter.simps concat.simps append_Nil2)
next
  case (Cons wr wrs)
  have k: "length (snd wr) < k" "\<forall>wr \<in> set wrs. length (snd wr) < k" using Cons.prems(4) by simp_all
  obtain d1 e1 w1 where
    1: "app_write k wr req w = Inr (req\<lparr>out_stream := Some d1, err_stream := Some e1\<rparr>, w1)"
      "session pre (rdata req) d1 e1 w1 (zo @ written False [wr]) (ze @ written True [wr])"
    using app_write_session [OF Cons.prems(1-3) k(1)] by blast
  let ?req = "req\<lparr>out_stream := Some d1, err_stream := Some e1\<rparr>"
  have s: "session pre (rdata ?req) d1 e1 w1 (zo @ written False [wr]) (ze @ written True [wr])"
    "out_stream ?req = Some d1" "err_stream ?req = Some e1" using 1(2) by simp_all
  obtain d' e' w' where
    2: "app_writes k wrs ?req w1 = Inr (?req\<lparr>out_stream := Some d', err_stream := Some e'\<rparr>, w')"
      "session pre (rdata ?req) d' e' w' ((zo @ written False [wr]) @ written False wrs)
        ((ze @ written True [wr]) @ written True wrs)"
    using Cons.IH [OF s k(2)] by blast
  have "written b (wr # wrs) = written b [wr] @ written b wrs" for b by (simp add: written_def)
  with 1(1) 2 show ?case by (intro exI [of _ d'] exI [of _ e'] exI [of _ w']) simp
qed

lemma fresh_session:
  assumes "fresh_writer FCGI_STDOUT r d w" "fresh_writer FCGI_STDERR r e w"
  shows "session w r d e w [] []"
  using assms transmitted_Nil unfolding session_def
  by (intro conjI exI [of _ "[]"]) (auto simp: fresh_writer_def stream_recs_def)

text \<open>An accepted request, answered and finished.\<close>

lemma respond_ok:
  assumes acc: "accepted req w L es" and k: "\<forall>wr \<in> set wrs. length (snd wr) < k"
    and c: "\<not> asyncIoInUse w" "0 \<le> ipcFd (rdata req)" "opened (conns w (ipcFd (rdata req)))"
  shows "\<exists>req1 w1 req2 w2 recs r2. app_writes k wrs req w = Inr (req1, w1) \<and> FCGX_Finish_r req1 w1 = Inr (req2, w2)
    \<and> sent (conns w2 (ipcFd (rdata req))) = sent (conns w (ipcFd (rdata req)))
        @ wire (requestId (rdata req)) (finish_records (rdata req) (written True wrs) recs r2)
    \<and> content_of FCGI_STDOUT (recs @ r2) = written False wrs \<and> content_of FCGI_STDERR (recs @ r2) = written True wrs
    \<and> opened (conns w2 (ipcFd (rdata req))) = keepConnection (rdata req)
    \<and> rdata req2 = (rdata req)\<lparr>nWriters := 0, ipcFd := if keepConnection (rdata req) then ipcFd (rdata req) else - 1\<rparr>
    \<and> in_stream req2 = None \<and> out_stream req2 = None \<and> err_stream req2 = None \<and> paramsPtr req2 = None"
proof -
  obtain i d e p where a: "in_stream req = Some i" "out_stream req = Some d" "err_stream req = Some e"
    "paramsPtr req = Some p" "params_rel p es" "nWriters (rdata req) = 2"
    "fresh_writer FCGI_STDOUT (rdata req) d w" "fresh_writer FCGI_STDERR (rdata req) e w"
    "ready_reader FCGI_STDIN (rdata req) i w L"
    using acc unfolding accepted_def by blast
  have i: "FCGI_errno i = 0" using a(9) by (simp add: ready_reader_def stream_inv_def reader_frame_def)
  from app_writes_session [OF fresh_session [OF a(7,8)] a(2,3) k] obtain d' e' w' where
    s: "app_writes k wrs req w = Inr (req\<lparr>out_stream := Some d', err_stream := Some e'\<rparr>, w')"
      "session w (rdata req) d' e' w' (written False wrs) (written True wrs)" by auto
  let ?req = "req\<lparr>out_stream := Some d', err_stream := Some e'\<rparr>"
  have "session w (rdata ?req) d' e' w' (written False wrs) (written True wrs)" using s(2) by simp
  from Finish_ok [OF this, of i p es, simplified, OF a(6,1,4,5) c] i obtain req2 w2 recs r2 where
    f: "FCGX_Finish_r ?req w' = Inr (req2, w2)"
      "sent (conns w2 (ipcFd (rdata req))) = sent (conns w (ipcFd (rdata req)))
        @ wire (requestId (rdata req)) (finish_records (rdata req) (written True wrs) recs r2)"
      "content_of FCGI_STDOUT (recs @ r2) = written False wrs" "content_of FCGI_STDERR (recs @ r2) = written True wrs"
      "rdata req2 = (rdata req)\<lparr>nWriters := 0, ipcFd := if keepConnection (rdata req) then ipcFd (rdata req) else - 1\<rparr>"
      "in_stream req2 = None" "out_stream req2 = None" "err_stream req2 = None" "paramsPtr req2 = None"
      "opened (conns w2 (ipcFd (rdata req))) = keepConnection (rdata req)" by (elim exE conjE) simp
  show ?thesis
    by (rule exI [of _ ?req], rule exI [of _ w'], rule exI [of _ req2], rule exI [of _ w2], rule exI [of _ recs],
        rule exI [of _ r2]) (use s(1) f in simp)
qed

section \<open>A request as a web server sends it\<close>

definition begin_body :: "int \<Rightarrow> byte \<Rightarrow> bytes" where
  "begin_body rl fl = [byte_at 8 rl, byte_at 0 rl, fl, 0, 0, 0, 0, 0]"

definition request_bytes ::
  "int \<Rightarrow> int \<Rightarrow> byte \<Rightarrow> (int \<times> bytes) list \<Rightarrow> (int \<times> bytes) list \<Rightarrow> bytes \<Rightarrow> bytes" where
  "request_bytes rid rl fl precs srecs tail =
     record_bytes FCGI_BEGIN_REQUEST rid (begin_body rl fl) []
     @ wire rid precs @ record_bytes FCGI_PARAMS rid [] []
     @ wire rid srecs @ record_bytes FCGI_STDIN rid [] [] @ tail"

definition stream_records :: "int \<Rightarrow> (int \<times> bytes) list \<Rightarrow> bool" where
  "stream_records ty recs \<longleftrightarrow> (\<forall>(t, c) \<in> set recs. t = ty \<and> c \<noteq> [] \<and> length c \<le> 65535)"

lemma deliver_stream:
  assumes "rm_type md \<noteq> FCGI_BEGIN_REQUEST" "0 \<le> rm_type md" "rm_type md \<le> 255" "0 < rm_id md" "rm_id md \<le> 65535"
    and "stream_records (rm_type md) recs"
  shows "deliver md 0 0 False (wire (rm_id md) recs @ record_bytes (rm_type md) (rm_id md) [] [] @ L) =
    (content_of (rm_type md) recs, [], EndOfStream L 0 False)"
  using deliver_wire [OF assms(1-5), of recs "record_bytes (rm_type md) (rm_id md) [] [] @ L"] assms(6)
    deliver_stream_record [OF assms(1-5), of "[]" "[]" L]
  by (simp add: stream_records_def)

lemma deliver_begin:
  assumes "0 < rid" "rid \<le> 65535" "\<not> rm_begun md" "length b = 8" "length pad \<le> 255"
  shows "deliver md 0 0 False (record_bytes FCGI_BEGIN_REQUEST rid b pad @ L) =
    ([], [], BeginRequest rid (begin_body_of b) (pad @ L) (length pad))"
proof -
  note f = mk_header_fields [of FCGI_BEGIN_REQUEST rid 8 "length pad"]
  have "record_step md False (mk_header FCGI_BEGIN_REQUEST rid 8 (length pad)) (b @ pad @ L) =
      Inl ([], BeginRequest rid (begin_body_of b) (pad @ L) (length pad))"
    using assms f by (simp add: record_step_def Let_def)
  then show ?thesis using assms(4)
    by (simp add: record_bytes_def deliver_header header_of_bytes [of _ "[]", simplified])
qed

definition begun_by :: "ReqData \<Rightarrow> int \<Rightarrow> int \<Rightarrow> byte \<Rightarrow> ReqData" where
  "begun_by r rid rl fl = r\<lparr>requestId := rid, keepConnection := (fl AND FCGI_KEEP_CONN \<noteq> 0), role := rl,
     isBeginProcessed := True\<rparr>"

lemma incoming_request:
  assumes rid: "0 < rid" "rid \<le> 65535" and rl: "role_string rl = Some roleStr"
    and p: "stream_records FCGI_PARAMS precs" "content_of FCGI_PARAMS precs = encode_pairs kvs"
      "\<forall>kv \<in> set kvs. pair_fits (heapLimit w) kv"
      "16 * Suc (length kvs) \<le> heapLimit w" "2 * int (Suc (length kvs)) \<le> INT_MAX"
  shows "incoming w r (request_bytes rid rl fl precs srecs tail) =
    Some (begun_by r rid rl fl, roleStr, kvs, [],
      wire rid srecs @ record_bytes FCGI_STDIN rid [] [] @ tail)"
proof -
  let ?b = "begin_body_of (begin_body rl fl)" and ?L = "wire rid srecs @ record_bytes FCGI_STDIN rid [] [] @ tail"
  let ?r = "begun (r\<lparr>isBeginProcessed := False\<rparr>) rid ?b"
  have rl3: "rl = 1 \<or> rl = 2 \<or> rl = 3" using rl by (auto simp: role_string_def split: if_splits)
  then have rb: "short_of (roleB1 ?b) (roleB0 ?b) = rl"
    using short_of_bytes [of rl] by (auto simp: begin_body_of_def begin_body_def)
  then have r: "?r = begun_by r rid rl fl"
    by (simp add: begun_def begun_by_def begin_body_of_def begin_body_def)
  have d0: "deliver (mode_for 0 (r\<lparr>isBeginProcessed := False\<rparr>) w) 0 0 False
      (record_bytes FCGI_BEGIN_REQUEST rid (begin_body rl fl) [] @ L) = ([], [], BeginRequest rid ?b L 0)" for L
    using deliver_begin [OF rid, of "mode_for 0 (r\<lparr>isBeginProcessed := False\<rparr>) w" "begin_body rl fl" "[]" L]
    by (simp add: mode_for_def begin_body_def)
  have "rm_id (mode_for FCGI_PARAMS ?r w) = rid" "rm_type (mode_for FCGI_PARAMS ?r w) = FCGI_PARAMS"
    by (simp_all add: mode_for_def begun_def)
  then have "deliver (mode_for FCGI_PARAMS ?r w) 0 0 False (wire rid precs @ record_bytes FCGI_PARAMS rid [] [] @ ?L) =
      (encode_pairs kvs, [], EndOfStream ?L 0 False)"
    using deliver_stream [of "mode_for FCGI_PARAMS ?r w" precs ?L] rid p(1,2) by simp
  then show ?thesis
    unfolding incoming_def request_bytes_def Let_def d0
    using rl rb p(3-5) parse_pairs_encode [OF p(3)] r by simp
qed

text \<open>Reading the input of an accepted request to its end.\<close>

lemma ready_input_src:
  assumes "ready_reader ty r d w (wire (requestId r) recs @ record_bytes ty (requestId r) [] [] @ tail)"
    and "stream_records ty recs" "ty \<noteq> FCGI_BEGIN_REQUEST" "0 \<le> ty" "ty \<le> 255" "0 < requestId r" "requestId r \<le> 65535"
    and "length (wire (requestId r) recs @ record_bytes ty (requestId r) [] [] @ tail) < k"
  shows "str.src k (mode_for ty r w) r (EndOfStream tail 0 False) w [] (attach d r w) (content_of ty recs)"
    and "length (content_of ty recs) < k"
proof -
  let ?md = "mode_for ty r w" and ?L = "wire (requestId r) recs @ record_bytes ty (requestId r) [] [] @ tail"
  have md: "rm_type ?md = ty" "rm_id ?md = requestId r" by (simp_all add: mode_for_def)
  have d: "deliver ?md 0 0 False ?L = (content_of ty recs, [], EndOfStream tail 0 False)"
    using deliver_stream [of ?md recs tail] md assms(2-7) by simp
  show "str.src k ?md r (EndOfStream tail 0 False) w [] (attach d r w) (content_of ty recs)"
    unfolding str.src_def str_inv_def str_rest_def
    using assms(1,8) d by (auto simp: ready_reader_def window_def mode_for_def)
  show "length (content_of ty recs) < k" using deliver_length [OF d] assms(8) by simp
qed

lemma read_input:
  assumes "ready_reader ty r d w (wire (requestId r) recs @ record_bytes ty (requestId r) [] [] @ tail)"
    and "stream_records ty recs" "ty \<noteq> FCGI_BEGIN_REQUEST" "0 \<le> ty" "ty \<le> 255" "0 < requestId r" "requestId r \<le> 65535"
    and "length (wire (requestId r) recs @ record_bytes ty (requestId r) [] [] @ tail) < k"
    and "int (length (content_of ty recs)) < n"
  shows "\<exists>s. FCGX_GetStr (FillBuffProc k []) k n (attach d r w) = Inr (content_of ty recs, s)
    \<and> isClosed s \<and> FCGI_errno s = 0 \<and> reqDataPtr s = r"
proof -
  have "length (content_of ty recs) < nat n" "0 \<le> n" using assms(9) by linarith+
  with str.GetStr_short [OF ready_input_src [OF assms(1-8)], of n] obtain s where
    "FCGX_GetStr (FillBuffProc k []) k n (attach d r w) = Inr (content_of ty recs, s)"
    "str_fin (mode_for ty r w) r w [] (EndOfStream tail 0 False) s" by auto
  then show ?thesis by (auto simp: str_fin_def ended_def reader_frame_def)
qed

section \<open>From a writer to a reader\<close>

primrec put_all :: "nat \<Rightarrow> bytes list \<Rightarrow> stream_io \<Rightarrow> stream_io res" where
  "put_all k [] s = Inr s"
| "put_all k (b # bs) s = bindR (FCGX_PutStr EmptyBuffProc k b s) (\<lambda>(_, s). put_all k bs s)"

text \<open>The bytes that go out when \<open>strs\<close> are written to a stream and it is closed.\<close>

definition transmit :: "nat \<Rightarrow> bytes list \<Rightarrow> stream_io \<Rightarrow> bytes res" where
  "transmit k strs s =
     bindR (put_all k strs s) (\<lambda>s1.
     bindR (FCGX_FClose EmptyBuffProc s1) (\<lambda>(_, s2).
     let fd = ipcFd (reqDataPtr s) in
     Inr (drop (length (sent (conns (os s) fd))) (sent (conns (os s2) fd)))))"

lemma put_all_snk:
  assumes "rec_sink.snk ty r pre ot s zs" "\<forall>b \<in> set strs. length b < k"
  shows "\<exists>s'. put_all k strs s = Inr s' \<and> rec_sink.snk ty r pre ot s' (zs @ concat strs)"
  using assms
proof (induction strs arbitrary: s zs)
  case Nil
  then show ?case by simp
next
  case (Cons b strs)
  then obtain s1 where "FCGX_PutStr EmptyBuffProc k b s = Inr (int (length b), s1)"
    "rec_sink.snk ty r pre ot s1 (zs @ b)" using rec_sink.PutStr_snk [of ty r pre ot s zs b k] by auto
  with Cons.IH [of s1 "zs @ b"] Cons.prems(2) show ?case by simp
qed

lemma transmit_ok:
  assumes w: "writer_inv ty r s" "wrNext s = 8" "\<not> isAnythingWritten s"
    and n: "nWriters r \<noteq> 1" "\<forall>b \<in> set strs. length b < k" "ty = FCGI_STDERR \<longrightarrow> concat strs \<noteq> []"
  shows "\<exists>recs. transmit k strs s = Inr (wire (requestId r) recs @ record_bytes ty (requestId r) [] [])
    \<and> stream_records ty recs \<and> content_of ty recs = concat strs"
proof -
  have r: "reqDataPtr s = r" using w(1) by (simp add: writer_inv_def)
  have "rec_sink.snk ty r (os s) [] s []"
    using w transmitted_Nil unfolding rec_sink.snk_def out_rel_def emitted_def
    by (intro conjI exI [of _ "[]"]) (auto simp: stream_recs_def)
  then obtain s1 where s1: "put_all k strs s = Inr s1" "rec_sink.snk ty r (os s) [] s1 (concat strs)"
    using put_all_snk [OF _ n(2)] by fastforce
  from FClose_ok [OF s1(2)] obtain s2 recs where s2: "FCGX_FClose EmptyBuffProc s1 = Inr (0, s2)"
    "transmitted (ipcFd r) (os s) (wire (requestId r) (recs @ close_records ty r (concat strs = []))) (os s2)"
    "stream_recs ty [] recs (concat strs)" by blast
  have cr: "close_records ty r (concat strs = []) = [(ty, [])]" using n(1,3) by (simp add: close_records_def)
  have "wire (requestId r) [(ty, [])] = record_bytes ty (requestId r) [] []"
    by (simp add: wrap_record_bytes pad_of_def)
  then have "transmit k strs s = Inr (wire (requestId r) recs @ record_bytes ty (requestId r) [] [])"
    using s1(1) s2(1) transmitted_sent [OF s2(2)] cr r by (simp add: transmit_def)
  moreover have "stream_records ty recs" "content_of ty recs = concat strs"
    using s2(3) by (fastforce simp: stream_recs_def stream_records_def filter_empty_conv)+
  ultimately show ?thesis by blast
qed

lemma new_ready_reader:
  assumes "conn_ok (ipcFd r) w" "isBeginProcessed r"
  shows "\<exists>d. NewReader len ty w = Inr (d, w\<lparr>mallocCount := Suc (mallocCount w)\<rparr>)
    \<and> ready_reader ty r d (w\<lparr>mallocCount := Suc (mallocCount w)\<rparr>) (rx_bytes (rx (conns w (ipcFd r))))"
proof -
  from NewStream_ok [of w len True ty] assms obtain d where
    "NewReader len ty w = Inr (d, w\<lparr>mallocCount := Suc (mallocCount w)\<rparr>)"
    "24 \<le> bufflen d \<and> bufflen d \<le> 65536 \<and> length (buff d) = bufflen d
    \<and> isReader d \<and> \<not> isClosed d \<and> FCGI_errno d = 0 \<and> stype d = ty
    \<and> \<not> eorStop d \<and> \<not> skip d \<and> contentLen d = 0 \<and> paddingLen d = 0
    \<and> rdNext d = 0 \<and> stop d = 0 \<and> buffStop d = 0"
    unfolding NewReader_def conn_ok_def by auto
  then show ?thesis using assms
    by (intro exI [of _ d]) (auto simp: ready_reader_def stream_inv_def reader_frame_def conn_ok_def mode_for_def tx_ok_def
        avail_def input_from_def)
qed

text \<open>A concrete output stream.\<close>

definition demo_writer :: stream_io where
  "demo_writer = attach (fst (projr (NewWriter 64 FCGI_STDOUT idle_os)))
     (zero_data\<lparr>requestId := 7, ipcFd := 3, nWriters := 2\<rparr>) idle_os"

lemma demo_writer:
  "writer_inv FCGI_STDOUT (zero_data\<lparr>requestId := 7, ipcFd := 3, nWriters := 2\<rparr>) demo_writer"
  "wrNext demo_writer = 8" "\<not> isAnythingWritten demo_writer"
proof -
  obtain d where "NewWriter 64 FCGI_STDOUT idle_os = Inr (d, idle_os\<lparr>mallocCount := Suc 0\<rparr>)"
    "writer_inv FCGI_STDOUT (zero_data\<lparr>requestId := 7, ipcFd := 3, nWriters := 2\<rparr>)
      (attach d (zero_data\<lparr>requestId := 7, ipcFd := 3, nWriters := 2\<rparr>) idle_os)" "wrNext d = 8" "\<not> isAnythingWritten d"
    using new_writer [of idle_os "zero_data\<lparr>requestId := 7, ipcFd := 3, nWriters := 2\<rparr>" 64 FCGI_STDOUT]
    by (auto simp: HEAP_MIN_def tx_ok_def)
  then show "writer_inv FCGI_STDOUT (zero_data\<lparr>requestId := 7, ipcFd := 3, nWriters := 2\<rparr>) demo_writer"
    "wrNext demo_writer = 8" "\<not> isAnythingWritten demo_writer"
    by (simp_all add: demo_writer_def)
qed

text \<open>A server that sends one request.\<close>

definition demo_pairs :: "(bytes \<times> bytes) list" where
  "demo_pairs = [(chars ''A'', chars ''b'')]"

definition demo_conn :: conn where
  "demo_conn = idle_conn\<lparr>rx := [RData (request_bytes 1 1 0 [(FCGI_PARAMS, encode_pairs demo_pairs)]
     [(FCGI_STDIN, chars ''hi'')] [])]\<rparr>"

definition demo_os :: os_unix where
  "demo_os = idle_os\<lparr>accepts := [AccConn 5 Sockaddr_un demo_conn False]\<rparr>"

definition demo_lib :: fcgx_lib where
  "demo_lib = \<lparr>libInitialized = True, isFastCGI = 1, webServerAddressList = None,
     the_request = snd (FCGX_InitRequest 0 0), getenv = (\<lambda>_. None)\<rparr>"

lemma demo_length: "length (request_bytes 1 1 0 [(FCGI_PARAMS, encode_pairs demo_pairs)] [(FCGI_STDIN, chars ''hi'')] []) = 64"
  by (simp add: request_bytes_def record_bytes_def begin_body_def wire_def wrap_record_def demo_pairs_def
      encode_pairs_def encode_pair_def encode_len_def chars_def pad_of_def)

end
