(* ===== verification/Fcgi_Wire.thy ===== *)
theory Fcgi_Wire
  imports Fcgi_Request
begin

text \<open>
  What the reader of a request makes of the traffic on a connection: records of the stream mixed
  with records of other requests, begin records and management records; name-value pairs that are
  well formed, broken off or hostile; and record sequences on which the library departs from the
  FastCGI specification.
\<close>

section \<open>Reading from a ready reader\<close>

lemma ready_src:
  assumes "ready_reader ty r d w L" "deliver (mode_for ty r w) 0 0 False L = (xs, out, e)" "e \<noteq> Undef" "length L < k"
  shows "str.src k (mode_for ty r w) r e w out (attach d r w) xs"
  unfolding str.src_def str_inv_def str_rest_def
  using assms by (auto simp: ready_reader_def window_def mode_for_def)

lemma read_ready:
  assumes "ready_reader ty r d w L" "deliver (mode_for ty r w) 0 0 False L = (xs, out, EndOfStream left p sk)" "length L < k"
    "int (length xs) < n"
  shows "\<exists>s. FCGX_GetStr (FillBuffProc k []) k n (attach d r w) = Inr (xs, s) \<and> isClosed s \<and> FCGI_errno s = 0
    \<and> reqDataPtr s = r \<and> sent (conns (os s) (ipcFd r)) = sent (conns w (ipcFd r)) @ out"
proof -
  have "length xs < k" using deliver_length [OF assms(2)] assms(3) by simp
  moreover have "length xs < nat n" "0 \<le> n" using assms(4) by linarith+
  ultimately obtain s where "FCGX_GetStr (FillBuffProc k []) k n (attach d r w) = Inr (xs, s)"
    "str_fin (mode_for ty r w) r w out (EndOfStream left p sk) s"
    using str.GetStr_short [OF ready_src [OF assms(1,2) _ assms(3)], of k n] by auto
  then show ?thesis using traffic_keeps(5) by (auto simp: str_fin_def ended_def reader_frame_def)
qed

section \<open>Mixed traffic\<close>

text \<open>
  One record a reader may meet before the end of its stream: of its own stream, of another request,
  the begin of another request, a question for values, or an unknown management record without
  content.
\<close>

datatype item = Own bytes bytes | Foreign int int bytes bytes | Begin int bytes bytes | Values "(bytes \<times> bytes) list" bytes
  | Unknown int bytes

fun item_bytes :: "int \<Rightarrow> int \<Rightarrow> item \<Rightarrow> bytes" where
  "item_bytes ty rid (Own c pad) = record_bytes ty rid c pad"
| "item_bytes ty rid (Foreign t i c pad) = record_bytes t i c pad"
| "item_bytes ty rid (Begin i body pad) = record_bytes FCGI_BEGIN_REQUEST i body pad"
| "item_bytes ty rid (Values kvs pad) = record_bytes FCGI_GET_VALUES 0 (encode_pairs kvs) pad"
| "item_bytes ty rid (Unknown t pad) = record_bytes t 0 [] pad"

fun item_content :: "item \<Rightarrow> bytes" where
  "item_content (Own c pad) = c"
| "item_content _ = []"

fun item_reply :: "(nat \<Rightarrow> byte) \<Rightarrow> item \<Rightarrow> bytes" where
  "item_reply fr (Begin i body pad) = refuse_reply i"
| "item_reply fr (Values kvs pad) = the (values_reply fr (map pair_entry kvs))"
| "item_reply fr (Unknown t pad) = unknown_reply t"
| "item_reply fr _ = []"

fun item_ok :: "rmode \<Rightarrow> item \<Rightarrow> bool" where
  "item_ok md (Own c pad) \<longleftrightarrow> c \<noteq> [] \<and> length c \<le> 65535 \<and> length pad \<le> 255"
| "item_ok md (Foreign t i c pad) \<longleftrightarrow> t \<noteq> FCGI_BEGIN_REQUEST \<and> 0 \<le> t \<and> t \<le> 255 \<and> 0 < i \<and> i \<le> 65535 \<and> i \<noteq> rm_id md
     \<and> c \<noteq> [] \<and> length c \<le> 65535 \<and> length pad \<le> 255"
| "item_ok md (Begin i body pad) \<longleftrightarrow> 0 < i \<and> i \<le> 65535 \<and> length body = 8 \<and> length pad \<le> 255"
| "item_ok md (Values kvs pad) \<longleftrightarrow> (\<forall>kv \<in> set kvs. pair_fits (rm_lim md) kv)
     \<and> values_reply (rm_fresh md) (map pair_entry kvs) \<noteq> None \<and> length (encode_pairs kvs) \<le> 65535 \<and> length pad \<le> 255"
| "item_ok md (Unknown t pad) \<longleftrightarrow> t \<noteq> FCGI_BEGIN_REQUEST \<and> t \<noteq> FCGI_GET_VALUES \<and> 0 \<le> t \<and> t \<le> 255 \<and> length pad \<le> 255"

lemma deliver_record:
  "deliver md 0 0 sk (record_bytes ty rid c pad @ rest) =
    (case record_step md sk (mk_header ty rid (length c) (length pad)) (c @ pad @ rest) of Inl (out, e) \<Rightarrow> ([], out, e)
     | Inr (out, c', p', sk', bs') \<Rightarrow>
         (case deliver md c' p' sk' bs' of (xs, outs, e) \<Rightarrow> (xs, out @ outs, e)))"
  by (simp add: record_bytes_def deliver_header header_of_bytes [of _ "[]", simplified])

lemma deliver_item:
  assumes "item_ok md i" "rm_begun md" "rm_type md \<noteq> FCGI_BEGIN_REQUEST" "0 \<le> rm_type md" "rm_type md \<le> 255"
    "0 < rm_id md" "rm_id md \<le> 65535" "8 \<le> length rest"
  shows "deliver md 0 0 False (item_bytes (rm_type md) (rm_id md) i @ rest) =
    (case deliver md 0 0 False rest of (xs, out, e) \<Rightarrow> (item_content i @ xs, item_reply (rm_fresh md) i @ out, e))"
proof (cases i)
  case (Own c pad)
  then show ?thesis using deliver_stream_record [OF assms(3-7), of c pad rest] assms(1) by (simp split: prod.split)
next
  case (Foreign t j c pad)
  then show ?thesis using deliver_foreign_record [of t j md c pad False rest] assms(1) by (simp split: prod.split)
next
  case (Begin j body pad)
  note f = mk_header_fields [of FCGI_BEGIN_REQUEST j "length body" "length pad"]
  have "record_step md False (mk_header FCGI_BEGIN_REQUEST j (length body) (length pad)) (body @ pad @ rest) =
      Inr (refuse_reply j, length body, length pad, True, body @ pad @ rest)"
    using assms(1,2) Begin f by (simp add: record_step_def Let_def)
  moreover have "body \<noteq> []" using assms(1) Begin by auto
  ultimately show ?thesis using Begin deliver_body [of md body pad True rest] by (simp add: deliver_record split: prod.split)
next
  case (Values kvs pad)
  let ?b = "encode_pairs kvs"
  note f = mk_header_fields [of FCGI_GET_VALUES 0 "length ?b" "length pad"]
  have p: "parse_pairs (rm_lim md) ?b = Some (kvs, True)" using parse_pairs_encode assms(1) Values by simp
  obtain reply where v: "values_reply (rm_fresh md) (map pair_entry kvs) = Some reply" using assms(1) Values by auto
  have "body_complete (length ?b) (length pad) False (?b @ pad @ rest)" using assms(8) by (auto simp: body_complete_def)
  then have "record_step md False (mk_header FCGI_GET_VALUES 0 (length ?b) (length pad)) (?b @ pad @ rest) =
      Inr (reply, 0, 0, False, rest)"
    using assms(1) Values f p v by (simp add: record_step_def get_values_step_def Let_def)
  then show ?thesis using Values v by (simp add: deliver_record split: prod.split)
next
  case (Unknown t pad)
  note f = mk_header_fields [of t 0 0 "length pad"]
  have "record_step md False (mk_header t 0 0 (length pad)) (pad @ rest) = Inr (unknown_reply t, 0, length pad, False, pad @ rest)"
    using assms(1) Unknown f by (simp add: record_step_def Let_def)
  then show ?thesis using Unknown deliver_body [of md "[]" pad False rest] by (simp add: deliver_record split: prod.split)
qed

lemma deliver_items:
  assumes "\<forall>i \<in> set items. item_ok md i" "rm_begun md" "rm_type md \<noteq> FCGI_BEGIN_REQUEST" "0 \<le> rm_type md" "rm_type md \<le> 255"
    "0 < rm_id md" "rm_id md \<le> 65535" "8 \<le> length rest"
  shows "deliver md 0 0 False (concat (map (item_bytes (rm_type md) (rm_id md)) items) @ rest) =
    (case deliver md 0 0 False rest of (xs, out, e) \<Rightarrow>
       (concat (map item_content items) @ xs, concat (map (item_reply (rm_fresh md)) items) @ out, e))"
  using assms(1)
proof (induction items)
  case (Cons i items)
  let ?r = "concat (map (item_bytes (rm_type md) (rm_id md)) items) @ rest"
  have "8 \<le> length ?r" using assms(8) by simp
  from deliver_item [OF _ assms(2-7) this, of i] Cons show ?case by (simp split: prod.split)
qed (simp split: prod.split)

text \<open>
  C18.  A stream whose records come mixed with records of other requests, begin records of other
  requests, questions for values and unknown management records is read as if it were alone: the
  application gets exactly the content of the stream's own records and then end of file.  The web
  server gets, in order, a refusal for each begin record, the values for each question and a notice
  for each unknown record, and nothing else.  The mixed-in records are those of \<open>item_ok\<close>: a record
  of another request has content, an unknown management record has none, and a question for values
  is one whose answers fit the 64-byte response buffer; what happens otherwise is stated below.
\<close>

theorem reader_multiplexed:
  assumes "ready_reader ty r d w (concat (map (item_bytes ty (requestId r)) items) @ record_bytes ty (requestId r) [] [] @ tail)"
    and "\<forall>i \<in> set items. item_ok (mode_for ty r w) i" "ty \<noteq> FCGI_BEGIN_REQUEST" "0 \<le> ty" "ty \<le> 255"
    and "0 < requestId r" "requestId r \<le> 65535"
    and "length (concat (map (item_bytes ty (requestId r)) items) @ record_bytes ty (requestId r) [] [] @ tail) < k"
    and "int (length (concat (map item_content items))) < n"
  shows "\<exists>s. FCGX_GetStr (FillBuffProc k []) k n (attach d r w) = Inr (concat (map item_content items), s)
    \<and> isClosed s \<and> FCGI_errno s = 0
    \<and> sent (conns (os s) (ipcFd r)) = sent (conns w (ipcFd r)) @ concat (map (item_reply (fresh w)) items)"
proof -
  let ?md = "mode_for ty r w"
  have md: "rm_type ?md = ty" "rm_id ?md = requestId r" "rm_begun ?md" "rm_fresh ?md = fresh w"
    using assms(1) by (simp_all add: mode_for_def ready_reader_def)
  have l: "8 \<le> length (record_bytes ty (requestId r) [] [] @ tail)" by (simp add: record_bytes_def)
  have "deliver ?md 0 0 False (record_bytes ty (requestId r) [] [] @ tail) = ([], [], EndOfStream tail 0 False)"
    using deliver_stream_record [of ?md "[]" "[]" tail] md assms(3-7) by simp
  then have "deliver ?md 0 0 False (concat (map (item_bytes ty (requestId r)) items) @ record_bytes ty (requestId r) [] [] @ tail) =
      (concat (map item_content items), concat (map (item_reply (fresh w)) items), EndOfStream tail 0 False)"
    using deliver_items [OF assms(2), of "record_bytes ty (requestId r) [] [] @ tail"] md assms(3-7) l by simp
  from read_ready [OF assms(1) this assms(8,9)] show ?thesis by blast
qed

text \<open>A new reader of request 7 whose connection holds the bytes \<open>L\<close>.\<close>

definition wire_data :: ReqData where
  "wire_data = zero_data\<lparr>requestId := 7, isBeginProcessed := True\<rparr>"

definition wire_os :: "bytes \<Rightarrow> os_unix" where
  "wire_os L = idle_os\<lparr>conns := (\<lambda>_. idle_conn\<lparr>rx := [RData L]\<rparr>), mallocCount := 1\<rparr>"

definition wire_reader :: "int \<Rightarrow> bytes \<Rightarrow> FCGX_Stream_Data" where
  "wire_reader ty L = fst (projr (NewReader 64 ty (wire_os L)))"

lemma wire_reader:
  assumes "L \<noteq> []"
  shows "ready_reader ty wire_data (wire_reader ty L) (wire_os L\<lparr>mallocCount := 2\<rparr>) L"
proof -
  have "conn_ok (ipcFd wire_data) (wire_os L)"
    using assms by (simp add: conn_ok_def wire_os_def tx_ok_def HEAP_MIN_def)
  moreover have "isBeginProcessed wire_data" by (simp add: wire_data_def)
  ultimately obtain d where "NewReader 64 ty (wire_os L) = Inr (d, wire_os L\<lparr>mallocCount := Suc (mallocCount (wire_os L))\<rparr>)"
    "ready_reader ty wire_data d (wire_os L\<lparr>mallocCount := Suc (mallocCount (wire_os L))\<rparr>) (rx_bytes (rx (conns (wire_os L) (ipcFd wire_data))))"
    using new_ready_reader by blast
  then show ?thesis by (simp add: wire_reader_def wire_os_def numeral_2_eq_2)
qed

lemma wire_simps [simp]:
  "requestId wire_data = 7" "ipcFd wire_data = 0" "rm_type (mode_for ty r w) = ty" "rm_id (mode_for ty r w) = requestId r"
  "rm_lim (mode_for ty r w) = heapLimit w" "rm_fresh (mode_for ty r w) = fresh w" "rm_begun (mode_for ty r w) = isBeginProcessed r"
  "heapLimit (wire_os L) = 16777216" "fresh (wire_os L) = (\<lambda>_. 0)" "sent (conns (wire_os L) fd) = []" "isBeginProcessed wire_data"
  by (simp_all add: wire_data_def mode_for_def wire_os_def zero_data_def)

definition demo_items :: "item list" where
  "demo_items = [Own [104] [], Foreign FCGI_STDIN 9 [1, 2] [], Begin 9 (replicate 8 0) [0, 0], Own [105] [0], Unknown 99 []]"

theorem reader_multiplexed_witness:
  "\<exists>s. FCGX_GetStr (FillBuffProc 200 []) 200 10 (attach (wire_reader FCGI_STDIN (concat (map (item_bytes FCGI_STDIN 7) demo_items)
        @ record_bytes FCGI_STDIN 7 [] [])) wire_data (wire_os (concat (map (item_bytes FCGI_STDIN 7) demo_items)
        @ record_bytes FCGI_STDIN 7 [] [])\<lparr>mallocCount := 2\<rparr>)) = Inr ([104, 105], s)
    \<and> isClosed s \<and> FCGI_errno s = 0 \<and> sent (conns (os s) 0) = refuse_reply 9 @ unknown_reply 99"
proof -
  let ?L = "concat (map (item_bytes FCGI_STDIN 7) demo_items) @ record_bytes FCGI_STDIN 7 [] []"
  let ?w = "wire_os ?L\<lparr>mallocCount := 2\<rparr>"
  have l: "length ?L = 63" "?L \<noteq> []" by (simp_all add: demo_items_def record_bytes_def)
  have r: "ready_reader FCGI_STDIN wire_data (wire_reader FCGI_STDIN ?L) ?w
      (concat (map (item_bytes FCGI_STDIN (requestId wire_data)) demo_items) @ record_bytes FCGI_STDIN (requestId wire_data) [] [] @ [])"
    using wire_reader [OF l(2)] by simp
  have "\<forall>i \<in> set demo_items. item_ok (mode_for FCGI_STDIN wire_data ?w) i" by (simp add: demo_items_def)
  from reader_multiplexed [OF r this, of 200 10] l(1) show ?thesis by (simp add: demo_items_def)
qed

section \<open>Departures from the protocol\<close>

text \<open>
  C22.  An empty record of another request, which should be ignored, makes the reader throw away the
  content of the next record although that record belongs to its own stream: the application sees a
  shorter input and no error.
\<close>

theorem empty_foreign_swallows:
  assumes "ready_reader FCGI_STDIN r d w (record_bytes FCGI_STDIN i [] [] @ record_bytes FCGI_STDIN (requestId r) c []
        @ record_bytes FCGI_STDIN (requestId r) [] [] @ tail)"
    and "0 < i" "i \<le> 65535" "i \<noteq> requestId r" "0 < requestId r" "requestId r \<le> 65535" "c \<noteq> []" "length c \<le> 65535"
    and "24 + length c + length tail < k" "0 < n"
  shows "\<exists>s. FCGX_GetStr (FillBuffProc k []) k n (attach d r w) = Inr ([], s) \<and> isClosed s \<and> FCGI_errno s = 0"
proof -
  let ?md = "mode_for FCGI_STDIN r w" and ?eof = "record_bytes FCGI_STDIN (requestId r) [] [] @ tail"
  note f = mk_header_fields [of FCGI_STDIN "requestId r" "length c" 0]
  have "deliver ?md 0 0 False ?eof = ([], [], EndOfStream tail 0 False)"
    using deliver_stream_record [of ?md "[]" "[]" tail] assms(5,6) by simp
  moreover have "record_step ?md True (mk_header FCGI_STDIN (requestId r) (length c) 0) (c @ ?eof) =
      Inr ([], length c, 0, True, c @ ?eof)"
    using assms(5-8) f by (simp add: record_step_def Let_def)
  ultimately have "deliver ?md 0 0 True (record_bytes FCGI_STDIN (requestId r) c [] @ ?eof) = ([], [], EndOfStream tail 0 False)"
    using deliver_body [of ?md c "[]" True ?eof] assms(7) by (simp add: deliver_record)
  then have "deliver ?md 0 0 False (record_bytes FCGI_STDIN i [] [] @ record_bytes FCGI_STDIN (requestId r) c [] @ ?eof) =
      ([], [], EndOfStream tail 0 False)"
    using deliver_foreign_record [of FCGI_STDIN i ?md "[]" "[]" False] assms(2-4) by simp
  from read_ready [OF assms(1) this, of k n] assms(9,10) show ?thesis by (auto simp: record_bytes_def)
qed

theorem empty_foreign_swallows_witness:
  "\<exists>s. FCGX_GetStr (FillBuffProc 100 []) 100 10 (attach (wire_reader FCGI_STDIN (record_bytes FCGI_STDIN 9 [] []
        @ record_bytes FCGI_STDIN 7 [104, 105] [] @ record_bytes FCGI_STDIN 7 [] [])) wire_data
        (wire_os (record_bytes FCGI_STDIN 9 [] [] @ record_bytes FCGI_STDIN 7 [104, 105] [] @ record_bytes FCGI_STDIN 7 [] [])
          \<lparr>mallocCount := 2\<rparr>)) = Inr ([], s) \<and> isClosed s \<and> FCGI_errno s = 0"
proof -
  let ?L = "record_bytes FCGI_STDIN 9 [] [] @ record_bytes FCGI_STDIN 7 [104, 105] [] @ record_bytes FCGI_STDIN 7 [] []"
  have "?L \<noteq> []" by (simp add: record_bytes_def header_bytes_def)
  from wire_reader [OF this, of FCGI_STDIN]
  have "ready_reader FCGI_STDIN wire_data (wire_reader FCGI_STDIN ?L) (wire_os ?L\<lparr>mallocCount := 2\<rparr>) (record_bytes FCGI_STDIN 9 [] []
      @ record_bytes FCGI_STDIN (requestId wire_data) [104, 105] [] @ record_bytes FCGI_STDIN (requestId wire_data) [] [] @ [])" by simp
  from empty_foreign_swallows [OF this, of 100 10] show ?thesis by simp
qed

text \<open>
  C23.  The content of a management record of an unknown type, for which the library only has to
  send its notice, is delivered to the application as data of the stream.
\<close>

theorem unknown_content_delivered:
  assumes "ready_reader FCGI_STDIN r d w (record_bytes t 0 c [] @ record_bytes FCGI_STDIN (requestId r) [] [] @ tail)"
    and "t \<noteq> FCGI_BEGIN_REQUEST" "t \<noteq> FCGI_GET_VALUES" "0 \<le> t" "t \<le> 255" "0 < requestId r" "requestId r \<le> 65535"
    and "length c \<le> 65535" "16 + length c + length tail < k" "int (length c) < n"
  shows "\<exists>s. FCGX_GetStr (FillBuffProc k []) k n (attach d r w) = Inr (c, s) \<and> isClosed s \<and> FCGI_errno s = 0
    \<and> sent (conns (os s) (ipcFd r)) = sent (conns w (ipcFd r)) @ unknown_reply t"
proof -
  let ?md = "mode_for FCGI_STDIN r w" and ?eof = "record_bytes FCGI_STDIN (requestId r) [] [] @ tail"
  note f = mk_header_fields [of t 0 "length c" 0]
  have "deliver ?md 0 0 False ?eof = ([], [], EndOfStream tail 0 False)"
    using deliver_stream_record [of ?md "[]" "[]" tail] assms(6,7) by simp
  moreover have "record_step ?md False (mk_header t 0 (length c) 0) (c @ ?eof) = Inr (unknown_reply t, length c, 0, False, c @ ?eof)"
    using assms(2-5,8) f by (simp add: record_step_def Let_def)
  ultimately have "deliver ?md 0 0 False (record_bytes t 0 c [] @ ?eof) = (c, unknown_reply t, EndOfStream tail 0 False)"
    using deliver_body [of ?md c "[]" False ?eof] by (simp add: deliver_record)
  from read_ready [OF assms(1) this, of k n] assms(9,10) show ?thesis by (auto simp: record_bytes_def)
qed

theorem unknown_content_delivered_witness:
  "\<exists>s. FCGX_GetStr (FillBuffProc 100 []) 100 10 (attach (wire_reader FCGI_STDIN (record_bytes 99 0 [1, 2] []
        @ record_bytes FCGI_STDIN 7 [] [])) wire_data (wire_os (record_bytes 99 0 [1, 2] [] @ record_bytes FCGI_STDIN 7 [] [])
          \<lparr>mallocCount := 2\<rparr>)) = Inr ([1, 2], s) \<and> isClosed s \<and> FCGI_errno s = 0 \<and> sent (conns (os s) 0) = unknown_reply 99"
proof -
  let ?L = "record_bytes 99 0 [1, 2] [] @ record_bytes FCGI_STDIN 7 [] []"
  have "?L \<noteq> []" by (simp add: record_bytes_def header_bytes_def)
  from wire_reader [OF this, of FCGI_STDIN]
  have "ready_reader FCGI_STDIN wire_data (wire_reader FCGI_STDIN ?L) (wire_os ?L\<lparr>mallocCount := 2\<rparr>) (record_bytes 99 0 [1, 2] []
      @ record_bytes FCGI_STDIN (requestId wire_data) [] [] @ [])" by simp
  from unknown_content_delivered [OF this, of 100 10] show ?thesis by simp
qed

section \<open>Name-value pairs\<close>

text \<open>
  C19.  \<open>ReadParams\<close> on a parameter stream with arbitrary content: it returns 0 exactly when the
  content is a sequence of complete pairs and -1 with the error code for parameters when it breaks
  off inside one; in both cases \<open>FCGX_GetParam\<close> finds the complete pairs read so far after those
  that were there before.
\<close>

theorem read_params_decodes:
  assumes "ready_reader FCGI_PARAMS r d w L" "deliver (mode_for FCGI_PARAMS r w) 0 0 False L = (xs, out, EndOfStream left p sk)"
    and "length L < k" "params_rel pp es" "parse_pairs (heapLimit w) xs = Some (kvs, ok)"
    and "16 * (length es + length kvs) \<le> heapLimit w" "2 * int (length es + length kvs) \<le> INT_MAX"
  shows "\<exists>pp' s. ReadParams (FillBuffProc k []) k k pp (attach d r w) = Inr (if ok then 0 else - 1, pp', s)
    \<and> FCGI_errno s = (if ok then 0 else FCGX_PARAMS_ERROR)
    \<and> (\<forall>name. FCGX_GetParam (Some name) (Some (vec pp')) = Inr (lookup_env (cstr name) (es @ map pair_entry kvs)))"
proof -
  have "length xs < k" using deliver_length [OF assms(2)] assms(3) by simp
  from str.ReadParams_src [OF ready_src [OF assms(1,2) _ assms(3)] assms(4) _ this this, of kvs ok] assms(5-7)
  obtain pp' s where s: "ReadParams (FillBuffProc k []) k k pp (attach d r w) =
      Inr (if ok then 0 else - 1, pp', if ok then s else SetError FCGX_PARAMS_ERROR s)"
    "str_fin (mode_for FCGI_PARAMS r w) r w out (EndOfStream left p sk) s" "params_rel pp' (es @ map pair_entry kvs)" by auto
  have "FCGI_errno s = 0" using s(2) by (auto simp: str_fin_def ended_def reader_frame_def)
  then have "FCGI_errno (if ok then s else SetError FCGX_PARAMS_ERROR s) = (if ok then 0 else FCGX_PARAMS_ERROR)"
    by (simp add: SetError_def)
  with s(1) GetParam_rel [OF s(3)] show ?thesis by blast
qed

lemma demo_parse: "parse_pairs 16777216 [1, 1, 65, 98, 5] = Some ([([65], [98])], False)"
  by (simp add: parse_pairs.simps [of _ "[1, 1, 65, 98, 5]"] parse_pairs.simps [of _ "[5]"] parse_pair_def parse_len_def)

theorem read_params_decodes_witness:
  "\<exists>pp' s. ReadParams (FillBuffProc 100 []) 100 100 (projr (NewParams 4)) (attach (wire_reader FCGI_PARAMS
        (record_bytes FCGI_PARAMS 7 [1, 1, 65, 98, 5] [] @ record_bytes FCGI_PARAMS 7 [] [])) wire_data
        (wire_os (record_bytes FCGI_PARAMS 7 [1, 1, 65, 98, 5] [] @ record_bytes FCGI_PARAMS 7 [] [])\<lparr>mallocCount := 2\<rparr>)) =
      Inr (- 1, pp', s) \<and> FCGI_errno s = FCGX_PARAMS_ERROR \<and> FCGX_GetParam (Some [65]) (Some (vec pp')) = Inr (Some [98])"
proof -
  let ?L = "record_bytes FCGI_PARAMS 7 [1, 1, 65, 98, 5] [] @ record_bytes FCGI_PARAMS 7 [] []"
  let ?w = "wire_os ?L\<lparr>mallocCount := 2\<rparr>" and ?md = "mode_for FCGI_PARAMS wire_data (wire_os ?L\<lparr>mallocCount := 2\<rparr>)"
  have l: "?L \<noteq> []" "length ?L < 100" by (simp_all add: record_bytes_def header_bytes_def)
  have "deliver ?md 0 0 False (record_bytes FCGI_PARAMS 7 [] [] @ []) = ([], [], EndOfStream [] 0 False)"
    using deliver_stream_record [of ?md "[]" "[]" "[]"] by simp
  then have d: "deliver ?md 0 0 False ?L = ([1, 1, 65, 98, 5], [], EndOfStream [] 0 False)"
    using deliver_stream_record [of ?md "[1, 1, 65, 98, 5]" "[]" "record_bytes FCGI_PARAMS 7 [] []"] by simp
  obtain pp where pp: "NewParams 4 = Inr pp" "params_rel pp []" using NewParams_rel [of 4] by auto
  from read_params_decodes [OF wire_reader [OF l(1)] d l(2) pp(2), of "[([65], [98])]" False] demo_parse
  show ?thesis by (auto simp: pp(1) pair_entry_def cstr_def)
qed

text \<open>
  C20.  Eight length bytes 255 announce a name and a value of 2147483647 bytes each.  The sum of the
  lengths and 2 is 0 in 32-bit arithmetic, so \<open>ReadParams\<close> allocates an empty block and the next
  byte of the stream is stored outside of it: a peer that sends nine bytes of parameters corrupts
  the heap.
\<close>

theorem params_heap_overflow:
  assumes "ready_reader FCGI_PARAMS r d w L" "deliver (mode_for FCGI_PARAMS r w) 0 0 False L = (replicate 8 255 @ b # ys, out, e)"
    and "e \<noteq> Undef" "length L < k"
  shows "ReadParams (FillBuffProc k []) k k pp (attach d r w) = Inl HeapOverflow"
proof -
  let ?fill = "FillBuffProc k []" and ?src = "str.src k (mode_for FCGI_PARAMS r w) r e w out"
  have len: "length ys + 9 < k" using deliver_length [OF assms(2)] assms(4) by simp
  have pl: "parse_len (255 # 255 # 255 # 255 # zs) = Some (2147483647, zs)" for zs by (simp add: parse_len_def)
  have "replicate 8 (255 :: byte) = [255, 255, 255, 255, 255, 255, 255, 255]" by (simp add: numeral_eq_Suc)
  then have "?src (attach d r w) (255 # 255 # 255 # 255 # 255 # 255 # 255 # 255 # b # ys)" using ready_src [OF assms] by simp
  from str.GetChar_src [OF this] obtain s1 where
    s1: "FCGX_GetChar ?fill (attach d r w) = Inr (255, s1)" "?src s1 (255 # 255 # 255 # 255 # 255 # 255 # 255 # b # ys)" by auto
  obtain s2 where s2: "ReadLength ?fill k 255 s1 = Inr (Some 2147483647, s2)" "?src s2 (255 # 255 # 255 # 255 # b # ys)"
    using str.ReadLength_src [OF s1(2), of k 255] len pl by auto
  obtain s3 where s3: "FCGX_GetChar ?fill s2 = Inr (255, s3)" "?src s3 (255 # 255 # 255 # b # ys)"
    using str.GetChar_src [OF s2(2)] by auto
  obtain s4 where s4: "ReadLength ?fill k 255 s3 = Inr (Some 2147483647, s4)" "?src s4 (b # ys)"
    using str.ReadLength_src [OF s3(2), of k 255] len pl by auto
  have "\<exists>nm s5. FCGX_GetStr ?fill k 2147483647 s4 = Inr (nm, s5) \<and> nm \<noteq> []"
  proof (cases "length (b # ys) < nat 2147483647")
    case True
    then show ?thesis using str.GetStr_short [OF s4(2), of k 2147483647] len by auto
  next
    case False
    then show ?thesis using str.GetStr_full [OF s4(2), of k 2147483647] len by auto
  qed
  then have "ReadPair ?fill k 2147483647 2147483647 s4 = Inl HeapOverflow"
    by (auto simp: ReadPair_def Let_def wrap32_def size_of_int_def Malloc_def)
  moreover obtain j where "k = Suc j" using len by (cases k) auto
  ultimately show ?thesis using s1(1) s2(1) s3(1) s4(1) by (simp add: ReadNameValue_def)
qed

theorem params_heap_overflow_witness:
  "ReadParams (FillBuffProc 100 []) 100 100 (projr (NewParams 4)) (attach (wire_reader FCGI_PARAMS
        (record_bytes FCGI_PARAMS 7 (replicate 8 255 @ [1]) [] @ record_bytes FCGI_PARAMS 7 [] [])) wire_data
        (wire_os (record_bytes FCGI_PARAMS 7 (replicate 8 255 @ [1]) [] @ record_bytes FCGI_PARAMS 7 [] [])\<lparr>mallocCount := 2\<rparr>)) =
      Inl HeapOverflow"
proof -
  let ?L = "record_bytes FCGI_PARAMS 7 (replicate 8 255 @ [1]) [] @ record_bytes FCGI_PARAMS 7 [] []"
  let ?md = "mode_for FCGI_PARAMS wire_data (wire_os ?L\<lparr>mallocCount := 2\<rparr>)"
  have l: "?L \<noteq> []" "length ?L < 100" by (simp_all add: record_bytes_def header_bytes_def)
  have "deliver ?md 0 0 False (record_bytes FCGI_PARAMS 7 [] [] @ []) = ([], [], EndOfStream [] 0 False)"
    using deliver_stream_record [of ?md "[]" "[]" "[]"] by simp
  then have d: "deliver ?md 0 0 False ?L = (replicate 8 255 @ 1 # [], [], EndOfStream [] 0 False)"
    using deliver_stream_record [of ?md "replicate 8 255 @ [1]" "[]" "record_bytes FCGI_PARAMS 7 [] []"] by simp
  show ?thesis by (rule params_heap_overflow [OF wire_reader [OF l(1)] d _ l(2)]) simp
qed

lemma response_loop_overflow:
  assumes "\<forall>e \<in> set es. 61 \<in> set (cstr e)" "p < length b" "length b \<le> p + length (answers es)"
  shows "response_loop (map Str es) b p = Inl StackOverflow"
  using assms
proof (induction es arbitrary: b p)
  case Nil
  then show ?case by (simp add: answers_def)
next
  case (Cons e es)
  show ?case
  proof (cases "value_of (name_of e)")
    case None
    with Cons show ?thesis by (simp add: answers_Cons answer_def name_of_def [symmetric] Let_def)
  next
    case (Some v)
    let ?out = "[of_nat (length (name_of e)), 1] @ name_of e @ [v, 0]"
    have "length (answers (e # es)) = length (name_of e) + 3 + length (answers es)"
      using Some by (simp add: answers_Cons answer_def)
    then have "response_loop (map Str es) (blit p ?out b) (p + length (name_of e) + 3) = Inl StackOverflow"
      if "p + length ?out \<le> length b" using that Cons.prems Cons.IH by simp
    then show ?thesis using Some Cons.prems(1) by (simp add: name_of_def [symmetric] Let_def)
  qed
qed

text \<open>A question whose answers need more than 55 bytes, read from the wire with \<open>eorStop\<close> set.\<close>

lemma get_values_record_overflow:
  assumes inv: "loop_inv md r s" "\<not> eorStop s" "\<not> skip s" and k: "length (ahead s) < k"
    and a: "ahead s = encode_pairs kvs @ pad @ tail" "length (encode_pairs kvs) \<le> 65535" "length pad \<le> 255" "tail \<noteq> []"
    and fit: "\<forall>kv \<in> set kvs. pair_fits (rm_lim md) kv" "\<forall>kv \<in> set kvs. 61 \<in> set (cstr (pair_entry kv))"
    and long: "55 < length (answers (map pair_entry kvs))"
  shows "handle_record k (mk_header FCGI_GET_VALUES 0 (length (encode_pairs kvs)) (length pad)) s = Inl StackOverflow"
proof -
  let ?len = "length (encode_pairs kvs)"
  note f = mk_header_fields [of FCGI_GET_VALUES 0 ?len "length pad"]
  have "parse_pairs (rm_lim md) (if skip s then [] else take ?len (ahead s)) = Some (kvs, True)"
    using parse_pairs_encode [OF fit(1)] inv(3) a(1) by simp
  from get_values_read [OF inv(1) k a(2) this, of "length pad"] obtain p0 p s' where
    rp: "NewParams 3 = Inr p0" "ReadParams (FillBuffProc k []) k k p0 (at_body ?len (length pad) s) = Inr (0, p, s')"
    and fin: "eor_fin md r (os s) ?len (length pad) (skip s) (ahead s) s'" and rel: "params_rel p (map pair_entry kvs)" by auto
  have "body_complete ?len (length pad) (skip s) (ahead s)" using a inv(3) by (simp add: body_complete_def)
  then have z: "FCGI_errno s' = 0" "contentLen s' = 0" using fin by (auto simp: eor_fin_def eor_done_def reader_frame_def)
  have "take (cur p) (vec p) = map Str (map pair_entry kvs)" using rel unfolding params_rel_def by blast
  then have "GetValues_response p (os s') = Inl StackOverflow"
    using response_loop_overflow [of "map pair_entry kvs" 8 "map (fresh (os s')) [0..<64]"] fit(2) long
    by (simp add: GetValues_response_def)
  then have "ProcessManagementRecord (FillBuffProc k []) k FCGI_GET_VALUES (at_body ?len (length pad) s) = Inl StackOverflow"
    using rp z by (simp add: ProcessManagementRecord_def FCGX_GetError_def)
  then show ?thesis using f a(2,3)
    by (simp add: handle_record_def ProcessHeader_def version_eq at_body_def Let_def)
qed

text \<open>
  C21.  A management record \<open>FCGI_GET_VALUES\<close> on the wire, in any chunks and with more input behind
  it, whose names have no NUL and are names the library knows so often that the answers need more
  than 55 bytes, as four names \<open>FCGI_MAX_CONNS\<close> do, makes the read of the application write past the
  end of the 64-byte response buffer that \<open>ProcessManagementRecord\<close> has on the stack.
\<close>

theorem get_values_overflow:
  assumes "ready_reader ty r d w (record_bytes FCGI_GET_VALUES 0 (encode_pairs kvs) pad @ tail)"
    and "length (encode_pairs kvs) \<le> 65535" "length pad \<le> 255" "tail \<noteq> []"
    and "\<forall>kv \<in> set kvs. pair_fits (heapLimit w) kv" "\<forall>kv \<in> set kvs. 61 \<in> set (cstr (pair_entry kv))"
    and "55 < length (answers (map pair_entry kvs))"
    and "length (record_bytes FCGI_GET_VALUES 0 (encode_pairs kvs) pad @ tail) < k" "0 < n"
  shows "FCGX_GetStr (FillBuffProc k []) k n (attach d r w) = Inl StackOverflow"
proof -
  let ?md = "mode_for ty r w" and ?s = "attach d r w" and ?h = "mk_header FCGI_GET_VALUES 0 (length (encode_pairs kvs)) (length pad)"
  have rd: "stream_inv ?md r ?s" "avail ?s = header_bytes ?h @ encode_pairs kvs @ pad @ tail" "\<not> skip ?s" "contentLen ?s = 0"
    "paddingLen ?s = 0" "rdNext ?s = stop ?s" using assms(1) by (simp_all add: ready_reader_def record_bytes_def)
  then have i: "loop_inv ?md r ?s" "\<not> eorStop ?s" "ahead ?s = header_bytes ?h @ encode_pairs kvs @ pad @ tail"
    by (auto simp: stream_inv_def loop_inv_def ahead_def avail_def)
  have "FillBuffProc k [] ?s = Inl StackOverflow"
  proof (rule FillBuffProc_fails [OF i(1,2) rd(4,5), where h = "header_bytes ?h" and sk = False])
    fix j s assume "loop_inv ?md r s" "\<not> eorStop s" "skip s = False" "ahead s = encode_pairs kvs @ pad @ tail"
      "length (encode_pairs kvs @ pad @ tail) < j"
    then show "handle_record j (header_of (header_bytes ?h)) s = Inl StackOverflow"
      using get_values_record_overflow [of ?md r s j kvs pad tail] assms(2-7)
      by (simp add: header_of_bytes [of _ "[]", simplified])
  qed (use i rd assms(8) in \<open>simp_all add: record_bytes_def\<close>)
  moreover obtain j where "k = Suc j" using assms(8) by (cases k) auto
  moreover have "isReader ?s" "\<not> isClosed ?s" using i(1) by (auto simp: loop_inv_def reader_frame_def)
  ultimately show ?thesis using rd(6) assms(9) by (simp add: FCGX_GetStr_def)
qed

theorem get_values_overflow_witness:
  "FCGX_GetStr (FillBuffProc 100 []) 100 10 (attach (wire_reader FCGI_STDIN
        (record_bytes FCGI_GET_VALUES 0 (encode_pairs (replicate 4 (FCGI_MAX_CONNS, []))) [] @ record_bytes FCGI_STDIN 7 [] [])) wire_data
        (wire_os (record_bytes FCGI_GET_VALUES 0 (encode_pairs (replicate 4 (FCGI_MAX_CONNS, []))) []
          @ record_bytes FCGI_STDIN 7 [] [])\<lparr>mallocCount := 2\<rparr>)) = Inl StackOverflow"
proof -
  let ?kvs = "replicate 4 (FCGI_MAX_CONNS, [])"
  have four: "?kvs = [(FCGI_MAX_CONNS, []), (FCGI_MAX_CONNS, []), (FCGI_MAX_CONNS, []), (FCGI_MAX_CONNS, [])]"
    by (simp add: numeral_eq_Suc)
  have e: "length FCGI_MAX_CONNS = 14" "name_of (pair_entry (FCGI_MAX_CONNS, [])) = FCGI_MAX_CONNS"
    "61 \<in> set (cstr (pair_entry (FCGI_MAX_CONNS, [])))" "value_of FCGI_MAX_CONNS = Some 49"
    by (simp_all add: FCGI_MAX_CONNS_def chars_def name_of_def pair_entry_def cstr_def value_of_def)
  have l: "length (encode_pairs ?kvs) = 64" "length (answers (map pair_entry ?kvs)) = 68" "pair_fits 16777216 (FCGI_MAX_CONNS, [])"
    unfolding four by (simp_all add: encode_pairs_def encode_pair_def encode_len_def answers_def answer_def pair_fits_def e)
  have ne: "record_bytes FCGI_GET_VALUES 0 (encode_pairs ?kvs) [] @ record_bytes FCGI_STDIN 7 [] [] \<noteq> []"
    "record_bytes FCGI_STDIN 7 [] [] \<noteq> []" and "length (record_bytes FCGI_STDIN 7 [] []) = 8"
    "length (record_bytes FCGI_GET_VALUES 0 (encode_pairs ?kvs) []) = 72"
    using l(1) by (simp_all add: record_bytes_def header_bytes_def)
  then show ?thesis using get_values_overflow [OF wire_reader [OF ne(1)], of 100 10] l e(3) by simp
qed

end
