(* ===== verification/Fcgi_Printf.thy ===== *)
theory Fcgi_Printf
  imports Fcgi_Writer
begin

text \<open>
  Formatted output of \<open>libfcgi/fcgiapp.c\<close>: \<open>FCGX_VFPrintF\<close>, \<open>FCGX_FPrintF\<close> and
  \<open>CopyAndAdvance\<close>.  The code scans a conversion specification, bounds the room that \<open>sprintf\<close>
  needs for it, calls \<open>sprintf\<close> with the one specification and writes the result to the stream.

  \<open>sprintf\<close> is modelled for the integer, character and string conversions of the C standard.  The
  text it produces for pointers and floating point numbers depends on the C library and is a
  parameter \<open>lib\<close> of the definitions, as is \<open>fexp\<close>, the exponent that \<open>frexp\<close> computes.  An argument
  list is a list of typed values; reading an argument of another type than the one passed, or past
  the last one, is \<open>OutOfBounds\<close>.  What \<open>%n\<close> stores is collected in a list of address and value.
\<close>

section \<open>Arguments\<close>

datatype arg = AInt int | ALong int | ADouble nat | ALDouble nat | AStr "bytes option" | APtr "64 word"
  | AIntPtr nat | ALongPtr nat | AShortPtr nat

type_synonym lib_sprintf = "bytes \<Rightarrow> arg \<Rightarrow> bytes"

definition va_int :: "arg list \<Rightarrow> (int \<times> arg list) res" where
  "va_int as = (case as of AInt i # r \<Rightarrow> Inr (i, r) | _ \<Rightarrow> Inl OutOfBounds)"

section \<open>\<open>sprintf\<close> of one conversion\<close>

definition is_flag :: "byte \<Rightarrow> bool" where "is_flag b = (b \<in> {45, 48, 43, 32, 35})"
definition is_dec :: "byte \<Rightarrow> bool" where "is_dec b = (48 \<le> b \<and> b \<le> 57)"

definition char_at :: "bytes \<Rightarrow> byte" where
  "char_at p = (case p of [] \<Rightarrow> 0 | b # _ \<Rightarrow> b)"

definition strtol :: "bytes \<Rightarrow> int" where
  "strtol ds = foldl (\<lambda>n d. 10 * n + (uint d - 48)) 0 ds"

definition digit :: "bool \<Rightarrow> nat \<Rightarrow> byte" where
  "digit upper d = (if d < 10 then of_nat (48 + d) else of_nat ((if upper then 55 else 87) + d))"

fun digits :: "nat \<Rightarrow> bool \<Rightarrow> nat \<Rightarrow> bytes" where
  "digits b u n = (if b < 2 \<or> n < b then [digit u n] else digits b u (n div b) @ [digit u (n mod b)])"

declare digits.simps [simp del]

definition dec :: "int \<Rightarrow> bytes" where
  "dec i = (if i < 0 then 45 # digits 10 False (nat (- i)) else digits 10 False (nat i))"

record spec =
  sflags :: bytes
  swidth :: nat
  sprec :: "nat option"
  sop :: byte

text \<open>The C library's reading of a conversion specification (after the percent sign).\<close>

definition parse_spec :: "bytes \<Rightarrow> spec" where
  "parse_spec fmt =
     (let fl = takeWhile is_flag fmt; r = dropWhile is_flag fmt;
          w = takeWhile is_dec r; r = dropWhile is_dec r;
          pr = (if char_at r = 46 then Some (nat (strtol (takeWhile is_dec (tl r)))) else None);
          r = (if char_at r = 46 then dropWhile is_dec (tl r) else r);
          r = (if char_at r \<in> {108, 76, 104} then tl r else r)
      in \<lparr>sflags = fl, swidth = nat (strtol w), sprec = pr, sop = char_at r\<rparr>)"

definition pad_to :: "spec \<Rightarrow> bytes \<Rightarrow> bytes" where
  "pad_to sp t =
     (let fill = replicate (swidth sp - length t) 32 in if 45 \<in> set (sflags sp) then t @ fill else fill @ t)"

definition int_text :: "spec \<Rightarrow> bytes \<Rightarrow> bytes \<Rightarrow> bytes" where
  "int_text sp sign ds =
     (let ds = (case sprec sp of None \<Rightarrow> ds | Some p \<Rightarrow> replicate (p - length ds) 48 @ ds) in
      if 48 \<in> set (sflags sp) \<and> 45 \<notin> set (sflags sp) \<and> sprec sp = None
      then sign @ replicate (swidth sp - (length sign + length ds)) 48 @ ds
      else pad_to sp (sign @ ds))"

text \<open>The digits of a value; precision 0 prints the value 0 as nothing.\<close>

definition value_digits :: "spec \<Rightarrow> nat \<Rightarrow> bool \<Rightarrow> nat \<Rightarrow> bytes" where
  "value_digits sp b u n = (if n = 0 \<and> sprec sp = Some 0 then [] else digits b u n)"

definition signed_text :: "spec \<Rightarrow> int \<Rightarrow> bytes" where
  "signed_text sp i =
     int_text sp (if i < 0 then [45] else if 43 \<in> set (sflags sp) then [43] else if 32 \<in> set (sflags sp) then [32] else [])
       (value_digits sp 10 False (nat \<bar>i\<bar>))"

definition unsigned_text :: "spec \<Rightarrow> nat \<Rightarrow> bytes" where
  "unsigned_text sp n =
     (let alt = 35 \<in> set (sflags sp) in
      if sop sp = 120 then int_text sp (if alt \<and> n \<noteq> 0 then [48, 120] else []) (value_digits sp 16 False n)
      else if sop sp = 88 then int_text sp (if alt \<and> n \<noteq> 0 then [48, 88] else []) (value_digits sp 16 True n)
      else if sop sp = 111 then
        (let ds = value_digits sp 8 False n;
             short = (case sprec sp of None \<Rightarrow> True | Some p \<Rightarrow> p \<le> length ds) in
         int_text sp [] (if alt \<and> short \<and> (ds = [] \<or> hd ds \<noteq> 48) then 48 # ds else ds))
      else int_text sp [] (value_digits sp 10 False n))"

definition char_text :: "spec \<Rightarrow> byte \<Rightarrow> bytes" where
  "char_text sp c = pad_to sp [c]"

definition string_text :: "spec \<Rightarrow> bytes \<Rightarrow> bytes" where
  "string_text sp str = pad_to sp (case sprec sp of None \<Rightarrow> str | Some p \<Rightarrow> take p str)"

section \<open>Scanning a specification\<close>

text \<open>\<open>CopyAndAdvance(&dest, &src, n)\<close> on the text written so far and the text still to scan.\<close>

definition CopyAndAdvance :: "bytes \<Rightarrow> bytes \<Rightarrow> nat \<Rightarrow> bytes \<times> bytes" where
  "CopyAndAdvance dest src n = (dest @ take n src, drop n src)"

abbreviation (input) FMT_BUFFLEN :: nat where "FMT_BUFFLEN \<equiv> 25"
abbreviation (input) PRINTF_BUFFLEN :: nat where "PRINTF_BUFFLEN \<equiv> 100"

text \<open>
  A number in the specification: digits, an asterisk that takes an argument, or nothing.  The
  result is the value, the text for \<open>fmtBuff\<close>, and what is left of format and arguments;
  \<open>None\<close> is \<open>goto ErrorReturn\<close>.
\<close>

definition scan_width :: "bytes \<Rightarrow> arg list \<Rightarrow> (int \<times> bytes \<times> bytes \<times> arg list) option res" where
  "scan_width p as =
     (let n = length (takeWhile is_dec p) in
      if n = 0 then
        if char_at p = 42
        then bindR (va_int as) (\<lambda>(minWidth, as).
          Inr (if \<bar>minWidth\<bar> > 999999 then None else Some (minWidth, dec minWidth, tl p, as)))
        else Inr (Some (0, [], p, as))
      else if n \<le> 6 then Inr (Some (strtol (take n p), take n p, drop n p, as))
      else Inr None)"

definition scan_precision :: "bytes \<Rightarrow> arg list \<Rightarrow> (int \<times> bytes \<times> bytes \<times> arg list) option res" where
  "scan_precision p as =
     (if char_at p = 46 then
        let p = tl p; n = length (takeWhile is_dec p) in
        if n = 0 then
          if char_at p = 42
          then bindR (va_int as) (\<lambda>(precision, as).
            let precision = (if precision < 0 then 0 else precision) in
            Inr (if precision > 999999 then None else Some (precision, 46 # dec precision, tl p, as)))
          else Inr (Some (0, [46], p, as))
        else if n \<le> 6 then Inr (Some (strtol (take n p), 46 # take n p, drop n p, as))
        else Inr None
      else Inr (Some (- 1, [], p, as)))"

record slow =
  fmtBuff :: bytes
  minWidth :: int
  precision :: int
  sizeModifier :: byte
  slow_op :: byte
  specifierLength :: nat

definition scan_slow :: "bytes \<Rightarrow> arg list \<Rightarrow> (slow \<times> arg list) option res" where
  "scan_slow p0 as =
     (let n = length (takeWhile is_flag p0) in
      if n > 5 then Inr None
      else case CopyAndAdvance [37] p0 n of (fmt, p) \<Rightarrow>
        bindR (scan_width p as) (\<lambda>w.
        case w of None \<Rightarrow> Inr None | Some (mw, t, p, as) \<Rightarrow>
        bindR (scan_precision p as) (\<lambda>pr.
        case pr of None \<Rightarrow> Inr None | Some (pn, t', p, as) \<Rightarrow>
        let fmt = fmt @ t @ t';
            m = (if char_at p \<in> {108, 76, 104} then char_at p else 32);
            (fmt, p) = (if m \<noteq> 32 then CopyAndAdvance fmt p 1 else (fmt, p));
            op = char_at p;
            fmt = fmt @ [op] in
        bindR (ASSERT (length fmt < FMT_BUFFLEN)) (\<lambda>_.
        Inr (Some (\<lparr>fmtBuff = fmt, minWidth = mw, precision = pn, sizeModifier = m, slow_op = op,
          specifierLength = length p0 - length p + 2\<rparr>, as))))))"

text \<open>
  The room \<open>sprintf\<close> needs, as the code bounds it; for \<open>s\<close> and \<open>f\<close> this takes the argument, which
  is kept for the conversion.
\<close>

definition slow_reqd :: "(nat \<Rightarrow> int) \<Rightarrow> slow \<Rightarrow> arg list \<Rightarrow> (int \<times> arg option \<times> arg list) option res" where
  "slow_reqd fexp sl as =
     (let op = slow_op sl; prec = precision sl in
      if op \<in> {100, 105, 117, 111, 120, 88, 99, 112} then Inr (Some (max prec 46, None, as))
      else if op = 115 then
        (case as of
           AStr a # as \<Rightarrow>
             let str = cstr (case a of None \<Rightarrow> chars ''(null)'' | Some t \<Rightarrow> t) in
             Inr (Some (if prec = - 1 then int (length str) else min prec (int (length str)), Some (AStr (Some str)), as))
         | _ \<Rightarrow> Inl OutOfBounds)
      else if op = 102 then
        if sizeModifier sl = 32 then
          (case as of
             ADouble d # as \<Rightarrow>
               Inr (Some ((if prec = - 1 then 6 else prec) + 3 + (if fexp d > 0 then fexp d div 3 else 0), Some (ADouble d), as))
           | _ \<Rightarrow> Inl OutOfBounds)
        else if sizeModifier sl = 76 then
          (case as of
             ALDouble d # as \<Rightarrow>
               Inr (Some ((if prec = - 1 then 6 else prec) + 3 + (if fexp d > 0 then fexp d div 3 else 0), Some (ALDouble d), as))
           | _ \<Rightarrow> Inl OutOfBounds)
        else Inr None
      else if op \<in> {101, 69, 103, 71} then Inr (Some ((if prec = - 1 then 6 else prec) + 8, None, as))
      else Inr None)"

record pf =
  pstream :: stream_io
  streamCount :: int
  pargs :: "arg list"
  auxBuff :: "nat option"
  stores :: "(nat \<times> int) list"

text \<open>The buffer of a conversion: the automatic array, or a block of the given size.\<close>

datatype room = Array | Block nat

primrec buffLen :: "room \<Rightarrow> nat" where
  "buffLen Array = PRINTF_BUFFLEN"
| "buffLen (Block n) = n"

definition alloc_buff :: "int \<Rightarrow> pf \<Rightarrow> (room \<times> pf) res" where
  "alloc_buff reqd st =
     (if reqd \<le> int PRINTF_BUFFLEN then Inr (Array, st)
      else case auxBuff st of
          Some n \<Rightarrow>
            if reqd > int n
            then bindR (ASSERT (nat reqd \<le> heapLimit (os (pstream st)))) (\<lambda>_.
              Inr (Block (nat reqd), st\<lparr>auxBuff := Some (nat reqd)\<rparr>))
            else Inr (Block n, st)
        | None \<Rightarrow> bindR (ASSERT (nat reqd \<le> heapLimit (os (pstream st)))) (\<lambda>_.
            Inr (Block (nat reqd), st\<lparr>auxBuff := Some (nat reqd)\<rparr>)))"

section \<open>Performing a conversion\<close>

text \<open>\<open>sprintf(buffPtr, ...); buffCount = strlen(buffPtr);\<close> with the text that is written to the buffer.\<close>

definition into_buff :: "room \<Rightarrow> bytes \<Rightarrow> bytes res" where
  "into_buff b text =
     (if buffLen b < length text + 1 then Inl (case b of Array \<Rightarrow> StackOverflow | Block _ \<Rightarrow> HeapOverflow)
      else Inr (cstr text))"

text \<open>
  What the switch over \<open>op\<close> does: it does not perform the operation, it takes the error exit, or
  it leaves bytes to write and the length of the buffer they are in.
\<close>

datatype performed = NotPerformed | ErrorReturn | Performed bytes nat pf

definition perform_text :: "room \<Rightarrow> bytes \<Rightarrow> pf \<Rightarrow> performed res" where
  "perform_text b text st = bindR (into_buff b text) (\<lambda>out. Inr (Performed out (buffLen b) st))"

definition perform_signed :: "byte \<Rightarrow> bytes \<Rightarrow> room \<Rightarrow> pf \<Rightarrow> performed res" where
  "perform_signed m fmt b st =
     (let sp = parse_spec (tl fmt) in
      case pargs st of
        AInt i # as \<Rightarrow>
          if m = 32 then perform_text b (signed_text sp i) (st\<lparr>pargs := as\<rparr>)
          else if m = 104 then perform_text b (signed_text sp ((i + 32768) mod 65536 - 32768)) (st\<lparr>pargs := as\<rparr>)
          else if m = 108 then Inl OutOfBounds else Inr ErrorReturn
      | ALong i # as \<Rightarrow>
          if m = 108 then perform_text b (signed_text sp i) (st\<lparr>pargs := as\<rparr>)
          else if m = 32 \<or> m = 104 then Inl OutOfBounds else Inr ErrorReturn
      | _ \<Rightarrow> if m = 32 \<or> m = 104 \<or> m = 108 then Inl OutOfBounds else Inr ErrorReturn)"

definition perform_unsigned :: "byte \<Rightarrow> bytes \<Rightarrow> room \<Rightarrow> pf \<Rightarrow> performed res" where
  "perform_unsigned m fmt b st =
     (let sp = parse_spec (tl fmt) in
      case pargs st of
        AInt i # as \<Rightarrow>
          if m = 32 then perform_text b (unsigned_text sp (nat (i mod 4294967296))) (st\<lparr>pargs := as\<rparr>)
          else if m = 104 then perform_text b (unsigned_text sp (nat (i mod 65536))) (st\<lparr>pargs := as\<rparr>)
          else if m = 108 then Inl OutOfBounds else Inr ErrorReturn
      | ALong i # as \<Rightarrow>
          if m = 108 then perform_text b (unsigned_text sp (nat (i mod 18446744073709551616))) (st\<lparr>pargs := as\<rparr>)
          else if m = 32 \<or> m = 104 then Inl OutOfBounds else Inr ErrorReturn
      | _ \<Rightarrow> if m = 32 \<or> m = 104 \<or> m = 108 then Inl OutOfBounds else Inr ErrorReturn)"

definition perform_char :: "byte \<Rightarrow> bytes \<Rightarrow> room \<Rightarrow> pf \<Rightarrow> performed res" where
  "perform_char m fmt b st =
     (if m \<noteq> 32 then Inr ErrorReturn
      else bindR (va_int (pargs st)) (\<lambda>(i, as).
        perform_text b (char_text (parse_spec (tl fmt)) (word_of_int i)) (st\<lparr>pargs := as\<rparr>)))"

text \<open>On the fast path a string is written from where it is, without a copy and without a check for null.\<close>

definition perform_string :: "bool \<Rightarrow> byte \<Rightarrow> bytes \<Rightarrow> arg option \<Rightarrow> room \<Rightarrow> pf \<Rightarrow> performed res" where
  "perform_string fastPath m fmt held b st =
     (if m \<noteq> 32 then Inr ErrorReturn
      else if fastPath then
        (case pargs st of
           AStr (Some t) # as \<Rightarrow> Inr (Performed (cstr t) (length (cstr t) + 1) (st\<lparr>pargs := as\<rparr>))
         | AStr None # as \<Rightarrow> Inl NullDeref
         | _ \<Rightarrow> Inl OutOfBounds)
      else (case held of
           Some (AStr (Some t)) \<Rightarrow> perform_text b (string_text (parse_spec (tl fmt)) t) st
         | _ \<Rightarrow> Inl OutOfBounds))"

definition perform_pointer :: "lib_sprintf \<Rightarrow> byte \<Rightarrow> bytes \<Rightarrow> room \<Rightarrow> pf \<Rightarrow> performed res" where
  "perform_pointer lib m fmt b st =
     (if m \<noteq> 32 then Inr ErrorReturn
      else case pargs st of
          APtr v # as \<Rightarrow> perform_text b (lib fmt (APtr v)) (st\<lparr>pargs := as\<rparr>)
        | _ \<Rightarrow> Inl OutOfBounds)"

definition perform_n :: "byte \<Rightarrow> room \<Rightarrow> pf \<Rightarrow> performed res" where
  "perform_n m b st =
     (case pargs st of
        AIntPtr a # as \<Rightarrow>
          if m = 32 then bindR (ASSERT (INT_MIN \<le> streamCount st \<and> streamCount st \<le> INT_MAX)) (\<lambda>_.
            Inr (Performed [] (buffLen b) (st\<lparr>pargs := as, stores := stores st @ [(a, streamCount st)]\<rparr>)))
          else if m = 108 \<or> m = 104 then Inl OutOfBounds else Inr ErrorReturn
      | ALongPtr a # as \<Rightarrow>
          if m = 108 then bindR (ASSERT (- 9223372036854775808 \<le> streamCount st \<and> streamCount st \<le> 9223372036854775807)) (\<lambda>_.
            Inr (Performed [] (buffLen b) (st\<lparr>pargs := as, stores := stores st @ [(a, streamCount st)]\<rparr>)))
          else if m = 32 \<or> m = 104 then Inl OutOfBounds else Inr ErrorReturn
      | AShortPtr a # as \<Rightarrow>
          if m = 104 then Inr (Performed [] (buffLen b) (st\<lparr>pargs := as,
            stores := stores st @ [(a, (streamCount st + 32768) mod 65536 - 32768)]\<rparr>))
          else if m = 32 \<or> m = 108 then Inl OutOfBounds else Inr ErrorReturn
      | _ \<Rightarrow> if m = 32 \<or> m = 104 \<or> m = 108 then Inl OutOfBounds else Inr ErrorReturn)"

definition perform_fixed :: "lib_sprintf \<Rightarrow> bool \<Rightarrow> byte \<Rightarrow> bytes \<Rightarrow> arg option \<Rightarrow> room \<Rightarrow> pf \<Rightarrow> performed res" where
  "perform_fixed lib fastPath m fmt held b st =
     (if fastPath then Inr NotPerformed
      else if m = 32 \<or> m = 76 then
        (case held of Some a \<Rightarrow> perform_text b (lib fmt a) st | None \<Rightarrow> Inl OutOfBounds)
      else Inr ErrorReturn)"

definition perform_float :: "lib_sprintf \<Rightarrow> byte \<Rightarrow> bytes \<Rightarrow> room \<Rightarrow> pf \<Rightarrow> performed res" where
  "perform_float lib m fmt b st =
     (case pargs st of
        ADouble d # as \<Rightarrow>
          if m = 32 then perform_text b (lib fmt (ADouble d)) (st\<lparr>pargs := as\<rparr>)
          else if m = 76 then Inl OutOfBounds else Inr ErrorReturn
      | ALDouble d # as \<Rightarrow>
          if m = 76 then perform_text b (lib fmt (ALDouble d)) (st\<lparr>pargs := as\<rparr>)
          else if m = 32 then Inl OutOfBounds else Inr ErrorReturn
      | _ \<Rightarrow> if m = 32 \<or> m = 76 then Inl OutOfBounds else Inr ErrorReturn)"

text \<open>The switch over \<open>op\<close>.\<close>

definition perform_op ::
  "lib_sprintf \<Rightarrow> bool \<Rightarrow> byte \<Rightarrow> byte \<Rightarrow> bytes \<Rightarrow> arg option \<Rightarrow> room \<Rightarrow> pf \<Rightarrow> performed res" where
  "perform_op lib fastPath op m fmt held b st =
     (if op = 100 \<or> op = 105 then perform_signed m fmt b st
      else if op = 117 \<or> op = 111 \<or> op = 120 \<or> op = 88 then perform_unsigned m fmt b st
      else if op = 99 then perform_char m fmt b st
      else if op = 115 then perform_string fastPath m fmt held b st
      else if op = 112 then perform_pointer lib m fmt b st
      else if op = 110 then perform_n m b st
      else if op = 102 then perform_fixed lib fastPath m fmt held b st
      else if op = 101 \<or> op = 69 \<or> op = 103 \<or> op = 71 then perform_float lib m fmt b st
      else if op = 37 then (if m \<noteq> 32 then Inr ErrorReturn else Inr (Performed [37] (buffLen b) st))
      else if op = 0 then Inr ErrorReturn
      else Inr NotPerformed)"

section \<open>\<open>FCGX_VFPrintF\<close>\<close>

text \<open>
  One directive, with the format after its percent sign: the fast path first, and the slow path if
  it did not perform the operation.  The result has the number of format bytes after the percent
  sign that the specification takes, the bytes to write and the buffer's length; \<open>None\<close> is the
  error exit.
\<close>

definition slow_path :: "lib_sprintf \<Rightarrow> (nat \<Rightarrow> int) \<Rightarrow> bytes \<Rightarrow> pf \<Rightarrow> ((nat \<times> bytes \<times> nat) option \<times> pf) res" where
  "slow_path lib fexp p st =
     bindR (scan_slow p (pargs st)) (\<lambda>sc.
     case sc of None \<Rightarrow> Inr (None, st) | Some (sl, as) \<Rightarrow>
     bindR (slow_reqd fexp sl as) (\<lambda>rq.
     case rq of None \<Rightarrow> Inr (None, st) | Some (reqd, held, as) \<Rightarrow>
     bindR (alloc_buff (max (reqd + 10) (minWidth sl)) (st\<lparr>pargs := as\<rparr>)) (\<lambda>(b, st).
     bindR (perform_op lib False (slow_op sl) (sizeModifier sl) (fmtBuff sl) held b st) (\<lambda>r.
     Inr (case r of
         Performed out len st' \<Rightarrow> (Some (specifierLength sl - 1, out, len), st')
       | _ \<Rightarrow> (None, st))))))"

definition directive :: "lib_sprintf \<Rightarrow> (nat \<Rightarrow> int) \<Rightarrow> bytes \<Rightarrow> pf \<Rightarrow> ((nat \<times> bytes \<times> nat) option \<times> pf) res" where
  "directive lib fexp p st =
     (let (m, op, fmt) = (if char_at p \<in> {108, 76, 104}
            then (char_at p, char_at (tl p), [37, char_at p, char_at (tl p)])
            else (32, char_at p, [37, char_at p])) in
      bindR (perform_op lib True op m fmt None Array st) (\<lambda>r.
      case r of
        Performed out len st \<Rightarrow> Inr (Some (length fmt - 1, out, len), st)
      | ErrorReturn \<Rightarrow> Inr (None, st)
      | NotPerformed \<Rightarrow> slow_path lib fexp p st))"

definition put_bytes :: "empty_proc \<Rightarrow> nat \<Rightarrow> bytes \<Rightarrow> pf \<Rightarrow> (bool \<times> pf) res" where
  "put_bytes emptyp k bs st =
     (if bs = [] then Inr (True, st)
      else bindR (FCGX_PutStr emptyp k bs (pstream st)) (\<lambda>(n, s).
        Inr (if n < 0 then (False, st\<lparr>pstream := s\<rparr>)
             else (True, st\<lparr>pstream := s, streamCount := streamCount st + int (length bs)\<rparr>))))"

lemma drop_directive: "f \<noteq> [] \<Longrightarrow> length (dropWhile P f) - Suc n < length f"
  using length_dropWhile_le [of P f] by (cases f) (auto intro: le_less_trans [OF diff_le_self])

function VFPrintF_loop ::
  "lib_sprintf \<Rightarrow> (nat \<Rightarrow> int) \<Rightarrow> empty_proc \<Rightarrow> nat \<Rightarrow> bytes \<Rightarrow> pf \<Rightarrow> (bool \<times> pf) res" where
  "VFPrintF_loop lib fexp emptyp k f st =
     (if f = [] then Inr (True, st)
      else let text = takeWhile (\<lambda>b. b \<noteq> 37) f; rest = dropWhile (\<lambda>b. b \<noteq> 37) f in
        bindR (ASSERT (int (length text) < INT_MAX)) (\<lambda>_.
        bindR (put_bytes emptyp k text st) (\<lambda>(ok, st).
        if \<not> ok then Inr (False, st)
        else if rest = [] then Inr (True, st)
        else bindR (directive lib fexp (tl rest) st) (\<lambda>(r, st).
          case r of None \<Rightarrow> Inr (False, st) | Some (n, out, len) \<Rightarrow>
          bindR (ASSERT (length out < len \<and> int (length out) \<le> INT_MAX)) (\<lambda>_.
          bindR (put_bytes emptyp k out st) (\<lambda>(ok, st).
          if \<not> ok then Inr (False, st) else VFPrintF_loop lib fexp emptyp k (drop n (tl rest)) st))))))"
  by pat_completeness auto
termination
  by (relation "measure (\<lambda>(lib, fexp, e, k, f, st). length f)") (auto intro: drop_directive)

declare VFPrintF_loop.simps [simp del]

definition FCGX_VFPrintF ::
  "lib_sprintf \<Rightarrow> (nat \<Rightarrow> int) \<Rightarrow> empty_proc \<Rightarrow> nat \<Rightarrow> bytes \<Rightarrow> arg list \<Rightarrow> stream_io \<Rightarrow> (int \<times> (nat \<times> int) list \<times> stream_io) res" where
  "FCGX_VFPrintF lib fexp emptyp k format as s =
     bindR (VFPrintF_loop lib fexp emptyp k (cstr format)
       \<lparr>pstream = s, streamCount = 0, pargs = as, auxBuff = None, stores = []\<rparr>) (\<lambda>(ok, st).
     let count = (if ok then streamCount st else - 1) in
     bindR (ASSERT (INT_MIN \<le> count \<and> count \<le> INT_MAX)) (\<lambda>_. Inr (count, stores st, pstream st)))"

definition FCGX_FPrintF ::
  "lib_sprintf \<Rightarrow> (nat \<Rightarrow> int) \<Rightarrow> empty_proc \<Rightarrow> nat \<Rightarrow> bytes \<Rightarrow> arg list \<Rightarrow> stream_io \<Rightarrow> (int \<times> (nat \<times> int) list \<times> stream_io) res" where
  "FCGX_FPrintF lib fexp emptyp k format as s = FCGX_VFPrintF lib fexp emptyp k format as s"

end
