(* ===== verification/Fcgi_Format.thy ===== *)
theory Fcgi_Format
  imports Fcgi_Printf Fcgi_Request
begin

text \<open>
  What \<open>FCGX_VFPrintF\<close> prints.  A format is described as a list of pieces, each literal text or a
  conversion with the argument it takes; \<open>render\<close> is the format string, \<open>taken\<close> the arguments and
  \<open>expansion\<close> the text the C standard prescribes.  The slow path rewrites a specification with its
  asterisks resolved and lets \<open>sprintf\<close> read it again; the lemmas follow the text of the
  specification through both scanners, bound the text against the buffer, and the locale
  \<open>printf_sink\<close> carries the result from one directive to a whole format on any byte sink.
\<close>

section \<open>Digits\<close>

lemma takeWhile_char_at:
  assumes "\<forall>x \<in> set ds. P x" "\<not> P (char_at q)" "\<not> P 0"
  shows "takeWhile P (ds @ q) = ds" "dropWhile P (ds @ q) = q"
proof -
  have "takeWhile P q = []" "dropWhile P q = q" using assms(2) by (cases q; simp add: char_at_def)+
  with assms(1) show "takeWhile P (ds @ q) = ds" "dropWhile P (ds @ q) = q" by simp_all
qed

lemma not_flag_dec_0 [simp]: "\<not> is_flag 0" "\<not> is_dec 0"
  by (simp_all add: is_flag_def is_dec_def)

lemma char_at_Cons [simp]: "char_at (b # r) = b"
  by (simp add: char_at_def)

lemma char_at_append [simp]: "xs \<noteq> [] \<Longrightarrow> char_at (xs @ ys) = hd xs"
  by (cases xs) (simp_all add: char_at_def)

lemma uint_dec_digit: "d < 10 \<Longrightarrow> uint (digit u d) = 48 + int d"
  by (simp only: digit_def if_True unsigned_of_nat) (simp add: take_bit_nat_eq_self)

lemma is_dec_digit: "d < 10 \<Longrightarrow> is_dec (digit u d)"
  using uint_dec_digit [of d u] by (simp add: is_dec_def word_le_def)

lemma digit_nonzero: "d < 10 \<Longrightarrow> digit u d = 48 \<longleftrightarrow> d = 0"
  using uint_dec_digit [of d u] by (auto simp: word_uint_eq_iff)

lemma digits_dec: "\<forall>x \<in> set (digits 10 u n). is_dec x"
  by (induction "10 :: nat" u n rule: digits.induct) (subst digits.simps, auto simp: is_dec_digit)

lemma digits_nonempty [simp]: "digits b u n \<noteq> []"
  by (subst digits.simps) simp

lemma hd_digits: "0 < n \<Longrightarrow> hd (digits 10 u n) \<noteq> 48"
proof (induction "10 :: nat" u n rule: digits.induct)
  case (1 u n)
  then show ?case by (subst digits.simps) (auto simp: digit_nonzero hd_append)
qed

lemma strtol_snoc: "strtol (ds @ [d]) = 10 * strtol ds + (uint d - 48)"
  by (simp add: strtol_def)

lemma strtol_digits [simp]: "strtol (digits 10 u n) = int n"
proof (induction "10 :: nat" u n rule: digits.induct)
  case (1 u n)
  show ?case
  proof (cases "n < 10")
    case True
    then show ?thesis by (subst digits.simps) (simp add: strtol_def uint_dec_digit)
  next
    case False
    then have "digits 10 u n = digits 10 u (n div 10) @ [digit u (n mod 10)]" by (subst digits.simps) simp
    with False 1 show ?thesis by (simp add: strtol_snoc uint_dec_digit zdiv_int zmod_int)
  qed
qed

lemma length_digits: "1 < b \<Longrightarrow> 0 < k \<Longrightarrow> n < b ^ k \<Longrightarrow> length (digits b u n) \<le> k"
proof (induction b u n arbitrary: k rule: digits.induct)
  case (1 b u n)
  show ?case
  proof (cases "n < b")
    case True
    with 1 show ?thesis by (subst digits.simps) simp
  next
    case False
    then obtain j where j: "k = Suc j" "0 < j" using 1(3,4) by (cases k; cases "k = 1") auto
    then have "n div b < b ^ j" using 1(2,4) by (simp add: less_mult_imp_div_less mult.commute)
    then have "length (digits b u (n div b)) \<le> j" using 1 False j by auto
    with False 1(2) j show ?thesis by (subst digits.simps) simp
  qed
qed

lemma strtol_bounds: "\<forall>x \<in> set ds. is_dec x \<Longrightarrow> 0 \<le> strtol ds \<and> strtol ds < 10 ^ length ds"
proof (induction ds rule: rev_induct)
  case (snoc d ds)
  then have "48 \<le> uint d" "uint d \<le> 57" by (auto simp: is_dec_def word_le_def)
  with snoc show ?case by (auto simp: strtol_snoc)
qed (simp add: strtol_def)

section \<open>Conversions\<close>

text \<open>
  A field width or a precision: left out, decimal digits, or an asterisk with the argument.  A
  width does not start with the digit 0, which is a flag.
\<close>

datatype num = Absent | Digits bytes | Star int

primrec num_chars :: "num \<Rightarrow> bytes" where
  "num_chars Absent = []" | "num_chars (Digits ds) = ds" | "num_chars (Star i) = [42]"

primrec num_args :: "num \<Rightarrow> arg list" where
  "num_args Absent = []" | "num_args (Digits ds) = []" | "num_args (Star i) = [AInt i]"

primrec num_val :: "num \<Rightarrow> int" where
  "num_val Absent = 0" | "num_val (Digits ds) = strtol ds" | "num_val (Star i) = i"

text \<open>The text that stands for it in the rewritten specification.\<close>

primrec num_text :: "num \<Rightarrow> bytes" where
  "num_text Absent = []" | "num_text (Digits ds) = ds" | "num_text (Star i) = dec i"

definition digits_ok :: "bytes \<Rightarrow> bool" where
  "digits_ok ds \<longleftrightarrow> ds \<noteq> [] \<and> length ds \<le> 6 \<and> (\<forall>d \<in> set ds. is_dec d)"

primrec width_ok :: "num \<Rightarrow> bool" where
  "width_ok Absent = True"
| "width_ok (Digits ds) = (digits_ok ds \<and> hd ds \<noteq> 48)"
| "width_ok (Star i) = (\<bar>i\<bar> \<le> 999999)"

primrec prec_ok :: "num \<Rightarrow> bool" where
  "prec_ok Absent = True"
| "prec_ok (Digits ds) = digits_ok ds"
| "prec_ok (Star i) = (0 \<le> i \<and> i \<le> 999999)"

record conv =
  cflags :: bytes
  cwidth :: num
  cprec :: "num option"
  cmod :: byte
  cop :: byte
  carg :: arg

definition dotted :: "(num \<Rightarrow> bytes) \<Rightarrow> num option \<Rightarrow> bytes" where
  "dotted t p = (case p of None \<Rightarrow> [] | Some n \<Rightarrow> 46 # t n)"

definition mod_chars :: "byte \<Rightarrow> bytes" where
  "mod_chars m = (if m = 32 then [] else [m])"

definition conv_chars :: "conv \<Rightarrow> bytes" where
  "conv_chars c = cflags c @ num_chars (cwidth c) @ dotted num_chars (cprec c) @ mod_chars (cmod c) @ [cop c]"

definition spec_chars :: "conv \<Rightarrow> bytes" where
  "spec_chars c = cflags c @ num_text (cwidth c) @ dotted num_text (cprec c) @ mod_chars (cmod c) @ [cop c]"

definition star_args :: "conv \<Rightarrow> arg list" where
  "star_args c = num_args (cwidth c) @ (case cprec c of None \<Rightarrow> [] | Some n \<Rightarrow> num_args n)"

definition prec_val :: "num option \<Rightarrow> int" where
  "prec_val p = (case p of None \<Rightarrow> - 1 | Some n \<Rightarrow> num_val n)"

definition conv_scans :: "conv \<Rightarrow> bool" where
  "conv_scans c \<longleftrightarrow> length (cflags c) \<le> 5 \<and> (\<forall>f \<in> set (cflags c). is_flag f) \<and> width_ok (cwidth c)
     \<and> (\<forall>n. cprec c = Some n \<longrightarrow> prec_ok n) \<and> cmod c \<in> {32, 104, 108}
     \<and> cop c \<in> {100, 105, 117, 111, 120, 88, 99, 115}"

section \<open>The slow path's scanner\<close>

lemma dec_digits: "0 \<le> i \<Longrightarrow> dec i = digits 10 False (nat i)"
  by (simp add: dec_def)

lemma length_dec_nonneg: "0 \<le> i \<Longrightarrow> i \<le> 999999 \<Longrightarrow> length (dec i) \<le> 6"
  using length_digits [of 10 6 "nat i" False] by (simp add: dec_def nat_less_iff)

lemma length_dec: "\<bar>i\<bar> \<le> 999999 \<Longrightarrow> length (dec i) \<le> 7"
  using length_digits [of 10 6 "nat (- i)" False] length_dec_nonneg [of i] by (cases "0 \<le> i") (auto simp: dec_def)

lemma length_num_text:
  "width_ok n \<Longrightarrow> length (num_text n) \<le> 7" "prec_ok n \<Longrightarrow> length (num_text n) \<le> 6"
  by (cases n; simp add: length_dec length_dec_nonneg digits_ok_def)+

lemma scan_digits:
  assumes "digits_ok ds" "\<not> is_dec (char_at q)"
  shows "takeWhile is_dec (ds @ q) = ds" "ds \<noteq> []" "length ds \<le> 6"
  using assms takeWhile_char_at [of ds is_dec q] by (auto simp: digits_ok_def)

lemma scan_absent: "\<not> is_dec (char_at q) \<Longrightarrow> takeWhile is_dec q = []"
  using takeWhile_char_at [of "[]" is_dec q] by simp

lemma not_dec_star: "\<not> is_dec 42" "\<not> is_dec 46" "\<not> is_flag 42" "\<not> is_flag 46"
  by (simp_all add: is_dec_def is_flag_def)

lemma scan_width_num:
  assumes "width_ok n" "\<not> is_dec (char_at q)" "char_at q \<noteq> 42"
  shows "scan_width (num_chars n @ q) (num_args n @ as) = Inr (Some (num_val n, num_text n, q, as))"
  using assms scan_digits [of _ q]
  by (cases n) (auto simp: scan_width_def va_int_def scan_absent not_dec_star)

lemma scan_precision_num:
  assumes "\<forall>n. p = Some n \<longrightarrow> prec_ok n" "\<not> is_dec (char_at q)" "char_at q \<noteq> 42" "char_at q \<noteq> 46"
  shows "scan_precision (dotted num_chars p @ q) ((case p of None \<Rightarrow> [] | Some n \<Rightarrow> num_args n) @ as) =
    Inr (Some (prec_val p, dotted num_text p, q, as))"
proof (cases p)
  case (Some n)
  with assms scan_digits [of _ q] show ?thesis
    by (cases n) (auto simp: scan_precision_def va_int_def scan_absent not_dec_star dotted_def prec_val_def)
qed (use assms in \<open>simp add: scan_precision_def dotted_def prec_val_def\<close>)

lemma mod_op_chars:
  assumes "m \<in> {32, 104, 108}" "op \<in> {100, 105, 117, 111, 120, 88, 99, 115 :: byte}"
  shows "\<not> is_dec (char_at (mod_chars m @ op # q))" "\<not> is_flag (char_at (mod_chars m @ op # q))"
    "char_at (mod_chars m @ op # q) \<notin> {42, 46}"
  using assms by (auto simp: mod_chars_def is_dec_def is_flag_def)

lemma dotted_head:
  assumes "\<not> is_dec (char_at q)" "\<not> is_flag (char_at q)" "char_at q \<notin> {42, 46}"
  shows "\<not> is_dec (char_at (dotted t p @ q))" "\<not> is_flag (char_at (dotted t p @ q))"
    "char_at (dotted t p @ q) \<noteq> 42"
  using assms by (auto simp: dotted_def is_dec_def is_flag_def split: option.splits)

lemma width_head:
  assumes "width_ok n" "\<not> is_dec (char_at q)" "\<not> is_flag (char_at q)"
  shows "\<not> is_flag (char_at (num_chars n @ q))"
  using assms by (cases n) (auto simp: digits_ok_def is_dec_def is_flag_def dest!: hd_in_set)

text \<open>The specification of a conversion is scanned to its parts, and the rewritten one fits \<open>fmtBuff\<close>.\<close>

lemma scan_slow_conv:
  assumes "conv_scans c"
  shows "scan_slow (conv_chars c @ rest) (star_args c @ as) =
    Inr (Some (\<lparr>fmtBuff = 37 # spec_chars c, minWidth = num_val (cwidth c), precision = prec_val (cprec c),
      sizeModifier = cmod c, slow_op = cop c, specifierLength = Suc (length (conv_chars c))\<rparr>, as))"
proof -
  let ?q = "mod_chars (cmod c) @ cop c # rest"
  let ?p = "dotted num_chars (cprec c) @ ?q"
  have c: "cmod c \<in> {32, 104, 108}" "cop c \<in> {100, 105, 117, 111, 120, 88, 99, 115}" "width_ok (cwidth c)"
    "\<forall>n. cprec c = Some n \<longrightarrow> prec_ok n" "length (cflags c) \<le> 5" "\<forall>f \<in> set (cflags c). is_flag f"
    using assms by (simp_all add: conv_scans_def)
  note q = mod_op_chars [OF c(1,2), of rest]
  note p = dotted_head [OF q(1-3), of num_chars "cprec c"]
  note w = width_head [OF c(3) p(1,2)]
  have tw: "takeWhile is_flag (conv_chars c @ rest) = cflags c"
    using takeWhile_char_at(1) [OF c(6) w] by (simp add: conv_chars_def)
  have len: "length (37 # spec_chars c) < 25"
    using c(5) length_num_text(1) [OF c(3)] length_num_text(2) [of "the (cprec c)"] c(4)
    by (cases "cprec c") (simp_all add: spec_chars_def dotted_def mod_chars_def)
  have op: "cop c \<notin> {108, 76, 104}" "cmod c \<noteq> 32 \<Longrightarrow> cmod c \<in> {108, 76, 104}" using c(1,2) by auto
  have fl: "CopyAndAdvance [37] (conv_chars c @ rest) (length (cflags c)) = (37 # cflags c, num_chars (cwidth c) @ ?p)"
    by (simp add: CopyAndAdvance_def conv_chars_def)
  have sw: "scan_width (num_chars (cwidth c) @ ?p) (star_args c @ as) = Inr (Some (num_val (cwidth c),
      num_text (cwidth c), ?p, (case cprec c of None \<Rightarrow> [] | Some n \<Rightarrow> num_args n) @ as))"
    using scan_width_num [OF c(3) p(1,3)] by (simp add: star_args_def)
  have sp: "scan_precision ?p ((case cprec c of None \<Rightarrow> [] | Some n \<Rightarrow> num_args n) @ as) =
      Inr (Some (prec_val (cprec c), dotted num_text (cprec c), ?q, as))"
    using scan_precision_num [OF c(4) q(1)] q(3) by simp
  have "conv_chars c \<noteq> []" by (simp add: conv_chars_def)
  then have l: "length (conv_chars c @ rest) - length (cop c # rest) + 2 = Suc (length (conv_chars c))"
    by (cases "conv_chars c") auto
  show ?thesis
    unfolding scan_slow_def Let_def tw fl prod.case sw bindR_Inr option.case sp
    using c(5) len op l by (cases "cmod c = 32") (simp_all add: mod_chars_def CopyAndAdvance_def spec_chars_def)
qed

section \<open>What the C library reads\<close>

text \<open>The meaning of a conversion: a negative width argument is the flag \<open>-\<close> and a positive width.\<close>

definition conv_spec :: "conv \<Rightarrow> spec" where
  "conv_spec c = \<lparr>sflags = cflags c @ (if num_val (cwidth c) < 0 then [45] else []),
     swidth = nat \<bar>num_val (cwidth c)\<bar>,
     sprec = (case cprec c of None \<Rightarrow> None | Some n \<Rightarrow> Some (nat (num_val n))), sop = cop c\<rparr>"

text \<open>The rewritten width is a run of flags and a run of digits.\<close>

primrec width_flags :: "num \<Rightarrow> bytes" where
  "width_flags Absent = []"
| "width_flags (Digits ds) = []"
| "width_flags (Star i) = (if i < 0 then [45] else if i = 0 then [48] else [])"

primrec width_digits :: "num \<Rightarrow> bytes" where
  "width_digits Absent = []"
| "width_digits (Digits ds) = ds"
| "width_digits (Star i) = (if i = 0 then [] else digits 10 False (nat \<bar>i\<bar>))"

lemma digits_zero: "digits 10 False 0 = [48]"
  by (subst digits.simps) (simp add: digit_def)

lemma num_text_split: "num_text n = width_flags n @ width_digits n"
  by (cases n) (auto simp: dec_def digits_zero)

lemma width_flags_flag: "\<forall>f \<in> set (width_flags n). is_flag f"
  by (cases n) (auto simp: is_flag_def)

lemma dec_not_flag: "is_dec b \<Longrightarrow> b \<noteq> 48 \<Longrightarrow> \<not> is_flag b"
  by (auto simp: is_flag_def is_dec_def)

lemma strtol_Nil [simp]: "strtol [] = 0"
  by (simp add: strtol_def)

lemma digits_ok_val: "digits_ok ds \<Longrightarrow> 0 \<le> strtol ds"
  using strtol_bounds [of ds] by (simp add: digits_ok_def)

lemma digits_head: "0 < n \<Longrightarrow> \<not> is_flag (hd (digits 10 u n))"
  using hd_in_set [of "digits 10 u n"] digits_dec [of u n] hd_digits [of n u] dec_not_flag by simp

lemma width_digits_dec: "width_ok n \<Longrightarrow> d \<in> set (width_digits n) \<Longrightarrow> is_dec d"
  using digits_dec by (cases n) (auto simp: digits_ok_def split: if_splits)

lemma width_digits_val: "width_ok n \<Longrightarrow> nat (strtol (width_digits n)) = nat \<bar>num_val n\<bar>"
  using digits_ok_val by (cases n) simp_all

lemma width_digits_head:
  "width_ok n \<Longrightarrow> \<not> is_flag (char_at q) \<Longrightarrow> \<not> is_flag (char_at (width_digits n @ q))"
  by (cases n) (simp_all add: digits_ok_def dec_not_flag digits_head)

lemma prec_text_dec: "prec_ok n \<Longrightarrow> d \<in> set (num_text n) \<Longrightarrow> is_dec d"
  using digits_dec by (cases n) (auto simp: digits_ok_def dec_digits)

lemma prec_text_val: "prec_ok n \<Longrightarrow> strtol (num_text n) = num_val n"
  by (cases n) (simp_all add: dec_digits)

lemma parse_spec_conv:
  assumes "conv_scans c"
  shows "parse_spec (spec_chars c) = (conv_spec c)\<lparr>sflags := cflags c @ width_flags (cwidth c)\<rparr>"
proof -
  let ?q = "mod_chars (cmod c) @ [cop c]"
  let ?p = "dotted num_text (cprec c) @ ?q"
  have c: "cmod c \<in> {32, 104, 108}" "cop c \<in> {100, 105, 117, 111, 120, 88, 99, 115}" "width_ok (cwidth c)"
    "\<forall>n. cprec c = Some n \<longrightarrow> prec_ok n" "\<forall>f \<in> set (cflags c @ width_flags (cwidth c)). is_flag f"
    using assms width_flags_flag [of "cwidth c"] by (auto simp: conv_scans_def)
  note q = mod_op_chars [OF c(1,2), of "[]"]
  note p = dotted_head [OF q, of num_text "cprec c"]
  have w: "\<forall>d \<in> set (width_digits (cwidth c)). is_dec d" using width_digits_dec [OF c(3)] by blast
  have sc: "spec_chars c = (cflags c @ width_flags (cwidth c)) @ width_digits (cwidth c) @ ?p"
    by (simp add: spec_chars_def num_text_split)
  have f: "takeWhile is_flag (spec_chars c) = cflags c @ width_flags (cwidth c)"
    "dropWhile is_flag (spec_chars c) = width_digits (cwidth c) @ ?p"
    unfolding sc using takeWhile_char_at [OF c(5) width_digits_head [OF c(3) p(2)]] by simp_all
  have d: "takeWhile is_dec (width_digits (cwidth c) @ ?p) = width_digits (cwidth c)"
    "dropWhile is_dec (width_digits (cwidth c) @ ?p) = ?p"
    using takeWhile_char_at [OF w p(1)] by simp_all
  have r: "takeWhile is_dec (num_text n @ ?q) = num_text n" "dropWhile is_dec (num_text n @ ?q) = ?q"
    if "cprec c = Some n" for n
    using takeWhile_char_at [of "num_text n" is_dec ?q] prec_text_dec [of n] q(1) that c(4) by simp_all
  have pr: "(if char_at ?p = 46 then Some (nat (strtol (takeWhile is_dec (tl ?p)))) else None) =
      (case cprec c of None \<Rightarrow> None | Some n \<Rightarrow> Some (nat (num_val n)))"
    "(if char_at ?p = 46 then dropWhile is_dec (tl ?p) else ?p) = ?q"
    using q(3) r c(4) prec_text_val by (cases "cprec c"; simp add: dotted_def)+
  have o: "char_at (if char_at ?q \<in> {108, 76, 104} then tl ?q else ?q) = cop c"
    using c(1,2) by (auto simp: mod_chars_def)
  show ?thesis
    unfolding parse_spec_def Let_def f d pr o width_digits_val [OF c(3)] conv_spec_def by simp
qed

section \<open>The text of a conversion\<close>

text \<open>\<open>None\<close> for an argument that does not have the type the conversion reads.\<close>

definition held_string :: "bytes option \<Rightarrow> bytes" where
  "held_string a = cstr (case a of None \<Rightarrow> chars ''(null)'' | Some t \<Rightarrow> t)"

definition arg_text :: "spec \<Rightarrow> byte \<Rightarrow> arg \<Rightarrow> bytes option" where
  "arg_text sp m a =
     (if sop sp \<in> {100, 105} then
        (case a of
           AInt i \<Rightarrow> if m = 32 then Some (signed_text sp i)
             else if m = 104 then Some (signed_text sp ((i + 32768) mod 65536 - 32768)) else None
         | ALong i \<Rightarrow> if m = 108 then Some (signed_text sp i) else None
         | _ \<Rightarrow> None)
      else if sop sp \<in> {117, 111, 120, 88} then
        (case a of
           AInt i \<Rightarrow> if m = 32 then Some (unsigned_text sp (nat (i mod 4294967296)))
             else if m = 104 then Some (unsigned_text sp (nat (i mod 65536))) else None
         | ALong i \<Rightarrow> if m = 108 then Some (unsigned_text sp (nat (i mod 18446744073709551616))) else None
         | _ \<Rightarrow> None)
      else if sop sp = 99 then (case a of AInt i \<Rightarrow> if m = 32 then Some (char_text sp (word_of_int i)) else None | _ \<Rightarrow> None)
      else if sop sp = 115 then (case a of AStr t \<Rightarrow> if m = 32 then Some (string_text sp (held_string t)) else None | _ \<Rightarrow> None)
      else None)"

definition conv_text :: "conv \<Rightarrow> bytes option" where
  "conv_text c = arg_text (conv_spec c) (cmod c) (carg c)"

text \<open>The values the arguments can have; a NUL character is left out.\<close>

definition arg_ok :: "byte \<Rightarrow> arg \<Rightarrow> bool" where
  "arg_ok op a = (case a of
     AInt i \<Rightarrow> INT_MIN \<le> i \<and> i \<le> INT_MAX \<and> (op = 99 \<longrightarrow> (word_of_int i :: byte) \<noteq> 0)
   | ALong i \<Rightarrow> - 9223372036854775808 \<le> i \<and> i \<le> 9223372036854775807
   | _ \<Rightarrow> True)"

text \<open>With no width, the flag \<open>0\<close> says nothing.\<close>

lemma int_text_zero_flag: "swidth sp = 0 \<Longrightarrow> int_text (sp\<lparr>sflags := fl\<rparr>) sg ds = int_text sp sg ds"
  by (simp add: int_text_def pad_to_def Let_def split: option.splits)

lemma arg_text_zero_flag:
  assumes "swidth sp = 0"
  shows "arg_text (sp\<lparr>sflags := fl @ [48]\<rparr>) m a = arg_text (sp\<lparr>sflags := fl\<rparr>) m a"
proof -
  note [simp] = int_text_zero_flag [OF assms]
  have "signed_text (sp\<lparr>sflags := fl @ [48]\<rparr>) i = signed_text (sp\<lparr>sflags := fl\<rparr>) i" for i
    by (simp add: signed_text_def value_digits_def)
  moreover have "unsigned_text (sp\<lparr>sflags := fl @ [48]\<rparr>) n = unsigned_text (sp\<lparr>sflags := fl\<rparr>) n" for n
    by (simp add: unsigned_text_def value_digits_def Let_def)
  moreover have "pad_to (sp\<lparr>sflags := fl @ [48]\<rparr>) t = pad_to (sp\<lparr>sflags := fl\<rparr>) t" for t
    using assms by (simp add: pad_to_def)
  ultimately show ?thesis
    by (simp add: arg_text_def char_text_def string_text_def split: arg.split)
qed

lemma arg_text_parsed:
  assumes "conv_scans c"
  shows "arg_text (parse_spec (spec_chars c)) m a = arg_text (conv_spec c) m a"
proof -
  have *: "conv_spec c = (conv_spec c)\<lparr>sflags := cflags c @ (if num_val (cwidth c) < 0 then [45] else [])\<rparr>"
    by (simp add: conv_spec_def)
  show ?thesis
  proof (cases "cwidth c")
    case (Star i)
    then show ?thesis
      using parse_spec_conv [OF assms] arg_text_zero_flag [of "conv_spec c" "cflags c"] *
      by (cases "i = 0") (auto simp: conv_spec_def)
  next
    case (Digits ds)
    then have "0 \<le> strtol ds" using assms digits_ok_val by (simp add: conv_scans_def)
    with Digits parse_spec_conv [OF assms] * show ?thesis by (auto simp: conv_spec_def)
  qed (use parse_spec_conv [OF assms] * in \<open>auto simp: conv_spec_def\<close>)
qed

text \<open>Length and content of the texts.\<close>

lemma length_pad_to: "length (pad_to sp t) = max (swidth sp) (length t)"
  by (simp add: pad_to_def Let_def max_def)

lemma length_int_text:
  "length (int_text sp sg ds) \<le> max (swidth sp) (length sg + max (case sprec sp of None \<Rightarrow> 0 | Some p \<Rightarrow> p) (length ds))"
  by (auto simp: int_text_def length_pad_to Let_def split: option.splits)

lemma set_pad_to: "set (pad_to sp t) \<subseteq> set t \<union> {32}"
  by (auto simp: pad_to_def Let_def)

lemma set_int_text: "set (int_text sp sg ds) \<subseteq> set sg \<union> set ds \<union> {32, 48}"
  by (auto simp: int_text_def pad_to_def Let_def split: option.splits)

lemma byte_of_nat: "0 < n \<Longrightarrow> n < 256 \<Longrightarrow> (of_nat n :: byte) \<noteq> 0"
  by (simp add: word_uint_eq_iff unsigned_of_nat take_bit_nat_eq_self)

lemma digit_not_nul: "d < 16 \<Longrightarrow> digit u d \<noteq> 0"
  using byte_of_nat [of "48 + d"] byte_of_nat [of "55 + d"] byte_of_nat [of "87 + d"]
  unfolding digit_def by (simp del: of_nat_add)

lemma digits_not_nul: "1 < b \<Longrightarrow> b \<le> 16 \<Longrightarrow> 0 \<notin> set (digits b u n)"
proof (induction b u n rule: digits.induct)
  case (1 b u n)
  have "digit u d \<noteq> 0" if "d < b" for d using digit_not_nul 1(3) that by simp
  with 1 show ?case by (subst digits.simps) auto
qed

lemma int_text_room:
  assumes "length sg \<le> 2" "length ds \<le> 24"
  shows "length (int_text sp sg ds) \<le> max (swidth sp) (max (case sprec sp of None \<Rightarrow> 0 | Some p \<Rightarrow> p) 46 + 8)"
  by (rule order_trans [OF length_int_text]) (use assms in \<open>simp add: max_def\<close>)

lemma signed_text_room:
  assumes "\<bar>i\<bar> \<le> 9223372036854775808"
  shows "length (signed_text sp i) \<le> max (swidth sp) (max (case sprec sp of None \<Rightarrow> 0 | Some p \<Rightarrow> p) 46 + 8)"
proof -
  have "length (digits 10 False (nat \<bar>i\<bar>)) \<le> 20" using length_digits [of 10 20 "nat \<bar>i\<bar>"] assms by simp
  then show ?thesis unfolding signed_text_def value_digits_def by (intro int_text_room) auto
qed

lemma unsigned_text_room:
  assumes "n < 18446744073709551616"
  shows "length (unsigned_text sp n) \<le> max (swidth sp) (max (case sprec sp of None \<Rightarrow> 0 | Some p \<Rightarrow> p) 46 + 8)"
proof -
  have d: "length (digits 8 False n) \<le> 22" "length (digits 10 False n) \<le> 20" "length (digits 16 u n) \<le> 16" for u
    using assms length_digits [of 8 22 n] length_digits [of 10 20 n] length_digits [of 16 16 n] by simp_all
  let ?shape = "\<lambda>t. \<exists>sg ds. t = int_text sp sg ds \<and> length sg \<le> 2 \<and> length ds \<le> 24"
  have shape: "?shape (int_text sp sg ds)" if "length sg \<le> 2" "length ds \<le> 24" for sg ds using that by blast
  have "?shape (unsigned_text sp n)"
    unfolding unsigned_text_def value_digits_def Let_def
    using d(1,2) d(3) [of True] d(3) [of False] by (simp only: split: if_split) (auto intro!: shape)
  then show ?thesis by (elim exE conjE) (simp only: int_text_room)
qed

lemma signed_text_nul: "0 \<notin> set (signed_text sp i)"
  using set_int_text digits_not_nul [of 10] unfolding signed_text_def value_digits_def
  by (fastforce split: if_splits)

lemma unsigned_text_nul: "0 \<notin> set (unsigned_text sp n)"
proof -
  have "0 \<notin> set (int_text sp sg ds)" if "0 \<notin> set sg" "0 \<notin> set ds" for sg ds
    using set_int_text that by fastforce
  then show ?thesis
    using digits_not_nul [of 8] digits_not_nul [of 10] digits_not_nul [of 16]
    unfolding unsigned_text_def value_digits_def Let_def by simp
qed

section \<open>The room of a conversion\<close>

text \<open>\<open>buffReqd\<close> before the width is taken into account.\<close>

definition conv_room :: "conv \<Rightarrow> int" where
  "conv_room c =
     (if cop c = 115 then
        (case carg c of
           AStr a \<Rightarrow> (if prec_val (cprec c) = - 1 then int (length (held_string a))
             else min (prec_val (cprec c)) (int (length (held_string a))))
         | _ \<Rightarrow> 0)
      else max (prec_val (cprec c)) 46) + 10"

lemma prec_ok_val: "prec_ok n \<Longrightarrow> 0 \<le> num_val n"
  using digits_ok_val by (cases n) simp_all

lemma prec_val_cases:
  assumes "conv_scans c"
  shows "cprec c = None \<and> prec_val (cprec c) = - 1
    \<or> (\<exists>n. cprec c = Some n \<and> prec_val (cprec c) = num_val n \<and> 0 \<le> num_val n)"
  using assms prec_ok_val by (cases "cprec c") (auto simp: prec_val_def conv_scans_def)

lemma conv_text_nul:
  assumes "arg_text sp m a = Some t" "arg_ok (sop sp) a"
  shows "0 \<notin> set t"
proof -
  have p: "0 \<notin> set (pad_to sp u)" if "0 \<notin> set u" for u using set_pad_to that by fastforce
  have "0 \<notin> set (held_string b)" "0 \<notin> set (take n (held_string b))" for n b
    using cstr_no_nul by (metis held_string_def in_set_takeD)+
  then have s: "0 \<notin> set (string_text sp (held_string b))" for b
    using p unfolding string_text_def by (simp split: option.split)
  from assms signed_text_nul unsigned_text_nul s p show ?thesis
    by (auto simp: arg_text_def arg_ok_def char_text_def split: arg.splits if_splits)
qed

lemma short_range: "\<bar>(i + 32768) mod 65536 - 32768\<bar> \<le> (9223372036854775808 :: int)"
  using pos_mod_bound [of 65536 "i + 32768"] pos_mod_sign [of 65536 "i + 32768"] by linarith

lemma unsigned_range:
  "nat (i mod 4294967296) < 18446744073709551616" "nat (i mod 65536) < 18446744073709551616"
  "nat (i mod 18446744073709551616) < 18446744073709551616"
  using pos_mod_bound [of 4294967296 i] pos_mod_bound [of 65536 i] pos_mod_bound [of 18446744073709551616 i]
  by linarith+

lemma arg_text_shape:
  assumes "arg_text sp m a = Some t" "arg_ok (sop sp) a" "sop sp \<in> {100, 105, 117, 111, 120, 88}"
  shows "(\<exists>i. t = signed_text sp i \<and> \<bar>i\<bar> \<le> 9223372036854775808)
    \<or> (\<exists>n. t = unsigned_text sp n \<and> n < 18446744073709551616)"
proof (cases "sop sp \<in> {100, 105}")
  case True
  then obtain i where "t = signed_text sp i" "\<bar>i\<bar> \<le> 9223372036854775808"
    using assms(1,2) short_range unfolding arg_text_def arg_ok_def
    by (cases a) (force split: if_splits)+
  then show ?thesis by blast
next
  case False
  then obtain n where "t = unsigned_text sp n" "n < 18446744073709551616"
    using assms(1,3) unsigned_range unfolding arg_text_def
    by (cases a) (simp_all split: if_splits, blast+)
  then show ?thesis by blast
qed

lemma conv_text_room:
  assumes "conv_scans c" "conv_text c = Some t" "arg_ok (cop c) (carg c)"
  shows "int (length t) < max (\<bar>num_val (cwidth c)\<bar> + 1) (conv_room c)"
proof -
  let ?sp = "conv_spec c"
  have w: "int (swidth ?sp) = \<bar>num_val (cwidth c)\<bar>" "sop ?sp = cop c" by (simp_all add: conv_spec_def)
  have p: "int (case sprec ?sp of None \<Rightarrow> 0 | Some p \<Rightarrow> p) \<le> max (prec_val (cprec c)) 46"
    using prec_val_cases [OF assms(1)] by (auto simp: conv_spec_def)
  have t: "arg_text ?sp (cmod c) (carg c) = Some t" using assms(2) by (simp add: conv_text_def)
  consider "cop c = 99" | "cop c = 115" | "cop c \<in> {100, 105, 117, 111, 120, 88}" using assms(1) by (auto simp: conv_scans_def)
  then show ?thesis
  proof cases
    case 1
    with t w show ?thesis
      by (auto simp: arg_text_def char_text_def length_pad_to conv_room_def split: arg.splits if_splits)
  next
    case 2
    with t obtain a where a: "carg c = AStr a" "t = string_text ?sp (held_string a)"
      using w by (auto simp: arg_text_def split: arg.splits if_splits)
    with 2 prec_val_cases [OF assms(1)] w show ?thesis
      by (auto simp: string_text_def length_pad_to conv_room_def conv_spec_def)
  next
    case 3
    from 3 have "(\<exists>i. t = signed_text ?sp i \<and> \<bar>i\<bar> \<le> 9223372036854775808)
        \<or> (\<exists>n. t = unsigned_text ?sp n \<and> n < 18446744073709551616)"
      using arg_text_shape [OF t] assms(3) w(2) by simp
    then have "length t \<le> max (swidth ?sp) (max (case sprec ?sp of None \<Rightarrow> 0 | Some p \<Rightarrow> p) 46 + 8)"
      using signed_text_room unsigned_text_room by blast
    with 3 w(1) p show ?thesis by (auto simp: conv_room_def)
  qed
qed

section \<open>One directive\<close>

lemma into_buff_fits: "length t < buffLen b \<Longrightarrow> 0 \<notin> set t \<Longrightarrow> into_buff b t = Inr t"
  by (simp add: into_buff_def cstr_id)

text \<open>The switch over \<open>op\<close> produces the text and takes the argument.\<close>

lemma perform_op_text:
  assumes "arg_text (parse_spec (tl fmt)) m a = Some t" "sop (parse_spec (tl fmt)) = op" "op \<noteq> 115"
    "arg_ok op a" "length t < buffLen b" "pargs st = a # as"
  shows "perform_op lib fastPath op m fmt held b st = Inr (Performed t (buffLen b) (st\<lparr>pargs := as\<rparr>))"
proof -
  have "perform_text b t (st\<lparr>pargs := as\<rparr>) = Inr (Performed t (buffLen b) (st\<lparr>pargs := as\<rparr>))"
    using conv_text_nul [OF assms(1)] assms(2,4,5) by (simp add: perform_text_def into_buff_fits)
  moreover consider "op \<in> {100, 105}" | "op \<in> {117, 111, 120, 88}" | "op = 99"
    using assms(1-3) by (auto simp: arg_text_def split: if_splits)
  then have "perform_op lib fastPath op m fmt held b st = perform_text b t (st\<lparr>pargs := as\<rparr>)"
  proof cases
    case 1
    then have "perform_op lib fastPath op m fmt held b st = perform_signed m fmt b st" by (auto simp: perform_op_def)
    with 1 assms(1,2,6) show ?thesis by (cases a) (auto simp: perform_signed_def arg_text_def split: if_splits)
  next
    case 2
    then have "perform_op lib fastPath op m fmt held b st = perform_unsigned m fmt b st" by (auto simp: perform_op_def)
    with 2 assms(1,2,6) show ?thesis by (cases a) (auto simp: perform_unsigned_def arg_text_def split: if_splits)
  next
    case 3
    then have "perform_op lib fastPath op m fmt held b st = perform_char m fmt b st" by (auto simp: perform_op_def)
    with 3 assms(1,2,6) show ?thesis by (cases a) (auto simp: perform_char_def va_int_def arg_text_def split: if_splits)
  qed
  ultimately show ?thesis by simp
qed

lemma perform_op_string:
  assumes "arg_text (parse_spec (tl fmt)) 32 (AStr a) = Some t" "sop (parse_spec (tl fmt)) = 115"
    "length t < buffLen b"
  shows "perform_op lib False 115 32 fmt (Some (AStr (Some (held_string a)))) b st = Inr (Performed t (buffLen b) st)"
  using conv_text_nul [OF assms(1)] assms
  by (auto simp: perform_op_def perform_string_def perform_text_def into_buff_fits arg_text_def arg_ok_def)

lemma slow_reqd_conv:
  assumes "conv_scans c" "conv_text c = Some t"
  defines "sl \<equiv> \<lparr>fmtBuff = 37 # spec_chars c, minWidth = num_val (cwidth c), precision = prec_val (cprec c),
      sizeModifier = cmod c, slow_op = cop c, specifierLength = Suc (length (conv_chars c))\<rparr>"
  shows "cop c \<noteq> 115 \<Longrightarrow> slow_reqd fexp sl as = Inr (Some (conv_room c - 10, None, as))"
    "cop c = 115 \<Longrightarrow> \<exists>a. carg c = AStr a \<and> cmod c = 32
       \<and> slow_reqd fexp sl (carg c # as) = Inr (Some (conv_room c - 10, Some (AStr (Some (held_string a))), as))"
proof -
  show "cop c \<noteq> 115 \<Longrightarrow> slow_reqd fexp sl as = Inr (Some (conv_room c - 10, None, as))"
    using assms(1) by (auto simp: slow_reqd_def sl_def conv_scans_def conv_room_def)
  assume "cop c = 115"
  moreover from this obtain a where "carg c = AStr a" "cmod c = 32"
    using assms(2) by (auto simp: conv_text_def arg_text_def conv_spec_def split: arg.splits if_splits)
  ultimately show "\<exists>a. carg c = AStr a \<and> cmod c = 32
       \<and> slow_reqd fexp sl (carg c # as) = Inr (Some (conv_room c - 10, Some (AStr (Some (held_string a))), as))"
    by (simp add: slow_reqd_def sl_def conv_room_def held_string_def Let_def)
qed

text \<open>
  A conversion whose width is below the size of the automatic array fits the buffer it gets.  A
  plain conversion has no flags, no width and no precision; its string must not be null.
\<close>

definition plain :: "conv \<Rightarrow> bool" where
  "plain c \<longleftrightarrow> cflags c = [] \<and> cwidth c = Absent \<and> cprec c = None"

definition conv_ok :: "nat \<Rightarrow> conv \<Rightarrow> bool" where
  "conv_ok heap c \<longleftrightarrow> conv_scans c \<and> conv_text c \<noteq> None \<and> arg_ok (cop c) (carg c)
     \<and> \<bar>num_val (cwidth c)\<bar> < 100 \<and> conv_room c \<le> int heap \<and> (plain c \<longrightarrow> carg c \<noteq> AStr None)"

lemma alloc_buff_fits:
  assumes "r \<le> int (heapLimit (os (pstream st)))" "w < 100" "int (length t) < max (w + 1) r" "v \<le> w"
  shows "\<exists>b x. alloc_buff (max r v) (st\<lparr>pargs := as\<rparr>) = Inr (b, st\<lparr>pargs := as, auxBuff := x\<rparr>) \<and> length t < buffLen b"
proof -
  show ?thesis
  proof (cases "max r v \<le> 100")
    case True
    with assms show ?thesis by (intro exI [of _ Array] exI [of _ "auxBuff st"]) (auto simp: alloc_buff_def)
  next
    case False
    then have r: "max r v = r" "\<not> r \<le> 100" "nat r \<le> heapLimit (os (pstream st))" "length t < nat r" using assms by auto
    consider n where "auxBuff st = Some n" "r \<le> int n" | "\<forall>n. auxBuff st = Some n \<longrightarrow> int n < r" by force
    then show ?thesis
    proof cases
      case (1 n)
      with r show ?thesis by (intro exI [of _ "Block n"] exI [of _ "auxBuff st"]) (simp add: alloc_buff_def)
    next
      case 2
      with r show ?thesis
        by (intro exI [of _ "Block (nat r)"] exI [of _ "Some (nat r)"]) (simp add: alloc_buff_def split: option.split)
    qed
  qed
qed

lemma slow_path_conv:
  assumes "conv_ok (heapLimit (os (pstream st))) c" "conv_text c = Some t" "pargs st = star_args c @ carg c # as"
  shows "\<exists>len x. slow_path lib fexp (conv_chars c @ rest) st =
      Inr (Some (length (conv_chars c), t, len), st\<lparr>pargs := as, auxBuff := x\<rparr>) \<and> length t < len"
proof -
  have c: "conv_scans c" "arg_ok (cop c) (carg c)" using assms(1) by (simp_all add: conv_ok_def)
  let ?sp = "parse_spec (spec_chars c)"
  have t: "arg_text ?sp (cmod c) (carg c) = Some t" "sop ?sp = cop c"
    using assms(2) arg_text_parsed [OF c(1)] parse_spec_conv [OF c(1)] by (simp_all add: conv_text_def conv_spec_def)
  note room = conv_text_room [OF c(1) assms(2) c(2)]
  have fits: "\<exists>b x. alloc_buff (max (conv_room c) (num_val (cwidth c))) (st\<lparr>pargs := as'\<rparr>) =
      Inr (b, st\<lparr>pargs := as', auxBuff := x\<rparr>) \<and> length t < buffLen b" for as'
    by (rule alloc_buff_fits [OF _ _ room]) (use assms(1) in \<open>auto simp: conv_ok_def\<close>)
  show ?thesis
  proof (cases "cop c = 115")
    case False
    obtain b x where b: "alloc_buff (max (conv_room c) (num_val (cwidth c))) (st\<lparr>pargs := carg c # as\<rparr>) =
        Inr (b, st\<lparr>pargs := carg c # as, auxBuff := x\<rparr>)" "length t < buffLen b" using fits by blast
    have "perform_op lib False (cop c) (cmod c) (37 # spec_chars c) None b (st\<lparr>pargs := carg c # as, auxBuff := x\<rparr>) =
        Inr (Performed t (buffLen b) (st\<lparr>pargs := as, auxBuff := x\<rparr>))"
      using perform_op_text [of "37 # spec_chars c", OF _ _ False c(2) b(2)] t by simp
    with b show ?thesis
      by (auto simp: slow_path_def assms(3) scan_slow_conv [OF c(1)] slow_reqd_conv(1) [OF c(1) assms(2) False])
  next
    case True
    from slow_reqd_conv(2) [OF c(1) assms(2) True] obtain a where a: "carg c = AStr a" "cmod c = 32" by blast
    from slow_reqd_conv(2) [OF c(1) assms(2) True] a
    have rq: "slow_reqd fexp \<lparr>fmtBuff = 37 # spec_chars c, minWidth = num_val (cwidth c), precision = prec_val (cprec c),
        sizeModifier = cmod c, slow_op = cop c, specifierLength = Suc (length (conv_chars c))\<rparr> (carg c # as) =
        Inr (Some (conv_room c - 10, Some (AStr (Some (held_string a))), as))" by auto
    obtain b x where b: "alloc_buff (max (conv_room c) (num_val (cwidth c))) (st\<lparr>pargs := as\<rparr>) =
        Inr (b, st\<lparr>pargs := as, auxBuff := x\<rparr>)" "length t < buffLen b" using fits by blast
    have "perform_op lib False (cop c) (cmod c) (37 # spec_chars c) (Some (AStr (Some (held_string a)))) b st' =
        Inr (Performed t (buffLen b) st')" for st'
      using perform_op_string [of "37 # spec_chars c" a t b] t a True b(2) by simp
    with b rq show ?thesis by (auto simp: slow_path_def assms(3) scan_slow_conv [OF c(1)])
  qed
qed

lemma not_performed:
  assumes "is_flag b \<or> is_dec b \<or> b \<in> {42, 46}"
  shows "perform_op lib True b 32 fmt held r st = Inr NotPerformed" "b \<notin> {108, 76, 104}"
  using assms by (auto simp: perform_op_def is_flag_def is_dec_def)

lemma directive_plain:
  assumes "conv_ok heap c" "conv_text c = Some t" "pargs st = carg c # as" "plain c"
  shows "\<exists>len. directive lib fexp (conv_chars c @ rest) st =
      Inr (Some (length (conv_chars c), t, len), st\<lparr>pargs := as\<rparr>) \<and> length t < len"
proof -
  have c: "conv_scans c" "arg_ok (cop c) (carg c)" using assms(1) by (simp_all add: conv_ok_def)
  have chars: "conv_chars c = spec_chars c" "spec_chars c = mod_chars (cmod c) @ [cop c]"
    using assms(4) by (simp_all add: plain_def conv_chars_def spec_chars_def dotted_def)
  have op: "cop c \<notin> {108, 76, 104}" "cmod c \<noteq> 32 \<Longrightarrow> cmod c \<in> {108, 76, 104}" using c(1) by (auto simp: conv_scans_def)
  have dir: "directive lib fexp (conv_chars c @ rest) st =
      bindR (perform_op lib True (cop c) (cmod c) (37 # spec_chars c) None Array st) (\<lambda>r.
      case r of
        Performed out len st \<Rightarrow> Inr (Some (length (conv_chars c), out, len), st)
      | ErrorReturn \<Rightarrow> Inr (None, st)
      | NotPerformed \<Rightarrow> slow_path lib fexp (conv_chars c @ rest) st)"
    unfolding directive_def chars using op by (cases "cmod c = 32") (simp_all add: mod_chars_def cong del: performed.case_cong_weak)
  show ?thesis
  proof (cases "cop c = 115")
    case True
    then obtain u where "carg c = AStr (Some u)" "t = cstr u" "cmod c = 32"
      using assms(1,2,4) by (auto simp: conv_ok_def plain_def conv_text_def arg_text_def conv_spec_def
          string_text_def pad_to_def held_string_def split: arg.splits if_splits option.splits)
    with True show ?thesis by (simp add: dir assms(3) perform_op_def perform_string_def)
  next
    case False
    have "length t < buffLen Array"
      using conv_text_room [OF c(1) assms(2) c(2)] False assms(4) by (simp add: plain_def conv_room_def prec_val_def)
    moreover have "arg_text (parse_spec (spec_chars c)) (cmod c) (carg c) = Some t" "sop (parse_spec (spec_chars c)) = cop c"
      using assms(2) arg_text_parsed [OF c(1)] parse_spec_conv [OF c(1)] by (simp_all add: conv_text_def conv_spec_def)
    ultimately have "perform_op lib True (cop c) (cmod c) (37 # spec_chars c) None Array st =
        Inr (Performed t (buffLen Array) (st\<lparr>pargs := as\<rparr>))"
      using perform_op_text [of "37 # spec_chars c", OF _ _ False c(2)] assms(3) by simp
    with \<open>length t < buffLen Array\<close> show ?thesis by (simp add: dir)
  qed
qed

lemma first_char:
  assumes "conv_scans c" "\<not> plain c"
  shows "is_flag (char_at (conv_chars c @ rest)) \<or> is_dec (char_at (conv_chars c @ rest))
    \<or> char_at (conv_chars c @ rest) \<in> {42, 46}"
proof (cases "cflags c")
  case Nil
  with assms show ?thesis
    by (cases "cwidth c") (auto simp: plain_def conv_scans_def conv_chars_def dotted_def digits_ok_def hd_in_set)
qed (use assms in \<open>simp add: conv_scans_def conv_chars_def\<close>)

lemma directive_conv:
  assumes "conv_ok (heapLimit (os (pstream st))) c" "conv_text c = Some t" "pargs st = star_args c @ carg c # as"
  shows "\<exists>len x. directive lib fexp (conv_chars c @ rest) st =
      Inr (Some (length (conv_chars c), t, len), st\<lparr>pargs := as, auxBuff := x\<rparr>) \<and> length t < len"
proof (cases "plain c")
  case True
  then have "star_args c = []" by (simp add: plain_def star_args_def)
  with directive_plain [OF assms(1,2) _ True] assms(3) obtain len where
    "directive lib fexp (conv_chars c @ rest) st = Inr (Some (length (conv_chars c), t, len), st\<lparr>pargs := as\<rparr>)"
    "length t < len" by force
  then show ?thesis by (intro exI [of _ len] exI [of _ "auxBuff st"]) simp
next
  case False
  then have f: "is_flag (char_at (conv_chars c @ rest)) \<or> is_dec (char_at (conv_chars c @ rest))
      \<or> char_at (conv_chars c @ rest) \<in> {42, 46}"
    using first_char assms(1) by (auto simp: conv_ok_def)
  have "directive lib fexp (conv_chars c @ rest) st = slow_path lib fexp (conv_chars c @ rest) st"
    unfolding directive_def using not_performed [OF f] by simp
  with slow_path_conv [OF assms] show ?thesis by simp
qed

section \<open>Formats\<close>

datatype piece = Lit bytes | Percent | Conv conv | Count nat

primrec render :: "piece \<Rightarrow> bytes" where
  "render (Lit t) = t"
| "render Percent = [37, 37]"
| "render (Conv c) = 37 # conv_chars c"
| "render (Count a) = [37, 110]"

primrec taken :: "piece \<Rightarrow> arg list" where
  "taken (Lit t) = []"
| "taken Percent = []"
| "taken (Conv c) = star_args c @ [carg c]"
| "taken (Count a) = [AIntPtr a]"

primrec expansion :: "piece \<Rightarrow> bytes" where
  "expansion (Lit t) = t"
| "expansion Percent = [37]"
| "expansion (Conv c) = the (conv_text c)"
| "expansion (Count a) = []"

primrec counted :: "int \<Rightarrow> piece list \<Rightarrow> (nat \<times> int) list" where
  "counted n [] = []"
| "counted n (p # ps) = (case p of Count a \<Rightarrow> [(a, n)] | _ \<Rightarrow> []) @ counted (n + int (length (expansion p))) ps"

primrec piece_ok :: "nat \<Rightarrow> piece \<Rightarrow> bool" where
  "piece_ok heap (Lit t) = (0 \<notin> set t \<and> 37 \<notin> set t)"
| "piece_ok heap Percent = True"
| "piece_ok heap (Conv c) = conv_ok heap c"
| "piece_ok heap (Count a) = True"

abbreviation format_of :: "piece list \<Rightarrow> bytes" where "format_of ps \<equiv> concat (map render ps)"
abbreviation args_of :: "piece list \<Rightarrow> arg list" where "args_of ps \<equiv> concat (map taken ps)"
abbreviation output_of :: "piece list \<Rightarrow> bytes" where "output_of ps \<equiv> concat (map expansion ps)"

lemma pieces_split: "\<exists>ts qs. ps = map Lit ts @ qs \<and> (qs = [] \<or> (\<forall>t. hd qs \<noteq> Lit t))"
proof (induction ps)
  case (Cons p ps)
  then obtain ts qs where "ps = map Lit ts @ qs" "qs = [] \<or> (\<forall>t. hd qs \<noteq> Lit t)" by blast
  then show ?case
    by (cases p) (auto intro: exI [of _ "_ # ts"] exI [of _ "[]"])
qed simp

lemma counted_lits: "counted n (map Lit ts @ qs) = counted (n + int (length (concat ts))) qs"
  by (induction ts arbitrary: n) (simp_all add: add.assoc)

lemma lits [simp]: "render \<circ> Lit = id" "expansion \<circ> Lit = id" "concat (map (taken \<circ> Lit) ts) = []"
  by (auto simp: fun_eq_iff)

text \<open>A directive that is not literal text, after its percent sign.\<close>

lemma directive_piece:
  assumes "piece_ok (heapLimit (os (pstream st))) d" "\<forall>t. d \<noteq> Lit t" "pargs st = taken d @ as"
    "INT_MIN \<le> streamCount st" "streamCount st \<le> INT_MAX"
  shows "\<exists>r len x. render d = 37 # r \<and> directive lib fexp (r @ rest) st =
      Inr (Some (length r, expansion d, len),
        st\<lparr>pargs := as, auxBuff := x, stores := stores st @ counted (streamCount st) [d]\<rparr>) \<and> length (expansion d) < len"
proof (cases d)
  case (Conv c)
  then obtain t where t: "conv_text c = Some t" using assms(1) by (auto simp: conv_ok_def)
  from directive_conv [OF _ t, of st as] assms(1,3) Conv t show ?thesis by fastforce
next
  case Percent
  with assms(3) show ?thesis
    by (intro exI [of _ "[37]"] exI [of _ "buffLen Array"] exI [of _ "auxBuff st"]) (simp add: directive_def perform_op_def)
next
  case (Count a)
  with assms(3-5) show ?thesis
    by (intro exI [of _ "[110]"] exI [of _ "buffLen Array"] exI [of _ "auxBuff st"])
      (simp add: directive_def perform_op_def perform_n_def)
qed (use assms(2) in simp)

lemma before_percent:
  assumes "37 \<notin> set t"
  shows "takeWhile (\<lambda>b. b \<noteq> 37) t = t" "dropWhile (\<lambda>b. b \<noteq> 37) t = []"
    "takeWhile (\<lambda>b. b \<noteq> 37) (t @ 37 # r) = t" "dropWhile (\<lambda>b. b \<noteq> 37) (t @ 37 # r) = 37 # r"
  using assms by (induction t) auto

lemma VFPrintF_loop_text:
  assumes "37 \<notin> set t" "int (length t) < INT_MAX"
  shows "VFPrintF_loop lib fexp emptyp k t st = put_bytes emptyp k t st"
  using assms(2)
  by (subst VFPrintF_loop.simps, unfold Let_def before_percent(1,2) [OF assms(1)], cases "put_bytes emptyp k t st")
    (auto simp: put_bytes_def [of _ _ "[]"])

lemma VFPrintF_loop_step:
  assumes t: "37 \<notin> set t" "int (length t) < INT_MAX" "put_bytes emptyp k t st = Inr (True, st1)"
    and d: "directive lib fexp (r @ f) st1 = Inr (Some (length r, out, len), st2)" "length out < len" "int (length out) \<le> INT_MAX"
      "put_bytes emptyp k out st2 = Inr (True, st3)"
  shows "VFPrintF_loop lib fexp emptyp k (t @ 37 # r @ f) st = VFPrintF_loop lib fexp emptyp k f st3"
  using assms(2-)
  by (subst VFPrintF_loop.simps, unfold Let_def before_percent(3,4) [OF assms(1)]) simp

lemma spec_char_not_nul: "is_flag b \<or> is_dec b \<Longrightarrow> b \<noteq> 0"
  by (auto simp: is_flag_def is_dec_def)

lemma render_no_nul: "piece_ok heap p \<Longrightarrow> 0 \<notin> set (render p)"
proof (cases p)
  case (Conv c)
  moreover assume "piece_ok heap p"
  ultimately have c: "conv_scans c" by (simp add: conv_ok_def)
  have n: "0 \<notin> set (num_chars n)" if "width_ok n \<or> prec_ok n" for n
    using that spec_char_not_nul by (cases n) (auto simp: digits_ok_def)
  from c Conv n show ?thesis
    using spec_char_not_nul
    by (auto simp: conv_scans_def conv_chars_def dotted_def mod_chars_def split: option.splits)
qed auto

locale printf_sink = byte_sink +
  fixes heap :: nat
  assumes heap: "inv s \<Longrightarrow> passed s xs \<Longrightarrow> heapLimit (os s) = heap"
begin

lemma snk_heap: "snk s zs \<Longrightarrow> heapLimit (os s) = heap"
  using heap by (auto simp: snk_def)

lemma put_bytes_snk:
  assumes "snk (pstream st) zs" "length bs < k"
  shows "\<exists>s. put_bytes emptyp k bs st =
      Inr (True, st\<lparr>pstream := s, streamCount := streamCount st + int (length bs)\<rparr>) \<and> snk s (zs @ bs)"
  using PutStr_snk [OF assms] assms(1)
  by (cases "bs = []") (auto simp: put_bytes_def intro: exI [of _ "pstream st"])

lemma VFPrintF_loop_snk:
  assumes "snk (pstream st) zs" "\<forall>p \<in> set ps. piece_ok heap p" "pargs st = args_of ps @ as"
    "0 \<le> streamCount st" "streamCount st + int (length (output_of ps)) < INT_MAX" "length (output_of ps) < k"
  shows "\<exists>st'. VFPrintF_loop lib fexp emptyp k (format_of ps) st = Inr (True, st')
    \<and> snk (pstream st') (zs @ output_of ps) \<and> streamCount st' = streamCount st + int (length (output_of ps))
    \<and> stores st' = stores st @ counted (streamCount st) ps \<and> pargs st' = as"
  using assms
proof (induction ps arbitrary: st zs rule: length_induct)
  case (1 ps)
  obtain ts qs where ps: "ps = map Lit ts @ qs" "qs = [] \<or> (\<forall>t. hd qs \<noteq> Lit t)" using pieces_split by blast
  let ?t = "concat ts"
  have t: "37 \<notin> set ?t" using 1(3) ps(1) by force
  obtain s1 where s1: "put_bytes emptyp k ?t st =
      Inr (True, st\<lparr>pstream := s1, streamCount := streamCount st + int (length ?t)\<rparr>)" "snk s1 (zs @ ?t)"
    using put_bytes_snk [OF 1(2), of ?t k] 1(7) ps(1) by auto
  let ?st = "st\<lparr>pstream := s1, streamCount := streamCount st + int (length ?t)\<rparr>"
  show ?case
  proof (cases qs)
    case Nil
    then have "VFPrintF_loop lib fexp emptyp k (format_of ps) st = Inr (True, ?st)"
      using ps(1) VFPrintF_loop_text [OF t] 1(5,6) s1(1) by simp
    with Nil 1(4) ps(1) s1(2) show ?thesis using counted_lits [of _ ts "[]"] by auto
  next
    case (Cons d ds)
    have d: "\<forall>t. d \<noteq> Lit t" "piece_ok (heapLimit (os (pstream ?st))) d" using ps(2) Cons 1(3) ps(1) snk_heap [OF s1(2)] by auto
    from directive_piece [OF d(2,1), of "args_of ds @ as" lib fexp "format_of ds"] 1(4-6) ps(1) Cons
    obtain r len x where r: "render d = 37 # r" "directive lib fexp (r @ format_of ds) ?st =
      Inr (Some (length r, expansion d, len),
        ?st\<lparr>pargs := args_of ds @ as, auxBuff := x, stores := stores st @ counted (streamCount ?st) [d]\<rparr>)"
      "length (expansion d) < len" by auto
    let ?sd = "?st\<lparr>pargs := args_of ds @ as, auxBuff := x, stores := stores st @ counted (streamCount ?st) [d]\<rparr>"
    obtain s2 where s2: "put_bytes emptyp k (expansion d) ?sd =
        Inr (True, ?sd\<lparr>pstream := s2, streamCount := streamCount ?sd + int (length (expansion d))\<rparr>)" "snk s2 ((zs @ ?t) @ expansion d)"
      using put_bytes_snk [of ?sd "zs @ ?t" "expansion d" k] s1(2) 1(7) ps(1) Cons by auto
    let ?se = "?sd\<lparr>pstream := s2, streamCount := streamCount ?sd + int (length (expansion d))\<rparr>"
    have "\<exists>st'. VFPrintF_loop lib fexp emptyp k (format_of ds) ?se = Inr (True, st')
        \<and> snk (pstream st') (((zs @ ?t) @ expansion d) @ output_of ds) \<and> streamCount st' = streamCount ?se + int (length (output_of ds))
        \<and> stores st' = stores ?se @ counted (streamCount ?se) ds \<and> pargs st' = as"
      using 1(1) [rule_format, of ds ?se "zs @ ?t @ expansion d"] s2(2) 1(3-7) ps(1) Cons by auto
    then obtain st' where st': "VFPrintF_loop lib fexp emptyp k (format_of ds) ?se = Inr (True, st')"
      "snk (pstream st') (zs @ output_of ps)" "streamCount st' = streamCount st + int (length (output_of ps))"
      "stores st' = stores st @ counted (streamCount st) ps" "pargs st' = as"
      using ps(1) Cons by (auto simp: counted_lits)
    have "VFPrintF_loop lib fexp emptyp k (?t @ 37 # r @ format_of ds) st = VFPrintF_loop lib fexp emptyp k (format_of ds) ?se"
      by (rule VFPrintF_loop_step [OF t _ s1(1) r(2,3) _ s2(1)]) (use 1(5,6) ps(1) Cons in simp_all)
    moreover have "format_of ps = ?t @ 37 # r @ format_of ds" using ps(1) Cons r(1) by simp
    ultimately have "VFPrintF_loop lib fexp emptyp k (format_of ps) st = VFPrintF_loop lib fexp emptyp k (format_of ds) ?se"
      by simp
    with st' show ?thesis by metis
  qed
qed

lemma VFPrintF_snk:
  assumes "snk s zs" "\<forall>p \<in> set ps. piece_ok heap p" "int (length (output_of ps)) < INT_MAX" "length (output_of ps) < k"
  shows "\<exists>s'. FCGX_VFPrintF lib fexp emptyp k (format_of ps @ 0 # junk) (args_of ps @ as) s =
      Inr (int (length (output_of ps)), counted 0 ps, s') \<and> snk s' (zs @ output_of ps)"
proof -
  let ?st = "\<lparr>pstream = s, streamCount = 0, pargs = args_of ps @ as, auxBuff = None, stores = []\<rparr>"
  have "0 \<notin> set (render p)" if "p \<in> set ps" for p
    using assms(2) that render_no_nul by blast
  then have f: "cstr (format_of ps @ 0 # junk) = format_of ps" by (subst cstr_append) (auto simp: cstr_def)
  from VFPrintF_loop_snk [of ?st zs ps as k lib fexp] assms obtain st' where
    "VFPrintF_loop lib fexp emptyp k (format_of ps) ?st = Inr (True, st')" "snk (pstream st') (zs @ output_of ps)"
    "streamCount st' = int (length (output_of ps))" "stores st' = counted 0 ps" by auto
  with assms(3) show ?thesis by (simp add: FCGX_VFPrintF_def f)
qed

end

text \<open>The output streams of a request.\<close>

interpretation rec_printf: printf_sink EmptyBuffProc 8 "writer_inv ty r" "out_rel pre ty others r" "heapLimit pre"
  for ty r pre others
  by unfold_locales (auto simp: out_rel_def emitted_def transmitted_def)

section \<open>Properties of formatted output\<close>

text \<open>
  C24.  On an output stream of a request with an empty buffer, \<open>FCGX_FPrintF\<close> with a format of
  literal text, percent signs, count requests and conversions of integers, characters and strings
  (any flags, widths below 100, any precision, sizes \<open>h\<close> and \<open>l\<close>, numbers given as digits or by
  asterisks) returns the number of bytes the C standard prescribes, stores the counts asked for by
  \<open>%n\<close>, and once the stream is flushed the server has received records that carry exactly the
  prescribed text.
\<close>

theorem printf_expands:
  assumes "writer_inv ty r s" "wrNext s = 8" "\<not> isAnythingWritten s"
    and "\<forall>p \<in> set ps. piece_ok (heapLimit (os s)) p" "int (length (output_of ps)) < INT_MAX" "length (output_of ps) < k"
  shows "\<exists>s' s'' recs. FCGX_FPrintF lib fexp EmptyBuffProc k (format_of ps @ 0 # junk) (args_of ps @ as) s =
      Inr (int (length (output_of ps)), counted 0 ps, s')
    \<and> FCGX_FFlush EmptyBuffProc s' = Inr (0, s'')
    \<and> transmitted (ipcFd r) (os s) (wire (requestId r) recs) (os s'') \<and> stream_recs ty [] recs (output_of ps)"
proof -
  have "out_rel (os s) ty [] r s []"
    using assms(3) transmitted_Nil by (auto simp: out_rel_def emitted_def stream_recs_def intro!: exI [of _ "[]"])
  then have "rec_sink.snk ty r (os s) [] s []"
    using assms(1,2) by (auto simp: rec_sink.snk_def)
  from rec_printf.VFPrintF_snk [OF this assms(4-6), of lib fexp junk as] obtain s' where
    s': "FCGX_VFPrintF lib fexp EmptyBuffProc k (format_of ps @ 0 # junk) (args_of ps @ as) s =
      Inr (int (length (output_of ps)), counted 0 ps, s')" "rec_sink.snk ty r (os s) [] s' (output_of ps)" by auto
  from rec_sink.FFlush_snk [OF s'(2)] obtain s'' where
    s'': "FCGX_FFlush EmptyBuffProc s' = Inr (0, s'')" "rec_sink.snk ty r (os s) [] s'' (output_of ps)" "wrNext s'' = 8" by blast
  then obtain recs where "transmitted (ipcFd r) (os s) (wire (requestId r) recs) (os s'')" "stream_recs ty [] recs (output_of ps)"
    by (auto simp: rec_sink.snk_def out_rel_def emitted_def)
  with s'(1) s''(1) show ?thesis unfolding FCGX_FPrintF_def by blast
qed

lemma scan_width_text: "scan_width p as = Inr (Some (v, t, q, as')) \<Longrightarrow> length t \<le> 7"
  using length_dec by (auto simp: scan_width_def Let_def va_int_def bindR_eq_Inr split: if_splits list.splits arg.splits)

lemma scan_precision_text: "scan_precision p as = Inr (Some (v, t, q, as')) \<Longrightarrow> length t \<le> 7"
  using length_dec_nonneg
  by (auto simp: scan_precision_def Let_def va_int_def bindR_eq_Inr split: if_splits list.splits arg.splits)

lemma scan_number_fault: "scan_width p as \<noteq> Inl Assertion" "scan_precision p as \<noteq> Inl Assertion"
  by (auto simp: scan_width_def scan_precision_def Let_def va_int_def bindR_eq_Inl split: list.splits arg.splits)

text \<open>
  C25.  Scanning a conversion specification never overflows \<open>fmtBuff\<close>, for any format and any
  arguments: the assertion on its length cannot fail, and the copied specification with its
  terminating NUL has at most 23 of the 25 bytes.
\<close>

theorem fmtBuff_fits:
  "scan_slow p as \<noteq> Inl Assertion \<and> (case scan_slow p as of Inr (Some (sl, _)) \<Rightarrow> length (fmtBuff sl) + 1 \<le> 23 | _ \<Rightarrow> True)"
proof -
  let ?n = "length (takeWhile is_flag p)"
  consider "?n > 5" | e where "?n \<le> 5" "scan_width (drop ?n p) as = Inl e" | "?n \<le> 5" "scan_width (drop ?n p) as = Inr None"
    | v t q as' where "?n \<le> 5" "scan_width (drop ?n p) as = Inr (Some (v, t, q, as'))"
    by (cases "scan_width (drop ?n p) as"; cases "?n > 5"; cases "projr (scan_width (drop ?n p) as)") auto
  then show ?thesis
  proof cases
    case (4 v t q as')
    let ?fl = "take ?n p"
    note t = scan_width_text [OF 4(2)]
    show ?thesis
    proof (cases "scan_precision q as'")
      case (Inl e)
      with 4 scan_number_fault(2) [of q as'] show ?thesis by (auto simp: scan_slow_def CopyAndAdvance_def)
    next
      case (Inr w)
      show ?thesis
      proof (cases w)
        case (Some x)
        obtain v' t' q' as'' where x: "x = (v', t', q', as'')" by (cases x)
        have "length t' \<le> 7" using scan_precision_text Inr Some x by simp
        with 4 t Inr Some x show ?thesis by (auto simp: scan_slow_def CopyAndAdvance_def ASSERT_def Let_def)
      qed (use 4 Inr in \<open>simp add: scan_slow_def CopyAndAdvance_def\<close>)
    qed
  qed (use scan_number_fault(1) [of "drop ?n p" as] in \<open>auto simp: scan_slow_def CopyAndAdvance_def\<close>)
qed

text \<open>A field width of 100 or more bytes.\<close>

definition int_conv :: "num \<Rightarrow> int \<Rightarrow> conv" where
  "int_conv w i = \<lparr>cflags = [], cwidth = w, cprec = None, cmod = 32, cop = 100, carg = AInt i\<rparr>"

lemma int_conv_scans: "width_ok w \<Longrightarrow> conv_scans (int_conv w i)"
  by (simp add: int_conv_def conv_scans_def)

lemma length_signed_wide:
  assumes "46 \<le> swidth sp" "sprec sp = None" "INT_MIN \<le> i" "i \<le> INT_MAX"
  shows "length (signed_text sp i) = swidth sp"
proof -
  have "length (digits 10 False (nat \<bar>i\<bar>)) \<le> 20" using length_digits [of 10 20 "nat \<bar>i\<bar>"] assms by simp
  with assms show ?thesis by (auto simp: signed_text_def value_digits_def int_text_def length_pad_to Let_def)
qed

text \<open>
  C26.  The decimal conversion \<open>%<width>d\<close> without flags, precision and size, with a field width of
  100 or more that is given as digits or as an argument, writes past its buffer, whatever the
  value.  Given as digits or as a positive argument the width is the size of the buffer, which
  leaves no byte for the terminating NUL; a negative argument, which asks for left justification,
  does not count for the size of the buffer at all.
\<close>

theorem printf_wide:
  assumes w: "width_ok w" "100 \<le> \<bar>num_val w\<bar>" and i: "INT_MIN \<le> i" "i \<le> INT_MAX"
    and heap: "num_val w \<le> int (heapLimit (os s))"
  shows "FCGX_FPrintF lib fexp emptyp k (37 # num_chars w @ [100, 0]) (num_args w @ [AInt i]) s =
    Inl (if num_val w \<le> 100 then StackOverflow else HeapOverflow)"
proof -
  let ?c = "int_conv w i" and ?st = "\<lparr>pstream = s, streamCount = 0, pargs = num_args w @ [AInt i], auxBuff = None, stores = []\<rparr>"
  note c = int_conv_scans [OF w(1), of i]
  have ch: "conv_chars ?c = num_chars w @ [100]" "star_args ?c = num_args w" "\<not> plain ?c"
    using w by (auto simp: int_conv_def conv_chars_def star_args_def plain_def dotted_def mod_chars_def)
  have "conv_text ?c = Some (signed_text (conv_spec ?c) i)" by (simp add: conv_text_def arg_text_def conv_spec_def int_conv_def)
  note rq = slow_reqd_conv(1) [OF c this]
  have f: "cmod ?c = 32" "cop ?c = 100" "cwidth ?c = w" "conv_room ?c = 56"
    by (simp_all add: int_conv_def conv_room_def prec_val_def)
  have len: "length (signed_text (parse_spec (spec_chars ?c)) i) = nat \<bar>num_val w\<bar>"
    using length_signed_wide [OF _ _ i, of "parse_spec (spec_chars ?c)"] parse_spec_conv [OF c] w(2)
    by (simp add: conv_spec_def int_conv_def)
  define b where "b = (if num_val w \<le> 100 then Array else Block (nat (num_val w)))"
  have al: "alloc_buff (max 56 (num_val w)) st = Inr (b, st\<lparr>auxBuff := if num_val w \<le> 100 then auxBuff st else Some (nat (num_val w))\<rparr>)"
    if "auxBuff st = None" "pstream st = s" for st
    using that heap by (auto simp: alloc_buff_def b_def ASSERT_def)
  have ov: "into_buff b (signed_text (parse_spec (spec_chars ?c)) i) = Inl (if num_val w \<le> 100 then StackOverflow else HeapOverflow)"
    using len w(2) by (auto simp: into_buff_def b_def)
  have "directive lib fexp (conv_chars ?c @ []) ?st = Inl (if num_val w \<le> 100 then StackOverflow else HeapOverflow)"
  proof -
    have "slow_path lib fexp (conv_chars ?c @ []) ?st = Inl (if num_val w \<le> 100 then StackOverflow else HeapOverflow)"
      using scan_slow_conv [OF c, of "[]" "[AInt i]", unfolded ch(2)] rq al ov
      by (simp add: slow_path_def f perform_op_def perform_signed_def perform_text_def)
    with not_performed [OF first_char [OF c ch(3), of "[]"]] show ?thesis by (simp add: directive_def)
  qed
  moreover have "0 \<notin> set (num_chars w)" using w(1) spec_char_not_nul by (cases w) (auto simp: digits_ok_def)
  then have "cstr (37 # num_chars w @ [100, 0]) = [] @ 37 # conv_chars ?c"
    using cstr_append [of "37 # num_chars w @ [100]" "[0]"] by (simp add: ch cstr_def)
  ultimately show ?thesis
    unfolding FCGX_FPrintF_def FCGX_VFPrintF_def
    by (subst VFPrintF_loop.simps) (simp add: put_bytes_def)
qed

theorem printf_wide_witness:
  "FCGX_FPrintF (\<lambda>_ _. []) (\<lambda>_. 0) EmptyBuffProc 9 (37 # num_chars (Digits [49, 48, 49]) @ [100, 0])
      (num_args (Digits [49, 48, 49]) @ [AInt 5]) demo_writer = Inl HeapOverflow
    \<and> FCGX_FPrintF (\<lambda>_ _. []) (\<lambda>_. 0) EmptyBuffProc 9 (37 # num_chars (Star (- 100)) @ [100, 0])
      (num_args (Star (- 100)) @ [AInt 5]) demo_writer = Inl StackOverflow"
proof -
  have h: "1000 \<le> heapLimit (os demo_writer)" by (simp add: demo_writer_def)
  then show ?thesis
    using printf_wide [of "Digits [49, 48, 49]" 5 demo_writer "\<lambda>_ _. []" "\<lambda>_. 0" EmptyBuffProc 9]
      printf_wide [of "Star (- 100)" 5 demo_writer "\<lambda>_ _. []" "\<lambda>_. 0" EmptyBuffProc 9]
    by (simp add: digits_ok_def is_dec_def strtol_def)
qed

text \<open>
  C27.  A negative precision argument is taken for 0: the string conversion \<open>%.*s\<close> then prints
  nothing and returns 0, where the C standard takes it as if the precision were left out.
\<close>

theorem printf_negative_precision:
  assumes "p < 0"
  shows "FCGX_FPrintF lib fexp emptyp k [37, 46, 42, 115, 0] [AInt p, AStr (Some t)] s = Inr (0, [], s)"
proof -
  let ?st = "\<lparr>pstream = s, streamCount = 0, pargs = [AInt p, AStr (Some t)], auxBuff = None, stores = []\<rparr>"
  have fmt: "parse_spec [46, 48, 115] = \<lparr>sflags = [], swidth = 0, sprec = Some 0, sop = 115\<rparr>"
    by (simp add: parse_spec_def is_flag_def is_dec_def strtol_def)
  have "scan_slow [46, 42, 115] [AInt p, AStr (Some t)] =
      Inr (Some (\<lparr>fmtBuff = [37, 46, 48, 115], minWidth = 0, precision = 0, sizeModifier = 32, slow_op = 115,
        specifierLength = 4\<rparr>, [AStr (Some t)]))"
    using assms by (simp add: scan_slow_def scan_width_def scan_precision_def va_int_def CopyAndAdvance_def
        is_flag_def is_dec_def dec_def digits_zero)
  then have "directive lib fexp [46, 42, 115] ?st = Inr (Some (3, [], 100), ?st\<lparr>pargs := []\<rparr>)"
    by (simp add: directive_def not_performed(1) [of 46, simplified] slow_path_def slow_reqd_def alloc_buff_def perform_op_def
        perform_string_def perform_text_def fmt string_text_def pad_to_def into_buff_def cstr_def)
  then show ?thesis
    unfolding FCGX_FPrintF_def FCGX_VFPrintF_def
    by (subst VFPrintF_loop.simps) (simp add: cstr_def put_bytes_def VFPrintF_loop.simps [of _ _ _ _ "[]"])
qed

theorem printf_negative_precision_witness:
  "FCGX_FPrintF (\<lambda>_ _. []) (\<lambda>_. 0) EmptyBuffProc 9 [37, 46, 42, 115, 0] [AInt (- 1), AStr (Some [97])] demo_writer =
     Inr (0, [], demo_writer)"
  by (rule printf_negative_precision) simp

text \<open>A format with every kind of piece.\<close>

definition demo_pieces :: "piece list" where
  "demo_pieces = [Lit [97], Conv \<lparr>cflags = [45], cwidth = Star (- 5), cprec = None, cmod = 32, cop = 120, carg = AInt 255\<rparr>,
     Percent, Conv \<lparr>cflags = [], cwidth = Absent, cprec = None, cmod = 32, cop = 115, carg = AStr (Some [98])\<rparr>, Count 1]"

theorem printf_expands_witness:
  "\<exists>s' s'' recs. FCGX_FPrintF (\<lambda>_ _. []) (\<lambda>_. 0) EmptyBuffProc 99 (format_of demo_pieces @ 0 # []) (args_of demo_pieces @ []) demo_writer =
      Inr (int (length (output_of demo_pieces)), counted 0 demo_pieces, s')
    \<and> FCGX_FFlush EmptyBuffProc s' = Inr (0, s'')
    \<and> transmitted (ipcFd (zero_data\<lparr>requestId := 7, ipcFd := 3, nWriters := 2\<rparr>)) (os demo_writer)
        (wire (requestId (zero_data\<lparr>requestId := 7, ipcFd := 3, nWriters := 2\<rparr>)) recs) (os s'')
    \<and> stream_recs FCGI_STDOUT [] recs (output_of demo_pieces)"
proof (rule printf_expands [OF demo_writer])
  have h: "1000 \<le> heapLimit (os demo_writer)" by (simp add: demo_writer_def)
  have ff: "digits 16 False 255 = [102, 102]" by (simp add: digits.simps digit_def)
  note defs = demo_pieces_def conv_ok_def conv_scans_def conv_text_def arg_text_def conv_spec_def arg_ok_def conv_room_def prec_val_def
    plain_def is_flag_def held_string_def cstr_def string_text_def pad_to_def unsigned_text_def int_text_def value_digits_def ff Let_def
  show "\<forall>p \<in> set demo_pieces. piece_ok (heapLimit (os demo_writer)) p" using h by (simp add: defs)
  show "int (length (output_of demo_pieces)) < INT_MAX" "length (output_of demo_pieces) < 99" by (simp_all add: defs)
qed

end
