(* ===== verification/Fcgi_Stdio.thy ===== *)
theory Fcgi_Stdio
  imports Fcgi_Format
begin

text \<open>
  The stdio emulation, \<open>libfcgi/fcgi_stdio.c\<close>: every wrapper works on an \<open>FCGI_FILE\<close>, which has
  either a \<open>FILE\<close> of the C library or a stream of the current request behind it.

  The C library's side is a small model of \<open>FILE\<close> by the C standard: the bytes of the file, the
  position, one pushed back character, the end of file and error indicators.  Which files an open
  call gives is an input of the model (\<open>opens\<close>), and so is the text \<open>vfprintf\<close> produces.  Pointers
  to \<open>FILE\<close> and \<open>FCGI_FILE\<close> objects are addresses; an address with nothing behind it is an object
  that was freed.  A pointer to an \<open>FCGX_Stream\<close> is one of the three streams of the static request.
\<close>

section \<open>\<open>FILE\<close>\<close>

record FILE =
  fdat :: bytes
  fofs :: nat
  pushed :: "byte option"
  eofFlag :: bool
  errFlag :: bool
  fdno :: int
  canRead :: bool
  canWrite :: bool
  canSeek :: bool

definition c_fgetc :: "FILE \<Rightarrow> int \<times> FILE" where
  "c_fgetc f =
     (if \<not> canRead f then (EOF, f\<lparr>errFlag := True\<rparr>)
      else case pushed f of
          Some b \<Rightarrow> (uint b, f\<lparr>pushed := None\<rparr>)
        | None \<Rightarrow> if fofs f < length (fdat f) then (uint (fdat f ! fofs f), f\<lparr>fofs := Suc (fofs f)\<rparr>)
            else (EOF, f\<lparr>eofFlag := True\<rparr>))"

definition c_ungetc :: "int \<Rightarrow> FILE \<Rightarrow> int \<times> FILE" where
  "c_ungetc c f =
     (if c = EOF \<or> \<not> canRead f \<or> pushed f \<noteq> None then (EOF, f)
      else (c mod 256, f\<lparr>pushed := Some (word_of_int c), eofFlag := False\<rparr>))"

primrec c_fgets_loop :: "nat \<Rightarrow> bytes \<Rightarrow> FILE \<Rightarrow> bytes option \<times> FILE" where
  "c_fgets_loop 0 acc f = (Some acc, f)"
| "c_fgets_loop (Suc n) acc f =
     (case c_fgetc f of (c, f) \<Rightarrow>
        if c = EOF then (if acc = [] then None else Some acc, f)
        else if c = 10 then (Some (acc @ [word_of_int c]), f)
        else c_fgets_loop n (acc @ [word_of_int c]) f)"

text \<open>Without room for the NUL \<open>fgets\<close> returns a null pointer.\<close>

definition c_fgets :: "int \<Rightarrow> FILE \<Rightarrow> bytes option \<times> FILE" where
  "c_fgets n f = (if n \<le> 0 then (None, f) else c_fgets_loop (nat (n - 1)) [] f)"

primrec c_read :: "nat \<Rightarrow> FILE \<Rightarrow> bytes \<times> FILE" where
  "c_read 0 f = ([], f)"
| "c_read (Suc n) f =
     (case c_fgetc f of (c, f) \<Rightarrow>
        if c = EOF then ([], f) else case c_read n f of (bs, f) \<Rightarrow> (word_of_int c # bs, f))"

definition c_fputc :: "int \<Rightarrow> FILE \<Rightarrow> int \<times> FILE" where
  "c_fputc c f =
     (if canWrite f
      then (c mod 256, f\<lparr>fdat := take (fofs f) (fdat f) @ [word_of_int c] @ drop (Suc (fofs f)) (fdat f), fofs := Suc (fofs f)\<rparr>)
      else (EOF, f\<lparr>errFlag := True\<rparr>))"

fun c_write :: "bytes \<Rightarrow> FILE \<Rightarrow> nat \<times> FILE" where
  "c_write [] f = (0, f)"
| "c_write (b # bs) f =
     (case c_fputc (uint b) f of (c, f) \<Rightarrow>
        if c = EOF then (0, f) else case c_write bs f of (n, f) \<Rightarrow> (Suc n, f))"

definition c_fputs :: "bytes \<Rightarrow> FILE \<Rightarrow> int \<times> FILE" where
  "c_fputs str f = (case c_write (cstr str) f of (n, f) \<Rightarrow> (if n < length (cstr str) then EOF else int n, f))"

definition c_fread :: "nat \<Rightarrow> nat \<Rightarrow> FILE \<Rightarrow> (nat \<times> bytes) \<times> FILE" where
  "c_fread sz nmemb f =
     (if sz * nmemb = 0 then ((0, []), f)
      else case c_read (sz * nmemb) f of (bs, f) \<Rightarrow> ((length bs div sz, bs), f))"

definition c_fwrite :: "bytes \<Rightarrow> nat \<Rightarrow> nat \<Rightarrow> FILE \<Rightarrow> nat \<times> FILE" where
  "c_fwrite data sz nmemb f =
     (if sz * nmemb = 0 then (0, f)
      else case c_write (take (sz * nmemb) data) f of (n, f) \<Rightarrow> (n div sz, f))"

text \<open>\<open>whence\<close> is \<open>SEEK_SET\<close> 0, \<open>SEEK_CUR\<close> 1 or \<open>SEEK_END\<close> 2.\<close>

definition c_fseek :: "int \<Rightarrow> int \<Rightarrow> FILE \<Rightarrow> int \<times> FILE" where
  "c_fseek offset whence f =
     (let base = (if whence = 0 then 0 else if whence = 1 then int (fofs f) else int (length (fdat f))) in
      if \<not> canSeek f \<or> whence \<notin> {0, 1, 2} \<or> base + offset < 0 then (- 1, f)
      else (0, f\<lparr>fofs := nat (base + offset), pushed := None, eofFlag := False\<rparr>))"

definition c_ftell :: "FILE \<Rightarrow> int \<times> FILE" where
  "c_ftell f = (if canSeek f then int (fofs f) else - 1, f)"

definition c_rewind :: "FILE \<Rightarrow> unit \<times> FILE" where
  "c_rewind f = ((), (snd (c_fseek 0 0 f))\<lparr>errFlag := False\<rparr>)"

definition c_clearerr :: "FILE \<Rightarrow> unit \<times> FILE" where
  "c_clearerr f = ((), f\<lparr>eofFlag := False, errFlag := False\<rparr>)"

section \<open>State\<close>

datatype which = In | Out | Err

record FCGI_FILE =
  stdio_stream :: "nat option"
  fcgx_stream :: "which option"

record stdio =
  fcgi_file :: "nat \<Rightarrow> FCGI_FILE option"
  nextFile :: nat
  files :: "nat \<Rightarrow> FILE option"
  nextFILE :: nat
  opens :: "FILE option list"
  acceptCalled :: bool
  isCGI :: bool
  finishAtExit :: nat
  environ :: "cell list option"
  fcgx :: fcgx_lib
  sys :: os_unix
  vformat :: "bytes \<Rightarrow> arg list \<Rightarrow> bytes"
  strerror :: "int \<Rightarrow> bytes"

abbreviation (input) FCGI_stdin :: nat where "FCGI_stdin \<equiv> 0"
abbreviation (input) FCGI_stdout :: nat where "FCGI_stdout \<equiv> 1"
abbreviation (input) FCGI_stderr :: nat where "FCGI_stderr \<equiv> 2"

text \<open>The addresses of the C library's \<open>stdin\<close>, \<open>stdout\<close> and \<open>stderr\<close> are 0, 1 and 2 as well.\<close>

definition the_file :: "nat \<Rightarrow> stdio \<Rightarrow> FCGI_FILE res" where
  "the_file fp st = (case fcgi_file st fp of None \<Rightarrow> Inl UseAfterFree | Some x \<Rightarrow> Inr x)"

definition set_file :: "nat \<Rightarrow> FCGI_FILE \<Rightarrow> stdio \<Rightarrow> stdio" where
  "set_file fp x st = st\<lparr>fcgi_file := (fcgi_file st)(fp := Some x)\<rparr>"

definition on_FILE :: "nat \<Rightarrow> (FILE \<Rightarrow> 'a \<times> FILE) \<Rightarrow> stdio \<Rightarrow> ('a \<times> stdio) res" where
  "on_FILE a op st =
     (case files st a of
        None \<Rightarrow> Inl UseAfterFree
      | Some f \<Rightarrow> case op f of (x, f) \<Rightarrow> Inr (x, st\<lparr>files := (files st)(a := Some f)\<rparr>))"

definition req_stream :: "which \<Rightarrow> FCGX_Request \<Rightarrow> FCGX_Stream_Data option" where
  "req_stream x req = (case x of In \<Rightarrow> in_stream req | Out \<Rightarrow> out_stream req | Err \<Rightarrow> err_stream req)"

definition put_req_stream :: "which \<Rightarrow> FCGX_Stream_Data \<Rightarrow> FCGX_Request \<Rightarrow> FCGX_Request" where
  "put_req_stream x d req =
     (case x of In \<Rightarrow> req\<lparr>in_stream := Some d\<rparr> | Out \<Rightarrow> req\<lparr>out_stream := Some d\<rparr> | Err \<Rightarrow> req\<lparr>err_stream := Some d\<rparr>)"

definition on_stream :: "which \<Rightarrow> (stream_io \<Rightarrow> ('a \<times> stream_io) res) \<Rightarrow> stdio \<Rightarrow> ('a \<times> stdio) res" where
  "on_stream x op st =
     (let req = the_request (fcgx st) in
      case req_stream x req of
        None \<Rightarrow> Inl UseAfterFree
      | Some d \<Rightarrow> bindR (op (attach d (rdata req) (sys st))) (\<lambda>(r, s).
          Inr (r, st\<lparr>fcgx := (fcgx st)\<lparr>the_request := (put_req_stream x (detach s) req)\<lparr>rdata := reqDataPtr s\<rparr>\<rparr>, sys := os s\<rparr>)))"

text \<open>
  The shape of most wrappers: the C library's function on \<open>fp->stdio_stream\<close>, the stream
  operation on \<open>fp->fcgx_stream\<close>, or a result when there is neither.
\<close>

definition either_stream ::
  "nat \<Rightarrow> (FILE \<Rightarrow> 'a \<times> FILE) \<Rightarrow> (stream_io \<Rightarrow> ('a \<times> stream_io) res) \<Rightarrow> 'a \<Rightarrow> stdio \<Rightarrow> ('a \<times> stdio) res" where
  "either_stream fp hop xop dflt st =
     bindR (the_file fp st) (\<lambda>f.
     case stdio_stream f of
       Some a \<Rightarrow> on_FILE a hop st
     | None \<Rightarrow> case fcgx_stream f of Some x \<Rightarrow> on_stream x xop st | None \<Rightarrow> Inr (dflt, st))"

abbreviation (input) ESPIPE :: int where "ESPIPE \<equiv> 29"

text \<open>\<open>else { OS_SetErrno(ESPIPE); return -1; }\<close>\<close>

definition seekable :: "nat \<Rightarrow> (FILE \<Rightarrow> 'a \<times> FILE) \<Rightarrow> 'a \<Rightarrow> stdio \<Rightarrow> ('a \<times> stdio) res" where
  "seekable fp hop dflt st =
     bindR (the_file fp st) (\<lambda>f.
     case stdio_stream f of
       Some a \<Rightarrow> on_FILE a hop st
     | None \<Rightarrow> Inr (dflt, st\<lparr>sys := (sys st)\<lparr>errno := ESPIPE\<rparr>\<rparr>))"

section \<open>Requests\<close>

definition std_files :: "(nat \<Rightarrow> FCGI_FILE) \<Rightarrow> stdio \<Rightarrow> stdio" where
  "std_files x st = set_file FCGI_stderr (x 2) (set_file FCGI_stdout (x 1) (set_file FCGI_stdin (x 0) st))"

definition which_of :: "nat \<Rightarrow> which" where
  "which_of i = (if i = 0 then In else if i = 1 then Out else Err)"

text \<open>
  The part of \<open>FCGI_Accept\<close> after the first test.  \<open>FCGX_Accept\<close> has a positive result only if the
  library could not be initialised; the pointers are then not set and there are no streams.
\<close>

definition accept_files :: "nat \<Rightarrow> nat \<Rightarrow> stdio \<Rightarrow> (int \<times> stdio) res" where
  "accept_files n k st =
     (if isCGI st then Inr (0, std_files (\<lambda>i. \<lparr>stdio_stream = Some i, fcgx_stream = None\<rparr>) st)
      else bindR (FCGX_Accept n k (fcgx st) (sys st)) (\<lambda>(acceptResult, l, w).
        let st = st\<lparr>fcgx := l, sys := w\<rparr> in
        if acceptResult < 0 then Inr (acceptResult, st)
        else Inr (0, (std_files (\<lambda>i. \<lparr>stdio_stream = None, fcgx_stream = Some (which_of i)\<rparr>) st)
               \<lparr>environ := envp (the_request l)\<rparr>)))"

definition FCGI_Accept :: "nat \<Rightarrow> nat \<Rightarrow> stdio \<Rightarrow> (int \<times> stdio) res" where
  "FCGI_Accept n k st =
     (if \<not> acceptCalled st
      then bindR (FCGX_IsCGI (fcgx st) (sys st)) (\<lambda>(b, l, w).
        accept_files n k (st\<lparr>fcgx := l, sys := w, isCGI := b, acceptCalled := True, finishAtExit := Suc (finishAtExit st)\<rparr>))
      else if isCGI st then Inr (EOF, st)
      else accept_files n k st)"

definition FCGI_Environ :: "stdio \<Rightarrow> cell list option" where
  "FCGI_Environ st = environ st"

definition no_fcgx :: "nat \<Rightarrow> stdio \<Rightarrow> stdio" where
  "no_fcgx i st = (case fcgi_file st i of None \<Rightarrow> st | Some x \<Rightarrow> set_file i (x\<lparr>fcgx_stream := None\<rparr>) st)"

definition FCGI_Finish :: "stdio \<Rightarrow> stdio res" where
  "FCGI_Finish st =
     (if \<not> acceptCalled st \<or> isCGI st then Inr st
      else bindR (FCGX_Finish (fcgx st) (sys st)) (\<lambda>(l, w).
        Inr ((no_fcgx FCGI_stderr (no_fcgx FCGI_stdout (no_fcgx FCGI_stdin (st\<lparr>fcgx := l, sys := w\<rparr>))))\<lparr>environ := None\<rparr>)))"

definition FCGI_StartFilterData :: "stdio \<Rightarrow> (int \<times> stdio) res" where
  "FCGI_StartFilterData st =
     bindR (the_file FCGI_stdin st) (\<lambda>f.
     if stdio_stream f \<noteq> None then Inr (- 1, st)
     else case fcgx_stream f of None \<Rightarrow> Inl NullDeref | Some x \<Rightarrow> on_stream x FCGX_StartFilterData st)"

definition FCGI_SetExitStatus :: "int \<Rightarrow> stdio \<Rightarrow> stdio res" where
  "FCGI_SetExitStatus status st =
     bindR (the_file FCGI_stdin st) (\<lambda>f.
     case fcgx_stream f of
       None \<Rightarrow> Inr st
     | Some x \<Rightarrow> bindR (on_stream x (\<lambda>s. Inr ((), FCGX_SetExitStatus status s)) st) (\<lambda>(_, st). Inr st))"

section \<open>Opening and closing\<close>

abbreviation (input) sizeof_FCGI_FILE :: nat where "sizeof_FCGI_FILE \<equiv> 16"

text \<open>The next answer of \<open>fopen\<close>, \<open>tmpfile\<close>, \<open>fdopen\<close> or \<open>popen\<close>.\<close>

definition c_open :: "stdio \<Rightarrow> nat option \<times> stdio" where
  "c_open st =
     (case opens st of
        Some f # fs \<Rightarrow> (Some (nextFILE st),
          st\<lparr>opens := fs, files := (files st)(nextFILE st := Some f), nextFILE := Suc (nextFILE st)\<rparr>)
      | fs \<Rightarrow> (None, st\<lparr>opens := tl fs\<rparr>))"

definition c_close :: "nat \<Rightarrow> stdio \<Rightarrow> (int \<times> stdio) res" where
  "c_close a st =
     (case files st a of
        None \<Rightarrow> Inl UseAfterFree
      | Some f \<Rightarrow> Inr (if errFlag f then EOF else 0, st\<lparr>files := (files st)(a := None)\<rparr>))"

definition FCGI_OpenFromFILE :: "nat option \<Rightarrow> stdio \<Rightarrow> nat option \<times> stdio" where
  "FCGI_OpenFromFILE stream st =
     (case stream of
        None \<Rightarrow> (None, st)
      | Some a \<Rightarrow>
          if sizeof_FCGI_FILE \<le> heapLimit (sys st)
          then (Some (nextFile st),
            (set_file (nextFile st) \<lparr>stdio_stream = Some a, fcgx_stream = None\<rparr> st)\<lparr>nextFile := Suc (nextFile st)\<rparr>)
          else (None, st))"

text \<open>The common body of \<open>FCGI_fopen\<close>, \<open>FCGI_tmpfile\<close>, \<open>FCGI_fdopen\<close> and \<open>FCGI_popen\<close>.\<close>

definition open_file :: "stdio \<Rightarrow> (nat option \<times> stdio) res" where
  "open_file st =
     (case c_open st of (file, st) \<Rightarrow>
      case FCGI_OpenFromFILE file st of (fp, st) \<Rightarrow>
        case (file, fp) of
          (Some a, None) \<Rightarrow> bindR (c_close a st) (\<lambda>(_, st). Inr (None, st))
        | _ \<Rightarrow> Inr (fp, st))"

definition FCGI_fopen :: "bytes \<Rightarrow> bytes \<Rightarrow> stdio \<Rightarrow> (nat option \<times> stdio) res" where
  "FCGI_fopen path mode st = open_file st"

definition FCGI_tmpfile :: "stdio \<Rightarrow> (nat option \<times> stdio) res" where
  "FCGI_tmpfile st = open_file st"

definition FCGI_fdopen :: "int \<Rightarrow> bytes \<Rightarrow> stdio \<Rightarrow> (nat option \<times> stdio) res" where
  "FCGI_fdopen fd mode st = open_file st"

definition FCGI_popen :: "bytes \<Rightarrow> bytes \<Rightarrow> stdio \<Rightarrow> (nat option \<times> stdio) res" where
  "FCGI_popen cmd ty st = open_file st"

definition free_file :: "nat \<Rightarrow> stdio \<Rightarrow> stdio" where
  "free_file fp st =
     (if fp \<noteq> FCGI_stdin \<and> fp \<noteq> FCGI_stdout \<and> fp \<noteq> FCGI_stderr
      then st\<lparr>fcgi_file := (fcgi_file st)(fp := None)\<rparr> else st)"

definition FCGI_fclose :: "nat \<Rightarrow> stdio \<Rightarrow> (int \<times> stdio) res" where
  "FCGI_fclose fp st =
     bindR (the_file fp st) (\<lambda>f.
     bindR
       (case stdio_stream f of
          Some a \<Rightarrow> bindR (c_close a st) (\<lambda>(n, st). Inr (n, set_file fp (f\<lparr>stdio_stream := None\<rparr>) st))
        | None \<Rightarrow>
           (case fcgx_stream f of
              Some x \<Rightarrow> bindR (on_stream x (FCGX_FClose EmptyBuffProc) st) (\<lambda>(n, st).
                Inr (n, set_file fp (f\<lparr>fcgx_stream := None\<rparr>) st))
            | None \<Rightarrow> Inr (EOF, st))) (\<lambda>(n, st).
     Inr (n, free_file fp st)))"

definition FCGI_pclose :: "nat \<Rightarrow> stdio \<Rightarrow> (int \<times> stdio) res" where
  "FCGI_pclose fp st =
     bindR (the_file fp st) (\<lambda>f.
     case stdio_stream f of
       Some a \<Rightarrow> bindR (c_close a st) (\<lambda>(n, st). Inr (n, free_file fp (set_file fp (f\<lparr>stdio_stream := None\<rparr>) st)))
     | None \<Rightarrow> if fcgx_stream f \<noteq> None then Inr (EOF, st) else Inr (EOF, free_file fp st))"

text \<open>\<open>fflush(NULL)\<close> does not change what the model of a file holds.\<close>

definition FCGI_fflush :: "nat option \<Rightarrow> stdio \<Rightarrow> (int \<times> stdio) res" where
  "FCGI_fflush fp st =
     (case fp of
        None \<Rightarrow> Inr (0, st)
      | Some fp \<Rightarrow> either_stream fp (\<lambda>f. (0, f)) (FCGX_FFlush EmptyBuffProc) EOF st)"

text \<open>\<open>freopen\<close> closes the file it is given and puts another in its place, or fails.\<close>

definition c_freopen :: "nat \<Rightarrow> stdio \<Rightarrow> (bool \<times> stdio) res" where
  "c_freopen a st =
     (case files st a of
        None \<Rightarrow> Inl UseAfterFree
      | Some _ \<Rightarrow> (case opens st of
            Some f # fs \<Rightarrow> Inr (True, st\<lparr>opens := fs, files := (files st)(a := Some f)\<rparr>)
          | fs \<Rightarrow> Inr (False, st\<lparr>opens := tl fs, files := (files st)(a := None)\<rparr>)))"

definition FCGI_freopen :: "bytes \<Rightarrow> bytes \<Rightarrow> nat \<Rightarrow> stdio \<Rightarrow> (nat option \<times> stdio) res" where
  "FCGI_freopen path mode fp st =
     bindR (the_file fp st) (\<lambda>f.
     case stdio_stream f of
       Some a \<Rightarrow> bindR (c_freopen a st) (\<lambda>(ok, st). Inr (if ok then Some fp else None, st))
     | None \<Rightarrow>
        (case fcgx_stream f of
           Some x \<Rightarrow> bindR (on_stream x (FCGX_FClose EmptyBuffProc) st) (\<lambda>(_, st).
             case c_open st of
               (None, st) \<Rightarrow> Inr (None, set_file fp (f\<lparr>stdio_stream := None\<rparr>) st)
             | (Some a, st) \<Rightarrow> Inr (Some fp, set_file fp \<lparr>stdio_stream = Some a, fcgx_stream = None\<rparr> st))
         | None \<Rightarrow> Inr (None, st)))"

section \<open>Buffering and positioning\<close>

definition FCGI_setvbuf :: "nat \<Rightarrow> stdio \<Rightarrow> (int \<times> stdio) res" where
  "FCGI_setvbuf fp st =
     bindR (the_file fp st) (\<lambda>f.
     case stdio_stream f of Some a \<Rightarrow> on_FILE a (\<lambda>h. (0, h)) st | None \<Rightarrow> Inr (- 1, st))"

definition FCGI_setbuf :: "nat \<Rightarrow> stdio \<Rightarrow> stdio res" where
  "FCGI_setbuf fp st =
     bindR (the_file fp st) (\<lambda>f.
     case stdio_stream f of
       Some a \<Rightarrow> bindR (on_FILE a (\<lambda>h. ((), h)) st) (\<lambda>(_, st). Inr st)
     | None \<Rightarrow> Inr st)"

definition FCGI_fseek :: "nat \<Rightarrow> int \<Rightarrow> int \<Rightarrow> stdio \<Rightarrow> (int \<times> stdio) res" where
  "FCGI_fseek fp offset whence st = seekable fp (c_fseek offset whence) (- 1) st"

text \<open>The result of \<open>ftell\<close> is a \<open>long\<close>, that of \<open>FCGI_ftell\<close> an \<open>int\<close>.\<close>

definition FCGI_ftell :: "nat \<Rightarrow> stdio \<Rightarrow> (int \<times> stdio) res" where
  "FCGI_ftell fp st = seekable fp (\<lambda>h. case c_ftell h of (n, h) \<Rightarrow> (wrap32 n, h)) (- 1) st"

definition FCGI_rewind :: "nat \<Rightarrow> stdio \<Rightarrow> (unit \<times> stdio) res" where
  "FCGI_rewind fp st = seekable fp c_rewind () st"

text \<open>An \<open>fpos_t\<close> is an offset.\<close>

definition FCGI_fgetpos :: "nat \<Rightarrow> stdio \<Rightarrow> ((int \<times> int) \<times> stdio) res" where
  "FCGI_fgetpos fp st =
     seekable fp (\<lambda>h. case c_ftell h of (n, h) \<Rightarrow> ((if n < 0 then - 1 else 0, n), h)) (- 1, 0) st"

definition FCGI_fsetpos :: "nat \<Rightarrow> int \<Rightarrow> stdio \<Rightarrow> (int \<times> stdio) res" where
  "FCGI_fsetpos fp pos st = seekable fp (c_fseek pos 0) (- 1) st"

section \<open>Reading\<close>

definition FCGI_fgetc :: "nat \<Rightarrow> nat \<Rightarrow> stdio \<Rightarrow> (int \<times> stdio) res" where
  "FCGI_fgetc k fp st = either_stream fp c_fgetc (FCGX_GetChar (FillBuffProc k [])) EOF st"

definition FCGI_getchar :: "nat \<Rightarrow> stdio \<Rightarrow> (int \<times> stdio) res" where
  "FCGI_getchar k st = FCGI_fgetc k FCGI_stdin st"

definition FCGI_ungetc :: "int \<Rightarrow> nat \<Rightarrow> stdio \<Rightarrow> (int \<times> stdio) res" where
  "FCGI_ungetc c fp st = either_stream fp (c_ungetc c) (FCGX_UnGetChar c) EOF st"

definition FCGI_fgets :: "nat \<Rightarrow> int \<Rightarrow> nat \<Rightarrow> stdio \<Rightarrow> (bytes option \<times> stdio) res" where
  "FCGI_fgets k n fp st = either_stream fp (c_fgets n) (FCGX_GetLine (FillBuffProc k []) n) None st"

text \<open>\<open>FCGI_gets\<close>, one round per character; \<open>acc\<close> are the characters stored so far.\<close>

primrec gets_loop :: "nat \<Rightarrow> nat \<Rightarrow> bytes \<Rightarrow> stdio \<Rightarrow> (bytes option \<times> stdio) res" where
  "gets_loop 0 k acc st = Inl OutOfFuel"
| "gets_loop (Suc n) k acc st =
     bindR (FCGI_getchar k st) (\<lambda>(c, st).
     if c = 10 then Inr (Some acc, st)
     else if c = EOF then Inr (if acc = [] then None else Some acc, st)
     else gets_loop n k (acc @ [word_of_int c]) st)"

definition FCGI_gets :: "nat \<Rightarrow> nat \<Rightarrow> stdio \<Rightarrow> (bytes option \<times> stdio) res" where
  "FCGI_gets n k st = gets_loop n k [] st"

text \<open>\<open>size * nmemb\<close> and the result are of type \<open>size_t\<close>.\<close>

abbreviation (input) SIZE_T :: nat where "SIZE_T \<equiv> 18446744073709551616"

definition FCGI_fread :: "nat \<Rightarrow> nat \<Rightarrow> nat \<Rightarrow> nat \<Rightarrow> stdio \<Rightarrow> ((nat \<times> bytes) \<times> stdio) res" where
  "FCGI_fread k sz nmemb fp st =
     either_stream fp (c_fread sz nmemb)
       (\<lambda>s. let m = (sz * nmemb) mod SIZE_T in
          if m = 0 then Inr ((0, []), s)
          else bindR (ASSERT (int m < INT_MAX)) (\<lambda>_.
            bindR (FCGX_GetStr (FillBuffProc k []) k (int m) s) (\<lambda>(bs, s). Inr ((length bs div sz, bs), s))))
       (SIZE_T - 1, []) st"

section \<open>Writing\<close>

definition FCGI_fputc :: "int \<Rightarrow> nat \<Rightarrow> stdio \<Rightarrow> (int \<times> stdio) res" where
  "FCGI_fputc c fp st = either_stream fp (c_fputc c) (FCGX_PutChar EmptyBuffProc c) EOF st"

definition FCGI_putchar :: "int \<Rightarrow> stdio \<Rightarrow> (int \<times> stdio) res" where
  "FCGI_putchar c st = FCGI_fputc c FCGI_stdout st"

definition FCGI_fputs :: "nat \<Rightarrow> bytes \<Rightarrow> nat \<Rightarrow> stdio \<Rightarrow> (int \<times> stdio) res" where
  "FCGI_fputs k str fp st = either_stream fp (c_fputs str) (FCGX_PutS EmptyBuffProc k str) EOF st"

definition FCGI_puts :: "nat \<Rightarrow> bytes \<Rightarrow> stdio \<Rightarrow> (int \<times> stdio) res" where
  "FCGI_puts k str st =
     bindR (the_file FCGI_stdout st) (\<lambda>f.
     case stdio_stream f of
       Some a \<Rightarrow> bindR (on_FILE a (c_fputs str) st) (\<lambda>(n, st). if n < 0 then Inr (n, st) else on_FILE a (c_fputc 10) st)
     | None \<Rightarrow>
        (case fcgx_stream f of
           Some x \<Rightarrow> bindR (on_stream x (FCGX_PutS EmptyBuffProc k str) st) (\<lambda>(n, st).
             if n < 0 then Inr (n, st) else on_stream x (FCGX_PutChar EmptyBuffProc 10) st)
         | None \<Rightarrow> Inr (EOF, st)))"

definition FCGI_perror :: "nat \<Rightarrow> bytes \<Rightarrow> stdio \<Rightarrow> stdio res" where
  "FCGI_perror k str st =
     bindR (FCGI_fputs k str FCGI_stderr st) (\<lambda>(_, st).
     bindR (FCGI_fputs k (chars '': '') FCGI_stderr st) (\<lambda>(_, st).
     bindR (FCGI_fputs k (strerror st (errno (sys st))) FCGI_stderr st) (\<lambda>(_, st). Inr st)))"

text \<open>What \<open>vfprintf\<close> writes is \<open>vformat\<close>'s text.\<close>

definition c_vfprintf :: "bytes \<Rightarrow> FILE \<Rightarrow> int \<times> FILE" where
  "c_vfprintf t h = (case c_write t h of (n, h) \<Rightarrow> (if n < length t then - 1 else int n, h))"

definition x_vfprintf :: "lib_sprintf \<Rightarrow> (nat \<Rightarrow> int) \<Rightarrow> nat \<Rightarrow> bytes \<Rightarrow> arg list \<Rightarrow> stream_io \<Rightarrow> (int \<times> stream_io) res" where
  "x_vfprintf lib fexp k format as s =
     bindR (FCGX_VFPrintF lib fexp EmptyBuffProc k format as s) (\<lambda>(n, _, s). Inr (n, s))"

definition FCGI_vfprintf :: "lib_sprintf \<Rightarrow> (nat \<Rightarrow> int) \<Rightarrow> nat \<Rightarrow> nat \<Rightarrow> bytes \<Rightarrow> arg list \<Rightarrow> stdio \<Rightarrow> (int \<times> stdio) res" where
  "FCGI_vfprintf lib fexp k fp format as st =
     either_stream fp (c_vfprintf (vformat st format as)) (x_vfprintf lib fexp k format as) EOF st"

definition FCGI_fprintf :: "lib_sprintf \<Rightarrow> (nat \<Rightarrow> int) \<Rightarrow> nat \<Rightarrow> nat \<Rightarrow> bytes \<Rightarrow> arg list \<Rightarrow> stdio \<Rightarrow> (int \<times> stdio) res" where
  "FCGI_fprintf lib fexp k fp format as st =
     either_stream fp (c_vfprintf (vformat st format as)) (x_vfprintf lib fexp k format as) 0 st"

definition FCGI_printf :: "lib_sprintf \<Rightarrow> (nat \<Rightarrow> int) \<Rightarrow> nat \<Rightarrow> bytes \<Rightarrow> arg list \<Rightarrow> stdio \<Rightarrow> (int \<times> stdio) res" where
  "FCGI_printf lib fexp k format as st = FCGI_vfprintf lib fexp k FCGI_stdout format as st"

definition FCGI_vprintf :: "lib_sprintf \<Rightarrow> (nat \<Rightarrow> int) \<Rightarrow> nat \<Rightarrow> bytes \<Rightarrow> arg list \<Rightarrow> stdio \<Rightarrow> (int \<times> stdio) res" where
  "FCGI_vprintf lib fexp k format as st =
     either_stream FCGI_stdout (c_vfprintf (vformat st format as)) (x_vfprintf lib fexp k format as) EOF st"

text \<open>\<open>data\<close> is the memory at \<open>ptr\<close>; reading past it is out of bounds.\<close>

definition FCGI_fwrite :: "nat \<Rightarrow> bytes \<Rightarrow> nat \<Rightarrow> nat \<Rightarrow> nat \<Rightarrow> stdio \<Rightarrow> (nat \<times> stdio) res" where
  "FCGI_fwrite k data sz nmemb fp st =
     either_stream fp (c_fwrite data sz nmemb)
       (\<lambda>s. let m = (sz * nmemb) mod SIZE_T in
          if m = 0 then Inr (0, s)
          else bindR (ASSERT (int m < INT_MAX)) (\<lambda>_.
            if length data < m then Inl OutOfBounds
            else bindR (FCGX_PutStr EmptyBuffProc k (take m data) s) (\<lambda>(n, s).
              bindR (ASSERT (n \<ge> 0)) (\<lambda>_. Inr (nat n div sz, s)))))
       (SIZE_T - 1) st"

section \<open>Indicators\<close>

definition FCGI_feof :: "nat \<Rightarrow> stdio \<Rightarrow> (int \<times> stdio) res" where
  "FCGI_feof fp st = either_stream fp (\<lambda>h. (of_bool (eofFlag h), h)) (\<lambda>s. Inr (FCGX_HasSeenEOF s, s)) (- 1) st"

definition FCGI_ferror :: "nat \<Rightarrow> stdio \<Rightarrow> (int \<times> stdio) res" where
  "FCGI_ferror fp st = either_stream fp (\<lambda>h. (of_bool (errFlag h), h)) (\<lambda>s. Inr (FCGX_GetError s, s)) (- 1) st"

definition FCGI_clearerr :: "nat \<Rightarrow> stdio \<Rightarrow> (unit \<times> stdio) res" where
  "FCGI_clearerr fp st = either_stream fp c_clearerr (\<lambda>s. Inr ((), FCGX_ClearError s)) () st"

definition FCGI_fileno :: "nat \<Rightarrow> stdio \<Rightarrow> (int \<times> stdio) res" where
  "FCGI_fileno fp st =
     bindR (the_file fp st) (\<lambda>f.
     case stdio_stream f of Some a \<Rightarrow> on_FILE a (\<lambda>h. (fdno h, h)) st | None \<Rightarrow> Inr (- 1, st))"

end
