(* ===== verification/Fcgi_Transparent.thy ===== *)
theory Fcgi_Transparent
  imports Fcgi_Stdio
begin

text \<open>
  The purpose of the stdio emulation: a program that uses it behaves the same as a CGI program and
  as a FastCGI application.  A program is an interaction tree of stdio calls; \<open>prog_spec\<close> says what
  it gets and writes on a given input.  The locale \<open>std_io\<close> states what the calls on standard input
  and output promise; it is interpreted on the files of the C library (CGI) and on the streams of a
  request (FastCGI), and the program's behaviour is derived once.
\<close>

section \<open>Programs\<close>

datatype call = Getchar | Fgets int | Gets | Fread nat nat | Putchar int | Fputs bytes | Puts bytes | Fwrite bytes nat nat

datatype answer = Char int | Line "bytes option" | Items nat bytes | Success bool

datatype prog = Done | Call call "answer \<Rightarrow> prog"

definition run_call :: "nat \<Rightarrow> call \<Rightarrow> stdio \<Rightarrow> (answer \<times> stdio) res" where
  "run_call K c st = (case c of
     Getchar \<Rightarrow> bindR (FCGI_getchar K st) (\<lambda>(n, st). Inr (Char n, st))
   | Fgets n \<Rightarrow> bindR (FCGI_fgets K n FCGI_stdin st) (\<lambda>(l, st). Inr (Line l, st))
   | Gets \<Rightarrow> bindR (FCGI_gets K K st) (\<lambda>(l, st). Inr (Line l, st))
   | Fread sz m \<Rightarrow> bindR (FCGI_fread K sz m FCGI_stdin st) (\<lambda>((n, bs), st). Inr (Items n bs, st))
   | Putchar b \<Rightarrow> bindR (FCGI_putchar b st) (\<lambda>(n, st). Inr (Char n, st))
   | Fputs str \<Rightarrow> bindR (FCGI_fputs K str FCGI_stdout st) (\<lambda>(n, st). Inr (Success (0 \<le> n), st))
   | Puts str \<Rightarrow> bindR (FCGI_puts K str st) (\<lambda>(n, st). Inr (Success (0 \<le> n), st))
   | Fwrite bs sz m \<Rightarrow> bindR (FCGI_fwrite K bs sz m FCGI_stdout st) (\<lambda>(n, st). Inr (Items n [], st)))"

primrec run_prog :: "nat \<Rightarrow> prog \<Rightarrow> stdio \<Rightarrow> (answer list \<times> stdio) res" where
  "run_prog K Done st = Inr ([], st)"
| "run_prog K (Call c f) st =
     bindR (run_call K c st) (\<lambda>(a, st). bindR (run_prog K (f a) st) (\<lambda>(as, st). Inr (a # as, st)))"

text \<open>The answer to a call on the input \<open>xs\<close>, the input left, and what is written.\<close>

definition call_spec :: "call \<Rightarrow> bytes \<Rightarrow> answer \<times> bytes \<times> bytes" where
  "call_spec c xs = (case c of
     Getchar \<Rightarrow> (Char (case xs of [] \<Rightarrow> EOF | x # _ \<Rightarrow> uint x), tl xs, [])
   | Fgets n \<Rightarrow> (Line (if 2 \<le> n \<and> xs = [] then None else Some (line_of (nat (n - 1)) xs)),
       drop (length (line_of (nat (n - 1)) xs)) xs, [])
   | Gets \<Rightarrow> (Line (if xs = [] then None else Some (takeWhile (\<lambda>b. b \<noteq> 10) xs)), tl (dropWhile (\<lambda>b. b \<noteq> 10) xs), [])
   | Fread sz m \<Rightarrow> (Items (length (take (sz * m) xs) div sz) (take (sz * m) xs), drop (sz * m) xs, [])
   | Putchar b \<Rightarrow> (Char (b mod 256), xs, [word_of_int b])
   | Fputs str \<Rightarrow> (Success True, xs, cstr str)
   | Puts str \<Rightarrow> (Success True, xs, cstr str @ [10])
   | Fwrite bs sz m \<Rightarrow> (Items (if sz * m = 0 then 0 else m) [], xs, take (sz * m) bs))"

primrec prog_spec :: "prog \<Rightarrow> bytes \<Rightarrow> answer list \<times> bytes" where
  "prog_spec Done xs = ([], [])"
| "prog_spec (Call c f) xs =
     (case call_spec c xs of (a, xs, o1) \<Rightarrow> case prog_spec (f a) xs of (as, o2) \<Rightarrow> (a # as, o1 @ o2))"

text \<open>
  The sizes of the arguments: room for a NUL in \<open>FCGI_fgets\<close>, what \<open>FCGI_fread\<close> and \<open>FCGI_fwrite\<close>
  assert, and the rounds given.
\<close>

definition call_ok :: "nat \<Rightarrow> call \<Rightarrow> bool" where
  "call_ok K c = (case c of
     Fgets n \<Rightarrow> 1 \<le> n
   | Fread sz m \<Rightarrow> int (sz * m) < INT_MAX
   | Fputs str \<Rightarrow> length (cstr str) < K \<and> int (length (cstr str)) \<le> INT_MAX
   | Puts str \<Rightarrow> length (cstr str) < K \<and> int (length (cstr str)) \<le> INT_MAX
   | Fwrite bs sz m \<Rightarrow> int (sz * m) < INT_MAX \<and> sz * m \<le> length bs \<and> sz * m < K
   | _ \<Rightarrow> True)"

primrec prog_ok :: "nat \<Rightarrow> prog \<Rightarrow> bool" where
  "prog_ok K Done = True"
| "prog_ok K (Call c f) = (call_ok K c \<and> (\<forall>a. prog_ok K (f a)))"

section \<open>What standard input and output promise\<close>

text \<open>\<open>io st xs zs\<close>: the input still to come is \<open>xs\<close>, the output so far is \<open>zs\<close>.\<close>

locale std_io =
  fixes io :: "stdio \<Rightarrow> bytes \<Rightarrow> bytes \<Rightarrow> bool"
    and K :: nat
  assumes input_length: "io st xs zs \<Longrightarrow> length xs < K"
    and io_fgetc: "io st xs zs \<Longrightarrow>
      \<exists>st'. FCGI_fgetc K FCGI_stdin st = Inr (case xs of [] \<Rightarrow> EOF | x # _ \<Rightarrow> uint x, st') \<and> io st' (tl xs) zs"
    and io_fgets: "io st xs zs \<Longrightarrow> 1 \<le> n \<Longrightarrow>
      \<exists>st'. FCGI_fgets K n FCGI_stdin st = Inr (if 2 \<le> n \<and> xs = [] then None else Some (line_of (nat (n - 1)) xs), st')
        \<and> io st' (drop (length (line_of (nat (n - 1)) xs)) xs) zs"
    and io_fread: "io st xs zs \<Longrightarrow> int (sz * m) < INT_MAX \<Longrightarrow>
      \<exists>st'. FCGI_fread K sz m FCGI_stdin st = Inr ((length (take (sz * m) xs) div sz, take (sz * m) xs), st')
        \<and> io st' (drop (sz * m) xs) zs"
    and io_fputc: "io st xs zs \<Longrightarrow>
      \<exists>st'. FCGI_fputc c FCGI_stdout st = Inr (c mod 256, st') \<and> io st' xs (zs @ [word_of_int c])"
    and io_fputs: "io st xs zs \<Longrightarrow> length (cstr str) < K \<Longrightarrow> int (length (cstr str)) \<le> INT_MAX \<Longrightarrow>
      \<exists>st'. FCGI_fputs K str FCGI_stdout st = Inr (int (length (cstr str)), st') \<and> io st' xs (zs @ cstr str)"
    and io_puts: "io st xs zs \<Longrightarrow> length (cstr str) < K \<Longrightarrow> int (length (cstr str)) \<le> INT_MAX \<Longrightarrow>
      \<exists>st'. FCGI_puts K str st = Inr (10, st') \<and> io st' xs (zs @ cstr str @ [10])"
    and io_fwrite: "io st xs zs \<Longrightarrow> int (sz * m) < INT_MAX \<Longrightarrow> sz * m \<le> length bs \<Longrightarrow> sz * m < K \<Longrightarrow>
      \<exists>st'. FCGI_fwrite K bs sz m FCGI_stdout st = Inr (if sz * m = 0 then 0 else m, st') \<and> io st' xs (zs @ take (sz * m) bs)"
begin

lemma io_gets_loop:
  "io st xs zs \<Longrightarrow> length xs < n \<Longrightarrow>
    \<exists>st'. gets_loop n K acc st =
      Inr (if xs = [] \<and> acc = [] then None else Some (acc @ takeWhile (\<lambda>b. b \<noteq> 10) xs), st')
      \<and> io st' (tl (dropWhile (\<lambda>b. b \<noteq> 10) xs)) zs"
proof (induction n arbitrary: st xs acc)
  case (Suc n)
  obtain st1 where st1: "FCGI_getchar K st = Inr (case xs of [] \<Rightarrow> EOF | x # _ \<Rightarrow> uint x, st1)" "io st1 (tl xs) zs"
    using io_fgetc [OF Suc.prems(1)] by (auto simp: FCGI_getchar_def)
  show ?case
  proof (cases xs)
    case (Cons x ys)
    have u: "uint x \<noteq> - 1" using uint_byte(1) [of x] by linarith
    have nl: "uint x = 10 \<longleftrightarrow> x = 10" using word_uint_eq_iff [of x 10] by simp
    from Suc.IH [of st1 ys "acc @ [x]"] Suc.prems(2) st1 u nl Cons show ?thesis by auto
  qed (use st1 in auto)
qed simp

lemma io_call:
  assumes "io st xs zs" "call_ok K c" "call_spec c xs = (a, ys, w)"
  shows "\<exists>st'. run_call K c st = Inr (a, st') \<and> io st' ys (zs @ w)"
proof (cases c)
  case Getchar
  with assms io_fgetc [OF assms(1)] show ?thesis by (auto simp: run_call_def call_spec_def FCGI_getchar_def)
next
  case (Fgets n)
  with assms io_fgets [OF assms(1), of n] show ?thesis by (auto simp: run_call_def call_spec_def call_ok_def)
next
  case Gets
  with assms io_gets_loop [OF assms(1) input_length [OF assms(1)], of "[]"] show ?thesis
    by (auto simp: run_call_def call_spec_def FCGI_gets_def)
next
  case (Fread sz m)
  with assms io_fread [OF assms(1), of sz m] show ?thesis by (auto simp: run_call_def call_spec_def call_ok_def)
next
  case (Putchar b)
  with assms io_fputc [OF assms(1), of b] show ?thesis by (auto simp: run_call_def call_spec_def FCGI_putchar_def)
next
  case (Fputs str)
  with assms io_fputs [OF assms(1), of str] show ?thesis by (auto simp: run_call_def call_spec_def call_ok_def)
next
  case (Puts str)
  with assms io_puts [OF assms(1), of str] show ?thesis by (auto simp: run_call_def call_spec_def call_ok_def)
next
  case (Fwrite bs sz m)
  with assms io_fwrite [OF assms(1), of sz m bs] show ?thesis by (auto simp: run_call_def call_spec_def call_ok_def)
qed

lemma io_prog:
  "io st xs zs \<Longrightarrow> prog_ok K p \<Longrightarrow> prog_spec p xs = (as, w) \<Longrightarrow>
    \<exists>st' ys. run_prog K p st = Inr (as, st') \<and> io st' ys (zs @ w)"
proof (induction p arbitrary: st xs zs as w)
  case (Call c f)
  obtain a ys o1 where a: "call_spec c xs = (a, ys, o1)" by (metis prod_cases3)
  obtain as' o2 where r: "prog_spec (f a) ys = (as', o2)" by fastforce
  obtain st1 where st1: "run_call K c st = Inr (a, st1)" "io st1 ys (zs @ o1)"
    using io_call [OF Call.prems(1) _ a] Call.prems(2) by auto
  from Call.IH [of "f a", OF _ st1(2) _ r] Call.prems(2,3) st1(1) a r show ?case by (auto simp: rangeI)
qed auto

end

section \<open>Files of the C library\<close>

definition input_file :: "FILE \<Rightarrow> bytes \<Rightarrow> bool" where
  "input_file f xs \<longleftrightarrow> canRead f \<and> pushed f = None \<and> xs = drop (fofs f) (fdat f)"

definition output_file :: "FILE \<Rightarrow> bytes \<Rightarrow> bool" where
  "output_file f zs \<longleftrightarrow> canWrite f \<and> fofs f = length (fdat f) \<and> fdat f = zs"

lemma c_fgetc_input:
  assumes "input_file f xs"
  shows "\<exists>f'. c_fgetc f = (case xs of [] \<Rightarrow> EOF | x # _ \<Rightarrow> uint x, f') \<and> input_file f' (tl xs)"
proof (cases "fofs f < length (fdat f)")
  case True
  then have "xs = fdat f ! fofs f # drop (Suc (fofs f)) (fdat f)" "canRead f" "pushed f = None"
    using assms by (simp_all add: input_file_def Cons_nth_drop_Suc)
  with True show ?thesis by (simp add: c_fgetc_def input_file_def)
qed (use assms in \<open>auto simp: c_fgetc_def input_file_def\<close>)

lemma uint_not_EOF: "uint (x :: byte) \<noteq> - 1"
  using uint_byte(1) [of x] by linarith

lemma uint_newline: "uint (x :: byte) = 10 \<longleftrightarrow> x = 10"
  using word_uint_eq_iff [of x 10] by simp

lemma c_fgets_loop_input:
  "input_file f xs \<Longrightarrow>
    \<exists>f'. c_fgets_loop n acc f = (if 0 < n \<and> acc = [] \<and> xs = [] then None else Some (acc @ line_of n xs), f')
      \<and> input_file f' (drop (length (line_of n xs)) xs)"
proof (induction n arbitrary: f xs acc)
  case (Suc n)
  from c_fgetc_input [OF Suc.prems] obtain f1 where
    f1: "c_fgetc f = (case xs of [] \<Rightarrow> EOF | x # _ \<Rightarrow> uint x, f1)" "input_file f1 (tl xs)" by blast
  show ?case
  proof (cases xs)
    case (Cons x ys)
    from Suc.IH [of f1 ys "acc @ [x]"] f1 Cons uint_not_EOF [of x] uint_newline [of x] show ?thesis by auto
  qed (use f1 in auto)
qed auto

lemma c_read_input:
  "input_file f xs \<Longrightarrow> \<exists>f'. c_read n f = (take n xs, f') \<and> input_file f' (drop n xs)"
proof (induction n arbitrary: f xs)
  case (Suc n)
  from c_fgetc_input [OF Suc.prems] obtain f1 where
    f1: "c_fgetc f = (case xs of [] \<Rightarrow> EOF | x # _ \<Rightarrow> uint x, f1)" "input_file f1 (tl xs)" by blast
  show ?case
  proof (cases xs)
    case (Cons x ys)
    from Suc.IH [of f1 ys] f1 Cons uint_not_EOF [of x] show ?thesis by auto
  qed (use f1 in auto)
qed simp

lemma c_fputc_output:
  "output_file f zs \<Longrightarrow> \<exists>f'. c_fputc c f = (c mod 256, f') \<and> output_file f' (zs @ [word_of_int c])"
  by (simp add: c_fputc_def output_file_def)

lemma c_write_output: "output_file f zs \<Longrightarrow> \<exists>f'. c_write bs f = (length bs, f') \<and> output_file f' (zs @ bs)"
proof (induction bs arbitrary: f zs)
  case (Cons b bs)
  from c_fputc_output [OF Cons.prems, of "uint b"] obtain f1 where
    "c_fputc (uint b) f = (uint b mod 256, f1)" "output_file f1 (zs @ [b])" by auto
  moreover have "uint b mod 256 = uint b" using uint_byte [of b] by simp
  ultimately show ?case using Cons.IH [of f1 "zs @ [b]"] uint_not_EOF [of b] by auto
qed simp

definition cgi_io :: "nat \<Rightarrow> stdio \<Rightarrow> bytes \<Rightarrow> bytes \<Rightarrow> bool" where
  "cgi_io K st xs zs \<longleftrightarrow> length xs < K \<and> acceptCalled st \<and> isCGI st
     \<and> fcgi_file st FCGI_stdin = Some \<lparr>stdio_stream = Some 0, fcgx_stream = None\<rparr>
     \<and> fcgi_file st FCGI_stdout = Some \<lparr>stdio_stream = Some 1, fcgx_stream = None\<rparr>
     \<and> (\<exists>f. files st 0 = Some f \<and> input_file f xs) \<and> (\<exists>g. files st 1 = Some g \<and> output_file g zs)"

lemma cgi_in:
  assumes "cgi_io K st xs zs" "\<And>f. input_file f xs \<Longrightarrow> \<exists>f'. hop f = (r, f') \<and> input_file f' ys" "length ys \<le> length xs"
  shows "\<exists>st'. either_stream FCGI_stdin hop xop d st = Inr (r, st') \<and> cgi_io K st' ys zs"
proof -
  obtain f where f: "files st 0 = Some f" "input_file f xs" using assms(1) by (auto simp: cgi_io_def)
  from assms(2) [OF f(2)] obtain f' where "hop f = (r, f')" "input_file f' ys" by blast
  with assms(1,3) f show ?thesis by (auto simp: either_stream_def the_file_def on_FILE_def cgi_io_def)
qed

lemma cgi_out:
  assumes "cgi_io K st xs zs" "\<And>g. output_file g zs \<Longrightarrow> \<exists>g'. hop g = (r, g') \<and> output_file g' us"
  shows "\<exists>st'. either_stream FCGI_stdout hop xop d st = Inr (r, st') \<and> on_FILE 1 hop st = Inr (r, st') \<and> cgi_io K st' xs us"
proof -
  obtain g where g: "files st 1 = Some g" "output_file g zs" using assms(1) by (auto simp: cgi_io_def)
  from assms(2) [OF g(2)] obtain g' where "hop g = (r, g')" "output_file g' us" by blast
  with assms(1) g show ?thesis by (auto simp: either_stream_def the_file_def on_FILE_def cgi_io_def)
qed

lemma c_fputs_output:
  "output_file g zs \<Longrightarrow> \<exists>g'. c_fputs str g = (int (length (cstr str)), g') \<and> output_file g' (zs @ cstr str)"
  using c_write_output [of g zs "cstr str"] by (auto simp: c_fputs_def)

lemma c_fread_input:
  "input_file f xs \<Longrightarrow> \<exists>f'. c_fread sz m f = ((length (take (sz * m) xs) div sz, take (sz * m) xs), f') \<and> input_file f' (drop (sz * m) xs)"
  using c_read_input [of f xs "sz * m"] by (auto simp: c_fread_def)

lemma c_fwrite_output:
  assumes "output_file g zs" "sz * m \<le> length bs"
  shows "\<exists>g'. c_fwrite bs sz m g = (if sz * m = 0 then 0 else m, g') \<and> output_file g' (zs @ take (sz * m) bs)"
  using c_write_output [OF assms(1), of "take (sz * m) bs"] assms by (auto simp: c_fwrite_def min_def)

interpretation cgi: std_io "cgi_io K" K for K
proof unfold_locales
  fix st xs zs
  assume io: "cgi_io K st xs zs"
  show "length xs < K" using io by (simp add: cgi_io_def)
  show "\<exists>st'. FCGI_fgetc K FCGI_stdin st = Inr (case xs of [] \<Rightarrow> EOF | x # _ \<Rightarrow> uint x, st') \<and> cgi_io K st' (tl xs) zs"
    unfolding FCGI_fgetc_def by (rule cgi_in [OF io c_fgetc_input]) simp_all
  show "\<exists>st'. FCGI_fgets K n FCGI_stdin st = Inr (if 2 \<le> n \<and> xs = [] then None else Some (line_of (nat (n - 1)) xs), st')
      \<and> cgi_io K st' (drop (length (line_of (nat (n - 1)) xs)) xs) zs" if "1 \<le> n" for n
  proof -
    have "(2 \<le> n \<and> xs = []) = (0 < nat (n - 1) \<and> [] = [] \<and> xs = [])" by auto
    then show ?thesis
      unfolding FCGI_fgets_def
      by (intro cgi_in [OF io]) (use c_fgets_loop_input [of _ xs "nat (n - 1)" "[]"] that in \<open>auto simp: c_fgets_def\<close>)
  qed
  show "\<exists>st'. FCGI_fread K sz m FCGI_stdin st = Inr ((length (take (sz * m) xs) div sz, take (sz * m) xs), st')
      \<and> cgi_io K st' (drop (sz * m) xs) zs" for sz m
    unfolding FCGI_fread_def by (rule cgi_in [OF io c_fread_input]) simp_all
  show "\<exists>st'. FCGI_fputc c FCGI_stdout st = Inr (c mod 256, st') \<and> cgi_io K st' xs (zs @ [word_of_int c])" for c
    unfolding FCGI_fputc_def using cgi_out [OF io, of "c_fputc c"] c_fputc_output by blast
  show "\<exists>st'. FCGI_fputs K str FCGI_stdout st = Inr (int (length (cstr str)), st') \<and> cgi_io K st' xs (zs @ cstr str)" for str
    unfolding FCGI_fputs_def using cgi_out [OF io, of "c_fputs str"] c_fputs_output by blast
  show "\<exists>st'. FCGI_puts K str st = Inr (10, st') \<and> cgi_io K st' xs (zs @ cstr str @ [10])" for str
  proof -
    obtain st1 where st1: "on_FILE 1 (c_fputs str) st = Inr (int (length (cstr str)), st1)" "cgi_io K st1 xs (zs @ cstr str)"
      using cgi_out [OF io, of "c_fputs str"] c_fputs_output by blast
    have "\<exists>g'. c_fputc 10 g = (10, g') \<and> output_file g' (zs @ cstr str @ [10])" if "output_file g (zs @ cstr str)" for g
      using c_fputc_output [OF that, of 10] by simp
    with cgi_out [OF st1(2), of "c_fputc 10" 10 "zs @ cstr str @ [10]"] obtain st2 where
      "on_FILE 1 (c_fputc 10) st1 = Inr (10, st2)" "cgi_io K st2 xs (zs @ cstr str @ [10])" by blast
    with st1(1) io show ?thesis by (simp add: FCGI_puts_def the_file_def cgi_io_def)
  qed
  show "\<exists>st'. FCGI_fwrite K bs sz m FCGI_stdout st = Inr (if sz * m = 0 then 0 else m, st') \<and> cgi_io K st' xs (zs @ take (sz * m) bs)"
    if "sz * m \<le> length bs" for bs sz m
    unfolding FCGI_fwrite_def using cgi_out [OF io, of "c_fwrite bs sz m"] c_fwrite_output [OF _ that] by blast
qed

section \<open>Streams of a request\<close>

text \<open>
  The input stream delivers \<open>xs\<close> and then ends with \<open>e\<close>, without replies to the server; or it has
  ended.
\<close>

definition fcgi_in :: "nat \<Rightarrow> rmode \<Rightarrow> ReqData \<Rightarrow> rd_end \<Rightarrow> stream_io \<Rightarrow> bytes \<Rightarrow> bool" where
  "fcgi_in K md r e s xs \<longleftrightarrow> length xs < K \<and> (\<exists>left p sk. e = EndOfStream left p sk)
     \<and> (str.src K md r e (os s) [] s xs \<or> xs = [] \<and> isClosed s \<and> reqDataPtr s = r)"

text \<open>The step of an input operation on the state of the system.\<close>

definition read_step :: "nat \<Rightarrow> rmode \<Rightarrow> ReqData \<Rightarrow> rd_end \<Rightarrow> stream_io \<Rightarrow> 'a \<Rightarrow> bytes \<Rightarrow> ('a \<times> stream_io) res \<Rightarrow> bool" where
  "read_step K md r e s a ys res \<longleftrightarrow>
     (\<exists>s'. res = Inr (a, s') \<and> fcgi_in K md r e s' ys \<and> reqDataPtr s' = r \<and> traffic (ipcFd r) (os s) [] (os s'))"

lemma src_rebase:
  assumes "str.src K md r e w [] s xs"
  shows "str.src K md r e (os s) [] s xs" "traffic (ipcFd r) w [] (os s)" "reqDataPtr s = r"
  using assms unfolding str.src_def str_inv_def str_rest_def stream_inv_def reader_frame_def by auto

lemma fin_closes:
  assumes "str_fin md r w [] e s" "e = EndOfStream left p sk"
  shows "isClosed s" "traffic (ipcFd r) w [] (os s)" "reqDataPtr s = r"
  using assms unfolding str_fin_def ended_def reader_frame_def by auto

lemma read_step_src:
  assumes "res = Inr (a, s')" "str.src K md r e (os s) [] s' ys" "length ys < K" "e = EndOfStream left p sk"
  shows "read_step K md r e s a ys res"
  using assms src_rebase [OF assms(2)] unfolding read_step_def fcgi_in_def by blast

lemma read_step_fin:
  assumes "res = Inr (a, s')" "str_fin md r (os s) [] e s'" "0 < K" "e = EndOfStream left p sk"
  shows "read_step K md r e s a [] res"
  using assms fin_closes [OF assms(2,4)] unfolding read_step_def fcgi_in_def by auto

lemma read_step_closed:
  assumes "fcgi_in K md r e s []" "reqDataPtr s = r"
  shows "read_step K md r e s a [] (Inr (a, s))"
  using assms unfolding read_step_def by auto

lemma fgetc_in:
  assumes "fcgi_in K md r e s xs"
  shows "read_step K md r e s (case xs of [] \<Rightarrow> EOF | x # _ \<Rightarrow> uint x) (tl xs) (FCGX_GetChar (FillBuffProc K []) s)"
proof -
  obtain left p sk where e: "e = EndOfStream left p sk" and k: "length xs < K" using assms by (auto simp: fcgi_in_def)
  consider x ys where "xs = x # ys" "str.src K md r e (os s) [] s (x # ys)" | "xs = []" "str.src K md r e (os s) [] s []"
    | "xs = []" "isClosed s" "reqDataPtr s = r" using assms by (cases xs) (auto simp: fcgi_in_def)
  then show ?thesis
  proof cases
    case (1 x ys)
    from str.GetChar_src [OF 1(2)] 1(1) k e show ?thesis by (auto intro: read_step_src)
  next
    case 2
    from str.GetChar_end [OF 2(2)] 2(1) k e show ?thesis by (auto intro: read_step_fin)
  next
    case 3
    with assms show ?thesis by (simp add: FCGX_GetChar_def read_step_closed)
  qed
qed

lemma GetLine_closed:
  assumes "isClosed s"
  shows "GetLine_loop fill n [] s = Inr (if 0 < n then None else Some [], s)"
  using assms by (cases n) (simp_all add: FCGX_GetChar_def)

lemma line_of_full: "length xs < n \<Longrightarrow> 10 \<notin> set xs \<Longrightarrow> line_of n xs = xs"
  by (induction n xs rule: line_of.induct) auto

lemma fgets_in:
  assumes "fcgi_in K md r e s xs"
  shows "read_step K md r e s (if 2 \<le> n \<and> xs = [] then None else Some (line_of (nat (n - 1)) xs))
    (drop (length (line_of (nat (n - 1)) xs)) xs) (FCGX_GetLine (FillBuffProc K []) n s)"
proof -
  obtain left p sk where e: "e = EndOfStream left p sk" and k: "length xs < K" using assms by (auto simp: fcgi_in_def)
  let ?m = "nat (n - 1)" let ?a = "if 2 \<le> n \<and> xs = [] then None else Some (line_of ?m xs)"
  have m: "(0 < ?m \<and> [] = [] \<and> xs = []) = (2 \<le> n \<and> xs = [])" by auto
  consider "str.src K md r e (os s) [] s xs" | "xs = []" "isClosed s" "reqDataPtr s = r" using assms by (auto simp: fcgi_in_def)
  then show ?thesis
  proof cases
    case 1
    from str.GetLine_loop_src [OF 1, of ?m "[]"] obtain s' where
      s': "FCGX_GetLine (FillBuffProc K []) n s = Inr (?a, s')"
        "if length xs < ?m \<and> 10 \<notin> set xs then str_fin md r (os s) [] e s' else str.src K md r e (os s) [] s' (drop (length (line_of ?m xs)) xs)"
      by (auto simp: FCGX_GetLine_def m)
    show ?thesis
    proof (cases "length xs < ?m \<and> 10 \<notin> set xs")
      case True
      with read_step_fin [OF s'(1) _ _ e] s'(2) k line_of_full [of xs ?m] show ?thesis by auto
    next
      case False
      with read_step_src [OF s'(1) _ _ e] s'(2) k show ?thesis by auto
    qed
  next
    case 2
    have "FCGX_GetLine (FillBuffProc K []) n s = Inr (?a, s)"
      using GetLine_closed [OF 2(2)] 2(1) by (auto simp: FCGX_GetLine_def)
    with assms 2(1,3) show ?thesis by (simp add: read_step_closed)
  qed
qed

lemma GetStr_in:
  assumes "fcgi_in K md r e s xs"
  shows "read_step K md r e s (take n xs) (drop n xs) (FCGX_GetStr (FillBuffProc K []) K (int n) s)"
proof -
  obtain left p sk where e: "e = EndOfStream left p sk" and k: "length xs < K" using assms by (auto simp: fcgi_in_def)
  consider "str.src K md r e (os s) [] s xs" "n \<le> length xs" | "str.src K md r e (os s) [] s xs" "length xs < n"
    | "xs = []" "isClosed s" "reqDataPtr s = r" using assms by (force simp: fcgi_in_def)
  then show ?thesis
  proof cases
    case 1
    from str.GetStr_full [OF 1(1) k, of "int n"] 1(2) k e show ?thesis by (auto intro: read_step_src)
  next
    case 2
    from str.GetStr_short [OF 2(1) k, of "int n"] 2(2) k e show ?thesis by (auto intro: read_step_fin)
  next
    case 3
    with assms show ?thesis by (simp add: FCGX_GetStr_def read_step_closed)
  qed
qed

text \<open>The output stream took \<open>zs\<close>; before it the server had received \<open>base\<close>.\<close>

definition fcgi_out :: "ReqData \<Rightarrow> bytes \<Rightarrow> stream_io \<Rightarrow> bytes \<Rightarrow> bool" where
  "fcgi_out r base s zs \<longleftrightarrow> (\<exists>pre. rec_sink.snk FCGI_STDOUT r pre [] s zs \<and> sent (conns pre (ipcFd r)) = base)"

lemma snk_transmitted:
  assumes "rec_sink.snk ty r pre others s zs"
  shows "\<exists>bs. transmitted (ipcFd r) pre bs (os s)" "reqDataPtr s = r" "tx_ok (ipcFd r) (os s)"
  using assms by (auto simp: rec_sink.snk_def out_rel_def emitted_def writer_inv_def)

lemma snk_wire:
  assumes "rec_sink.snk ty r pre others s zs"
  shows "\<exists>recs xs. transmitted (ipcFd r) pre (wire (requestId r) recs) (os s) \<and> stream_recs ty others recs xs
    \<and> zs = xs @ seg 8 (wrNext s) (buff s)"
  using assms by (auto simp: rec_sink.snk_def out_rel_def emitted_def)

text \<open>Reading does not disturb the output stream.\<close>

lemma transmitted_rx:
  assumes "transmitted fd pre bs w" "traffic fd w [] w'"
  shows "\<exists>pre'. transmitted fd pre' bs w' \<and> sent (conns pre' fd) = sent (conns pre fd)"
proof -
  obtain q where q: "w = pre\<lparr>conns := (conns pre)(fd := (conns pre fd)\<lparr>txq := q, sent := sent (conns pre fd) @ bs\<rparr>)\<rparr>"
    "set q \<subseteq> set (txq (conns pre fd))" using assms(1) by (auto simp: transmitted_def)
  obtain es q' where q': "set q' \<subseteq> set q"
    "w' = pre\<lparr>conns := (conns pre)(fd := (conns pre fd)\<lparr>rx := es, txq := q', sent := sent (conns pre fd) @ bs\<rparr>)\<rparr>"
    using assms(2) q(1) by (auto simp: traffic_def)
  let ?pre = "pre\<lparr>conns := (conns pre)(fd := (conns pre fd)\<lparr>rx := es\<rparr>)\<rparr>"
  have "w' = ?pre\<lparr>conns := (conns ?pre)(fd := (conns ?pre fd)\<lparr>txq := q', sent := sent (conns ?pre fd) @ bs\<rparr>)\<rparr>"
    by (simp add: q'(2))
  moreover have "set q' \<subseteq> set (txq (conns ?pre fd))" using q(2) q'(1) by simp
  ultimately have "transmitted fd ?pre bs w'" unfolding transmitted_def by blast
  then show ?thesis by (intro exI [of _ ?pre]) simp
qed

lemma fcgi_out_read:
  assumes "fcgi_out r base (attach d r w) zs" "traffic (ipcFd r) w [] w'"
  shows "fcgi_out r base (attach d r w') zs"
proof -
  obtain pre xs where pre: "writer_inv FCGI_STDOUT r (attach d r w)" "out_rel pre FCGI_STDOUT [] r (attach d r w) xs"
    "zs = xs @ seg 8 (wrNext d) (buff d)" "sent (conns pre (ipcFd r)) = base"
    using assms(1) by (auto simp: fcgi_out_def rec_sink.snk_def)
  obtain recs where recs: "transmitted (ipcFd r) pre (wire (requestId r) recs) w" "stream_recs FCGI_STDOUT [] recs xs"
    using pre(2) by (auto simp: out_rel_def emitted_def)
  obtain pre' where pre': "transmitted (ipcFd r) pre' (wire (requestId r) recs) w'" "sent (conns pre' (ipcFd r)) = base"
    using transmitted_rx [OF recs(1) assms(2)] pre(4) by auto
  have "tx_ok (ipcFd r) w'" using traffic_keeps(4) [OF assms(2)] pre(1) by (auto simp: writer_inv_def)
  from writer_inv_os [OF pre(1) this] pre' recs(2) pre(2,3) show ?thesis
    unfolding fcgi_out_def rec_sink.snk_def out_rel_def emitted_def by auto
qed

text \<open>Writing does not disturb the input stream.\<close>

lemma fcgi_in_write:
  assumes "fcgi_in K md r e (attach i r w) xs" "transmitted (ipcFd r) pre b1 w" "transmitted (ipcFd r) pre b2 w'" "tx_ok (ipcFd r) w'"
  shows "fcgi_in K md r e (attach i r w') xs"
proof -
  have w: "rx (conns w' (ipcFd r)) = rx (conns w (ipcFd r))" "heapLimit w' = heapLimit w" "fresh w' = fresh w" "shutdownNow w' = shutdownNow w"
    using assms(2,3) by (auto simp: transmitted_def)
  have "window (attach i r w') = window (attach i r w)" "avail (attach i r w') = avail (attach i r w)"
    using w by (simp_all add: window_def avail_def input_from_def)
  moreover have "reader_frame md r (attach i r w) \<Longrightarrow> reader_frame md r (attach i r w')"
    using w assms(4) by (simp add: reader_frame_def)
  ultimately show ?thesis
    using assms(1) unfolding fcgi_in_def str.src_def str_inv_def str_rest_def stream_inv_def by auto
qed

definition fcgi_io :: "nat \<Rightarrow> rmode \<Rightarrow> ReqData \<Rightarrow> rd_end \<Rightarrow> bytes \<Rightarrow> stdio \<Rightarrow> bytes \<Rightarrow> bytes \<Rightarrow> bool" where
  "fcgi_io K md r e base st xs zs \<longleftrightarrow>
     fcgi_file st FCGI_stdin = Some \<lparr>stdio_stream = None, fcgx_stream = Some In\<rparr>
     \<and> fcgi_file st FCGI_stdout = Some \<lparr>stdio_stream = None, fcgx_stream = Some Out\<rparr>
     \<and> (\<exists>i d. in_stream (the_request (fcgx st)) = Some i \<and> out_stream (the_request (fcgx st)) = Some d
        \<and> rdata (the_request (fcgx st)) = r \<and> fcgi_in K md r e (attach i r (sys st)) xs \<and> fcgi_out r base (attach d r (sys st)) zs)"

lemma fcgi_read:
  assumes "fcgi_io K md r e base st xs zs"
    and "\<And>s. fcgi_in K md r e s xs \<Longrightarrow> read_step K md r e s a ys (xop s)"
  shows "\<exists>st'. either_stream FCGI_stdin hop xop d st = Inr (a, st') \<and> fcgi_io K md r e base st' ys zs"
proof -
  obtain i o1 where io: "in_stream (the_request (fcgx st)) = Some i" "out_stream (the_request (fcgx st)) = Some o1"
    "rdata (the_request (fcgx st)) = r" "fcgi_in K md r e (attach i r (sys st)) xs" "fcgi_out r base (attach o1 r (sys st)) zs"
    using assms(1) by (auto simp: fcgi_io_def)
  from assms(2) [OF io(4)] obtain s' where s': "xop (attach i r (sys st)) = Inr (a, s')" "fcgi_in K md r e s' ys" "reqDataPtr s' = r"
    "traffic (ipcFd r) (sys st) [] (os s')" by (auto simp: read_step_def)
  from fcgi_out_read [OF io(5) s'(4)] s' io attach_eq [OF s'(3)] assms(1) show ?thesis
    by (auto simp: either_stream_def the_file_def on_stream_def req_stream_def put_req_stream_def fcgi_io_def Let_def)
qed

lemma fcgi_write:
  assumes "fcgi_io K md r e base st xs zs"
    and "\<And>s pre. rec_sink.snk FCGI_STDOUT r pre [] s zs \<Longrightarrow> \<exists>s'. xop s = Inr (a, s') \<and> rec_sink.snk FCGI_STDOUT r pre [] s' us"
  shows "\<exists>st'. either_stream FCGI_stdout hop xop d st = Inr (a, st') \<and> on_stream Out xop st = Inr (a, st')
    \<and> fcgi_io K md r e base st' xs us"
proof -
  obtain i o1 pre where io: "in_stream (the_request (fcgx st)) = Some i" "out_stream (the_request (fcgx st)) = Some o1"
    "rdata (the_request (fcgx st)) = r" "fcgi_in K md r e (attach i r (sys st)) xs"
    "rec_sink.snk FCGI_STDOUT r pre [] (attach o1 r (sys st)) zs" "sent (conns pre (ipcFd r)) = base"
    using assms(1) by (auto simp: fcgi_io_def fcgi_out_def)
  from assms(2) [OF io(5)] obtain s' where s': "xop (attach o1 r (sys st)) = Inr (a, s')" "rec_sink.snk FCGI_STDOUT r pre [] s' us" by blast
  note t = snk_transmitted [OF io(5)] snk_transmitted [OF s'(2)]
  have "fcgi_in K md r e (attach i r (os s')) xs"
    using t(1,4,6) fcgi_in_write [OF io(4)] by auto
  moreover have "fcgi_out r base s' us" using s'(2) io(6) by (auto simp: fcgi_out_def)
  ultimately show ?thesis
    using s'(1) io attach_eq [OF t(5)] t(5) assms(1)
    by (auto simp: either_stream_def the_file_def on_stream_def req_stream_def put_req_stream_def fcgi_io_def Let_def)
qed

lemma fits_size_t: "int n < INT_MAX \<Longrightarrow> n mod SIZE_T = n"
  by simp

interpretation fcgi: std_io "fcgi_io K md r e base" K for K md r e base
proof unfold_locales
  fix st xs zs
  assume io: "fcgi_io K md r e base st xs zs"
  show "length xs < K" using io by (auto simp: fcgi_io_def fcgi_in_def)
  show "\<exists>st'. FCGI_fgetc K FCGI_stdin st = Inr (case xs of [] \<Rightarrow> EOF | x # _ \<Rightarrow> uint x, st') \<and> fcgi_io K md r e base st' (tl xs) zs"
    unfolding FCGI_fgetc_def by (rule fcgi_read [OF io fgetc_in])
  show "\<exists>st'. FCGI_fgets K n FCGI_stdin st = Inr (if 2 \<le> n \<and> xs = [] then None else Some (line_of (nat (n - 1)) xs), st')
      \<and> fcgi_io K md r e base st' (drop (length (line_of (nat (n - 1)) xs)) xs) zs" if "1 \<le> n" for n
    unfolding FCGI_fgets_def by (rule fcgi_read [OF io fgets_in])
  show "\<exists>st'. FCGI_fputc c FCGI_stdout st = Inr (c mod 256, st') \<and> fcgi_io K md r e base st' xs (zs @ [word_of_int c])" for c
    unfolding FCGI_fputc_def using fcgi_write [OF io, of "FCGX_PutChar EmptyBuffProc c"] rec_sink.PutChar_snk by blast
  show "\<exists>st'. FCGI_fread K sz m FCGI_stdin st = Inr ((length (take (sz * m) xs) div sz, take (sz * m) xs), st')
      \<and> fcgi_io K md r e base st' (drop (sz * m) xs) zs" if sz: "int (sz * m) < INT_MAX" for sz m
  proof (cases "sz * m = 0")
    case True
    have "read_step K md r e s (0, []) xs (Inr ((0, []), s))" if "fcgi_in K md r e s xs" for s
      using that src_rebase(3) unfolding read_step_def fcgi_in_def by auto
    with True show ?thesis unfolding FCGI_fread_def by (intro fcgi_read [OF io]) (auto simp: Let_def)
  next
    case False
    have mod: "sz * m mod SIZE_T = sz * m" using fits_size_t [OF sz] .
    show ?thesis
      unfolding FCGI_fread_def mod Let_def
      by (intro fcgi_read [OF io])
        (use False sz GetStr_in [of K md r e _ xs "sz * m"] in \<open>fastforce simp: read_step_def simp del: of_nat_mult\<close>)
  qed
  have PutS: "\<exists>s'. FCGX_PutS EmptyBuffProc K str s = Inr (int (length (cstr str)), s')
      \<and> rec_sink.snk FCGI_STDOUT r pre [] s' (zs @ cstr str)"
    if "rec_sink.snk FCGI_STDOUT r pre [] s zs" "length (cstr str) < K" "int (length (cstr str)) \<le> INT_MAX" for str s pre
    using rec_sink.PutStr_snk [OF that(1,2)] that(3) by (simp add: FCGX_PutS_def Let_def)
  show "\<exists>st'. FCGI_fputs K str FCGI_stdout st = Inr (int (length (cstr str)), st') \<and> fcgi_io K md r e base st' xs (zs @ cstr str)"
    if "length (cstr str) < K" "int (length (cstr str)) \<le> INT_MAX" for str
    unfolding FCGI_fputs_def using fcgi_write [OF io, of "FCGX_PutS EmptyBuffProc K str"] PutS that by blast
  show "\<exists>st'. FCGI_puts K str st = Inr (10, st') \<and> fcgi_io K md r e base st' xs (zs @ cstr str @ [10])"
    if lim: "length (cstr str) < K" "int (length (cstr str)) \<le> INT_MAX" for str
  proof -
    obtain st1 where st1: "on_stream Out (FCGX_PutS EmptyBuffProc K str) st = Inr (int (length (cstr str)), st1)"
      "fcgi_io K md r e base st1 xs (zs @ cstr str)"
      using fcgi_write [OF io, of "FCGX_PutS EmptyBuffProc K str"] PutS lim by blast
    have "\<exists>s'. FCGX_PutChar EmptyBuffProc 10 s = Inr (10, s') \<and> rec_sink.snk FCGI_STDOUT r pre [] s' (zs @ cstr str @ [10])"
      if "rec_sink.snk FCGI_STDOUT r pre [] s (zs @ cstr str)" for s pre
      using rec_sink.PutChar_snk [OF that, of 10] by simp
    with fcgi_write [OF st1(2), of "FCGX_PutChar EmptyBuffProc 10" 10 "zs @ cstr str @ [10]"] obtain st2 where
      "on_stream Out (FCGX_PutChar EmptyBuffProc 10) st1 = Inr (10, st2)" "fcgi_io K md r e base st2 xs (zs @ cstr str @ [10])" by blast
    with st1(1) io show ?thesis by (simp add: FCGI_puts_def the_file_def fcgi_io_def)
  qed
  show "\<exists>st'. FCGI_fwrite K bs sz m FCGI_stdout st = Inr (if sz * m = 0 then 0 else m, st') \<and> fcgi_io K md r e base st' xs (zs @ take (sz * m) bs)"
    if sz: "int (sz * m) < INT_MAX" "sz * m \<le> length bs" "sz * m < K" for bs sz m
  proof -
    have mod: "sz * m mod SIZE_T = sz * m" using fits_size_t [OF sz(1)] .
    have l: "length (take (sz * m) bs) = sz * m" using sz(2) by simp
    let ?op = "\<lambda>s. let n = sz * m mod SIZE_T in
          if n = 0 then Inr (0, s)
          else bindR (ASSERT (int n < INT_MAX)) (\<lambda>_.
            if length bs < n then Inl OutOfBounds
            else bindR (FCGX_PutStr EmptyBuffProc K (take n bs) s) (\<lambda>(n, s).
              bindR (ASSERT (n \<ge> 0)) (\<lambda>_. Inr (nat n div sz, s))))"
    have "\<exists>s'. ?op s = Inr (if sz * m = 0 then 0 else m, s') \<and> rec_sink.snk FCGI_STDOUT r pre [] s' (zs @ take (sz * m) bs)"
      if "rec_sink.snk FCGI_STDOUT r pre [] s zs" for s pre
      using rec_sink.PutStr_snk [OF that, of "take (sz * m) bs" K, unfolded l] that sz unfolding mod Let_def
      by (auto simp del: of_nat_mult)
    then show ?thesis
      unfolding FCGI_fwrite_def using fcgi_write [OF io, of ?op "if sz * m = 0 then 0 else m"] by blast
  qed
qed

lemma fcgi_flush:
  assumes "fcgi_io K md r e base st xs zs"
  shows "\<exists>st' recs. FCGI_fflush (Some FCGI_stdout) st = Inr (0, st') \<and> fcgi_io K md r e base st' xs zs
    \<and> sent (conns (sys st') (ipcFd r)) = base @ wire (requestId r) recs \<and> stream_recs FCGI_STDOUT [] recs zs"
proof -
  obtain i o1 pre where io: "in_stream (the_request (fcgx st)) = Some i" "out_stream (the_request (fcgx st)) = Some o1"
    "rdata (the_request (fcgx st)) = r" "fcgi_in K md r e (attach i r (sys st)) xs"
    "rec_sink.snk FCGI_STDOUT r pre [] (attach o1 r (sys st)) zs" "sent (conns pre (ipcFd r)) = base"
    using assms by (auto simp: fcgi_io_def fcgi_out_def)
  from rec_sink.FFlush_snk [OF io(5)] obtain s' where s': "FCGX_FFlush EmptyBuffProc (attach o1 r (sys st)) = Inr (0, s')"
    "rec_sink.snk FCGI_STDOUT r pre [] s' zs" "wrNext s' = 8" by blast
  note t = snk_transmitted [OF io(5)] snk_transmitted [OF s'(2)]
  obtain recs where recs: "transmitted (ipcFd r) pre (wire (requestId r) recs) (os s')" "stream_recs FCGI_STDOUT [] recs zs"
    using snk_wire [OF s'(2)] s'(3) by auto
  have "fcgi_in K md r e (attach i r (os s')) xs"
    using t(1,4,6) fcgi_in_write [OF io(4)] by auto
  moreover have "fcgi_out r base s' zs" using s'(2) io(6) by (auto simp: fcgi_out_def)
  ultimately show ?thesis
    using s'(1) io attach_eq [OF t(5)] t(5) assms recs transmitted_sent [OF recs(1)]
    by (auto simp: FCGI_fflush_def either_stream_def the_file_def on_stream_def req_stream_def put_req_stream_def fcgi_io_def Let_def)
qed

section \<open>Starting\<close>

lemma cgi_start:
  assumes "\<not> acceptCalled st" "FCGX_IsCGI (fcgx st) (sys st) = Inr (True, l, w)"
    and "files st 0 = Some f" "input_file f xs" "files st 1 = Some g" "output_file g zs" "length xs < K"
  shows "\<exists>st'. FCGI_Accept n K st = Inr (0, st') \<and> cgi_io K st' xs zs"
  using assms
  by (auto simp: FCGI_Accept_def accept_files_def std_files_def set_file_def cgi_io_def)

lemma fcgi_start:
  assumes acc: "accepted req w (wire (requestId r) srecs @ record_bytes FCGI_STDIN (requestId r) [] [] @ tail) es" "rdata req = r"
    and st: "the_request (fcgx st) = req" "sys st = w"
      "fcgi_file st FCGI_stdin = Some \<lparr>stdio_stream = None, fcgx_stream = Some In\<rparr>"
      "fcgi_file st FCGI_stdout = Some \<lparr>stdio_stream = None, fcgx_stream = Some Out\<rparr>"
    and r: "0 < requestId r" "requestId r \<le> 65535" "stream_records FCGI_STDIN srecs"
    and K: "length (wire (requestId r) srecs @ record_bytes FCGI_STDIN (requestId r) [] [] @ tail) < K"
  shows "fcgi_io K (mode_for FCGI_STDIN r w) r (EndOfStream tail 0 False) (sent (conns w (ipcFd r))) st (content_of FCGI_STDIN srecs) []"
proof -
  let ?md = "mode_for FCGI_STDIN r w" and ?L = "wire (requestId r) srecs @ record_bytes FCGI_STDIN (requestId r) [] [] @ tail"
  obtain i d where s: "in_stream req = Some i" "out_stream req = Some d" "ready_reader FCGI_STDIN r i w ?L" "fresh_writer FCGI_STDOUT r d w"
    using acc by (auto simp: accepted_def)
  have "fcgi_in K ?md r (EndOfStream tail 0 False) (attach i r w) (content_of FCGI_STDIN srecs)"
    using ready_input_src [OF s(3) r(3) _ _ _ r(1,2) K] by (auto simp: fcgi_in_def)
  moreover have "rec_sink.snk FCGI_STDOUT r w [] (attach d r w) []"
    using s(4) transmitted_Nil
    by (auto simp: fresh_writer_def rec_sink.snk_def out_rel_def emitted_def stream_recs_def intro!: exI [of _ "[]"])
  then have "fcgi_out r (sent (conns w (ipcFd r))) (attach d r w) []" by (auto simp: fcgi_out_def)
  ultimately show ?thesis using st s acc(2) by (auto simp: fcgi_io_def)
qed

lemma fcgi_accept:
  assumes "\<not> acceptCalled st" "FCGX_IsCGI (fcgx st) (sys st) = Inr (False, lib, w)" "libInitialized lib"
    and "FCGX_Accept_r n K lib (the_request lib) w = Inr (0, req, w')"
  shows "\<exists>st'. FCGI_Accept n K st = Inr (0, st') \<and> the_request (fcgx st') = req \<and> sys st' = w'
    \<and> fcgi_file st' FCGI_stdin = Some \<lparr>stdio_stream = None, fcgx_stream = Some In\<rparr>
    \<and> fcgi_file st' FCGI_stdout = Some \<lparr>stdio_stream = None, fcgx_stream = Some Out\<rparr> \<and> environ st' = envp req"
  using assms
  by (auto simp: FCGI_Accept_def accept_files_def FCGX_Accept_def std_files_def set_file_def which_of_def Let_def)

section \<open>CGI and FastCGI\<close>

text \<open>
  C28.  Any program of stdio calls, with arguments as \<open>call_ok\<close> asks for (a line buffer has room for
  the NUL, sizes are \<open>int\<close>), behaves the same as a CGI program and as a FastCGI application.
  Started as CGI with the input \<open>content_of FCGI_STDIN srecs\<close> on its standard input, and started as
  FastCGI with a server that sends a request with that input in records, in both cases
  \<open>FCGI_Accept\<close> returns 0 and the program gets the same answers, those of \<open>prog_spec\<close>; what it
  writes is appended to the standard output in the one case, and in the other, once flushed, is
  the content of the output records the server has received.  A second \<open>FCGI_Accept\<close> of the CGI
  program returns \<open>EOF\<close>.
\<close>

theorem cgi_fastcgi_same:
  assumes cgi: "\<not> acceptCalled stC" "FCGX_IsCGI (fcgx stC) (sys stC) = Inr (True, lC, wC)"
      "files stC 0 = Some f" "input_file f (content_of FCGI_STDIN srecs)" "files stC 1 = Some g" "output_file g zs"
    and fcgi: "\<not> acceptCalled stF" "FCGX_IsCGI (fcgx stF) (sys stF) = Inr (False, lib, w)"
      "libInitialized lib" "idle_request (the_request lib)"
    and acc: "accepts w = AccConn fd sa c False # es" "0 \<le> fd" "admitted (webServerAddressList lib) sa c w"
    and idle: "\<not> shutdownPending w" "locks w = []" "unlocks w = []"
    and conn: "conn_ok fd (w\<lparr>conns := (conns w)(fd := c)\<rparr>)"
      "rx_bytes (rx c) = request_bytes rid rl fl precs srecs tail"
    and fuel: "length (rx_bytes (rx c)) < K"
    and rid: "0 < rid" "rid \<le> 65535" and rl: "role_string rl = Some roleStr"
    and params: "stream_records FCGI_PARAMS precs" "content_of FCGI_PARAMS precs = encode_pairs kvs"
      "\<forall>kv \<in> set kvs. pair_fits (heapLimit w) kv" "16 * Suc (length kvs) \<le> heapLimit w"
      "2 * int (Suc (length kvs)) \<le> INT_MAX"
    and input: "stream_records FCGI_STDIN srecs"
    and prog: "prog_ok K p" "prog_spec p (content_of FCGI_STDIN srecs) = (as, out)"
  shows "(\<exists>st1 st2 g'. FCGI_Accept n K stC = Inr (0, st1) \<and> run_prog K p st1 = Inr (as, st2)
      \<and> files st2 1 = Some g' \<and> fdat g' = zs @ out \<and> FCGI_Accept n K st2 = Inr (EOF, st2))
    \<and> (\<exists>st1 st2 st3 recs. FCGI_Accept (Suc n) K stF = Inr (0, st1) \<and> run_prog K p st1 = Inr (as, st2)
      \<and> FCGI_fflush (Some FCGI_stdout) st2 = Inr (0, st3)
      \<and> sent (conns (sys st3) fd) = sent c @ wire rid recs \<and> stream_recs FCGI_STDOUT [] recs out)"
proof -
  let ?X = "content_of FCGI_STDIN srecs" and ?L = "wire rid srecs @ record_bytes FCGI_STDIN rid [] [] @ tail"
  let ?r0 = "(rdata (the_request lib))\<lparr>ipcFd := fd\<rparr>"
  have B: "incoming w ?r0 (rx_bytes (rx c)) = Some (begun_by ?r0 rid rl fl, roleStr, kvs, [], ?L)"
    unfolding conn(2) by (rule incoming_request [OF rid rl params])
  have len: "length ?L \<le> length (rx_bytes (rx c))" "8 < length (rx_bytes (rx c))"
    by (simp_all add: conn(2) request_bytes_def record_bytes_def begin_body_def)
  then have "1 < K" using fuel by simp
  from Accept_r_first [OF fcgi(3,4) acc idle conn(1) fuel this B, of n] obtain req' w' where
    a: "FCGX_Accept_r (Suc n) K lib (the_request lib) w = Inr (0, req', w')" "accepted req' w' ?L (roleStr # map pair_entry kvs)"
      "rdata req' = (begun_by ?r0 rid rl fl)\<lparr>nWriters := 2\<rparr>" "sent (conns w' fd) = sent c" by auto
  let ?r = "rdata req'"
  have id: "requestId ?r = rid" "ipcFd ?r = fd" using a(3) by (simp_all add: begun_by_def)
  from fcgi_accept [OF fcgi(1-3) a(1)] obtain st1 where st1: "FCGI_Accept (Suc n) K stF = Inr (0, st1)"
    "the_request (fcgx st1) = req'" "sys st1 = w'"
    "fcgi_file st1 FCGI_stdin = Some \<lparr>stdio_stream = None, fcgx_stream = Some In\<rparr>"
    "fcgi_file st1 FCGI_stdout = Some \<lparr>stdio_stream = None, fcgx_stream = Some Out\<rparr>" by blast
  have io: "fcgi_io K (mode_for FCGI_STDIN ?r w') ?r (EndOfStream tail 0 False) (sent c) st1 ?X []"
    using fcgi_start [of req' w' ?r srecs tail _ st1 K] a(2,4) st1(2-5) rid input len fuel id by auto
  from fcgi.io_prog [OF io prog] obtain st2 ys where
    st2: "run_prog K p st1 = Inr (as, st2)" "fcgi_io K (mode_for FCGI_STDIN ?r w') ?r (EndOfStream tail 0 False) (sent c) st2 ys out"
    by auto
  have F: "\<exists>st1 st2 st3 recs. FCGI_Accept (Suc n) K stF = Inr (0, st1) \<and> run_prog K p st1 = Inr (as, st2)
      \<and> FCGI_fflush (Some FCGI_stdout) st2 = Inr (0, st3)
      \<and> sent (conns (sys st3) fd) = sent c @ wire rid recs \<and> stream_recs FCGI_STDOUT [] recs out"
    using fcgi_flush [OF st2(2)] st1(1) st2(1) id by metis
  have "length ?X < K" using io by (auto simp: fcgi_io_def fcgi_in_def)
  from cgi_start [OF cgi this, of n] obtain c1 where c1: "FCGI_Accept n K stC = Inr (0, c1)" "cgi_io K c1 ?X zs" by blast
  from cgi.io_prog [OF c1(2) prog] obtain c2 ys' where c2: "run_prog K p c1 = Inr (as, c2)" "cgi_io K c2 ys' (zs @ out)" by blast
  then have "\<exists>g'. files c2 1 = Some g' \<and> fdat g' = zs @ out" "FCGI_Accept n K c2 = Inr (EOF, c2)"
    by (auto simp: cgi_io_def output_file_def FCGI_Accept_def)
  with c1(1) c2(1) F show ?thesis by blast
qed

definition demo_file :: "bytes \<Rightarrow> FILE" where
  "demo_file bs = \<lparr>fdat = bs, fofs = 0, pushed = None, eofFlag = False, errFlag = False, fdno = 0, canRead = True, canWrite = True,
     canSeek = True\<rparr>"

definition demo_stdio :: "fcgx_lib \<Rightarrow> os_unix \<Rightarrow> stdio" where
  "demo_stdio l w = \<lparr>fcgi_file = (\<lambda>_. Some \<lparr>stdio_stream = None, fcgx_stream = None\<rparr>), nextFile = 3,
     files = [0 \<mapsto> demo_file (chars ''hi''), 1 \<mapsto> demo_file [], 2 \<mapsto> demo_file []], nextFILE = 3, opens = [],
     acceptCalled = False, isCGI = False, finishAtExit = 0, environ = None, fcgx = l, sys = w,
     vformat = (\<lambda>_ _. []), strerror = (\<lambda>_. [])\<rparr>"

definition demo_prog :: prog where
  "demo_prog = Call Getchar (\<lambda>a. Call (Puts [97]) (\<lambda>_. Done))"

theorem cgi_fastcgi_same_witness:
  "(\<exists>st1 st2 g'. FCGI_Accept 0 100 (demo_stdio (demo_lib\<lparr>isFastCGI := 0\<rparr>) idle_os) = Inr (0, st1)
      \<and> run_prog 100 demo_prog st1 = Inr ([Char 104, Success True], st2)
      \<and> files st2 1 = Some g' \<and> fdat g' = [] @ [97, 10] \<and> FCGI_Accept 0 100 st2 = Inr (EOF, st2))
    \<and> (\<exists>st1 st2 st3 recs. FCGI_Accept (Suc 0) 100 (demo_stdio demo_lib demo_os) = Inr (0, st1)
      \<and> run_prog 100 demo_prog st1 = Inr ([Char 104, Success True], st2)
      \<and> FCGI_fflush (Some FCGI_stdout) st2 = Inr (0, st3)
      \<and> sent (conns (sys st3) 5) = sent demo_conn @ wire 1 recs \<and> stream_recs FCGI_STDOUT [] recs [97, 10])"
proof (rule cgi_fastcgi_same [where es = "[]" and c = demo_conn and sa = Sockaddr_un and lib = demo_lib and w = demo_os
      and lC = "demo_lib\<lparr>isFastCGI := 0\<rparr>" and wC = idle_os and f = "demo_file (chars ''hi'')" and g = "demo_file []"
      and precs = "[(FCGI_PARAMS, encode_pairs demo_pairs)]" and tail = "[]" and srecs = "[(FCGI_STDIN, chars ''hi'')]" and rl = 1 and kvs = demo_pairs
      and roleStr = "chars ''FCGI_ROLE=RESPONDER''" and fl = 0])
  show "conn_ok 5 (demo_os\<lparr>conns := (conns demo_os)(5 := demo_conn)\<rparr>)"
    using demo_length
    by (auto simp: conn_ok_def demo_os_def demo_conn_def tx_ok_def HEAP_MIN_def simp flip: length_0_conv)
  show "length (rx_bytes (rx demo_conn)) < 100" using demo_length by (simp add: demo_conn_def)
  show "prog_spec demo_prog (content_of FCGI_STDIN [(FCGI_STDIN, chars ''hi'')]) = ([Char 104, Success True], [97, 10])"
    by (simp add: demo_prog_def call_spec_def chars_def cstr_def)
qed (simp_all add: demo_lib_def demo_os_def demo_conn_def idle_request_def FCGX_InitRequest_def admitted_def addr_ok_def readable_def
    role_string_def stream_records_def encode_pairs_def encode_pair_def encode_len_def demo_pairs_def chars_def pair_fits_def
    demo_stdio_def FCGX_IsCGI_def demo_file_def input_file_def output_file_def demo_prog_def call_ok_def cstr_def)

section \<open>After a failed accept\<close>

lemma FCGX_Free_streams: "FCGX_Free req b w = Inr (req', w') \<Longrightarrow> out_stream req' = None \<and> in_stream req' = None"
  by (auto simp: FCGX_Free_def FCGX_FreeStream_def Let_def bindR_eq_Inr split: if_splits)

lemma Finish_r_streams: "FCGX_Finish_r req w = Inr (req', w') \<Longrightarrow> out_stream req' = None \<and> in_stream req' = None"
  by (auto simp: FCGX_Finish_r_def Let_def bindR_eq_Inr split: option.splits dest: FCGX_Free_streams)

lemma accept_finish_rc: "accept_finish req w = Inr (rc, req', w') \<Longrightarrow> rc = 0"
  by (auto simp: accept_finish_def bindR_eq_Inr split: option.splits)

lemma Accept_loop_streams:
  "Accept_loop n k addrs req w = Inr (rc, req', w') \<Longrightarrow> out_stream req = None \<Longrightarrow> in_stream req = None \<Longrightarrow> rc < 0 \<Longrightarrow>
    out_stream req' = None \<and> in_stream req' = None"
proof (induction n arbitrary: req w)
  case (Suc n)
  then show ?case
    by (auto simp: bindR_eq_Inr split: if_splits dest: FCGX_Free_streams accept_finish_rc)
qed simp

text \<open>
  C29.  When \<open>FCGI_Accept\<close> fails in a FastCGI application that has served a request, the streams of
  that request are gone but \<open>FCGI_stdout\<close> and \<open>FCGI_stdin\<close> still point to them: the next character
  written or read uses freed memory.
\<close>

theorem failed_accept_dangles:
  assumes "acceptCalled st" "\<not> isCGI st" "libInitialized (fcgx st)"
    and "fcgi_file st FCGI_stdout = Some \<lparr>stdio_stream = None, fcgx_stream = Some Out\<rparr>"
      "fcgi_file st FCGI_stdin = Some \<lparr>stdio_stream = None, fcgx_stream = Some In\<rparr>"
    and "FCGI_Accept n k st = Inr (rc, st')" "rc < 0"
  shows "FCGI_putchar c st' = Inl UseAfterFree \<and> FCGI_getchar k' st' = Inl UseAfterFree"
proof -
  obtain req w where a: "FCGX_Accept_r n k (fcgx st) (the_request (fcgx st)) (sys st) = Inr (rc, req, w)"
    "st' = st\<lparr>fcgx := (fcgx st)\<lparr>the_request := req\<rparr>, sys := w\<rparr>"
    using assms by (auto simp: FCGI_Accept_def accept_files_def FCGX_Accept_def bindR_eq_Inr Let_def split: if_splits)
  have "out_stream req = None \<and> in_stream req = None"
    using a(1) assms(3,7) by (auto simp: FCGX_Accept_r_def bindR_eq_Inr dest!: Finish_r_streams Accept_loop_streams split: if_splits)
  with a(2) assms(4,5) show ?thesis
    by (auto simp: FCGI_putchar_def FCGI_fputc_def FCGI_getchar_def FCGI_fgetc_def either_stream_def the_file_def on_stream_def
        req_stream_def Let_def)
qed

definition demo_served :: stdio where
  "demo_served = (demo_stdio demo_lib (idle_os\<lparr>shutdownPending := True\<rparr>))\<lparr>acceptCalled := True,
     fcgi_file := (\<lambda>i. Some \<lparr>stdio_stream = None, fcgx_stream = Some (which_of i)\<rparr>)\<rparr>"

theorem failed_accept_dangles_witness:
  "FCGI_putchar 97 (snd (projr (FCGI_Accept 1 2 demo_served))) = Inl UseAfterFree
    \<and> FCGI_getchar 9 (snd (projr (FCGI_Accept 1 2 demo_served))) = Inl UseAfterFree"
proof (rule failed_accept_dangles)
  show "FCGI_Accept 1 2 demo_served = Inr (- 9999, snd (projr (FCGI_Accept 1 2 demo_served)))"
    by (simp add: demo_served_def demo_stdio_def FCGI_Accept_def accept_files_def FCGX_Accept_def FCGX_Accept_r_def demo_lib_def
        FCGX_InitRequest_def FCGX_Finish_r_def FCGX_Free_def FCGX_FreeStream_def FreeParams_def OS_IpcClose_def OS_Close_def
        OS_Accept_def AcquireLock_def numeral_2_eq_2 zero_data_def accept_retry.simps ReleaseLock_def)
qed (simp_all add: demo_served_def demo_stdio_def demo_lib_def which_of_def)

text \<open>
  C30.  After a write error has closed the output stream, \<open>FCGI_fwrite\<close> of more bytes than the
  buffer has room for does not return a short count: its assertion fails and the program aborts.
\<close>

theorem fwrite_error_aborts:
  assumes "fcgi_file st FCGI_stdout = Some \<lparr>stdio_stream = None, fcgx_stream = Some Out\<rparr>"
      "out_stream (the_request (fcgx st)) = Some d"
    and "isClosed d" "wrNext d \<le> stop d" "stop d \<le> length (buff d)"
    and "stop d - wrNext d < sz * m" "sz * m \<le> length bs" "int (sz * m) < INT_MAX"
  shows "FCGI_fwrite (Suc k) bs sz m FCGI_stdout st = Inl Assertion"
proof -
  let ?s = "attach d (rdata (the_request (fcgx st))) (sys st)"
  have mod: "sz * m mod SIZE_T = sz * m" "\<not> sz * m = 0" using fits_size_t [OF assms(8)] assms(6) by linarith+
  have "\<exists>s. FCGX_PutStr EmptyBuffProc (Suc k) (take n bs) ?s = Inr (- 1, s)" if "stop d - wrNext d < n" "n \<le> length bs" for n
    using assms(3-5) that by (auto simp: FCGX_PutStr_def copy_in_def min_def Let_def)
  from this [OF assms(6,7)] show ?thesis
    using assms(1,2,7,8) mod(2)
    unfolding FCGI_fwrite_def mod(1) Let_def
    by (auto simp: either_stream_def the_file_def on_stream_def req_stream_def Let_def simp del: of_nat_mult)
qed

definition demo_closed :: stdio where
  "demo_closed = demo_served\<lparr>fcgx := demo_lib\<lparr>the_request := (the_request demo_lib)
     \<lparr>out_stream := Some ((detach demo_writer)\<lparr>isClosed := True\<rparr>)\<rparr>\<rparr>\<rparr>"

theorem fwrite_error_aborts_witness:
  "FCGI_fwrite (Suc 9) (replicate 65536 0) 1 65536 FCGI_stdout demo_closed = Inl Assertion"
proof (rule fwrite_error_aborts [where d = "(detach demo_writer)\<lparr>isClosed := True\<rparr>"])
  have "writer_inv FCGI_STDOUT (zero_data\<lparr>requestId := 7, ipcFd := 3, nWriters := 2\<rparr>) demo_writer" by (rule demo_writer)
  then have w: "wrNext demo_writer \<le> stop demo_writer" "stop demo_writer \<le> length (buff demo_writer)" "stop demo_writer \<le> 65536" "8 \<le> wrNext demo_writer"
    by (auto simp: writer_inv_def)
  show "wrNext ((detach demo_writer)\<lparr>isClosed := True\<rparr>) \<le> stop ((detach demo_writer)\<lparr>isClosed := True\<rparr>)"
    "stop ((detach demo_writer)\<lparr>isClosed := True\<rparr>) \<le> length (buff ((detach demo_writer)\<lparr>isClosed := True\<rparr>))"
    "stop ((detach demo_writer)\<lparr>isClosed := True\<rparr>) - wrNext ((detach demo_writer)\<lparr>isClosed := True\<rparr>) < 1 * 65536"
    using w by (simp_all add: detach_def FCGX_Stream_Data.truncate_def)
qed (simp_all add: demo_closed_def demo_served_def which_of_def)

end
