(* ===== verification/Fcgi_Streambuf.thy ===== *)
theory Fcgi_Streambuf
  imports Fcgi_Request
begin

text \<open>
  The C++ adapter \<open>libfcgi/fcgio.cpp\<close>: \<open>fcgi_streambuf\<close> puts the standard library's stream buffer
  interface on an \<open>FCGX_Stream\<close>, with or without a buffer of its own.

  The base class \<open>std::streambuf\<close> keeps a get area and a put area, which \<open>reset\<close> places in the same
  buffer: \<open>eback()\<close> and \<open>pbase()\<close> are its start, and \<open>gptr\<close>, \<open>egptr\<close> and \<open>pptr\<close> are offsets.  The
  base class operations are modelled by the C++ standard: \<open>xsgetn\<close> and \<open>xsputn\<close> have the effect of
  repeated \<open>sbumpc\<close> and \<open>sputc\<close>, and \<open>in_avail\<close> is 0 when no character is available,
  also when the get pointer is behind the get area.
\<close>

section \<open>State\<close>

record fcgi_streambuf =
  fcgx_s :: "stream_io option"
  sbuf :: bytes
  bufsize :: nat
  gptr :: nat
  egptr :: nat
  pptr :: nat

definition on_fcgx :: "(stream_io \<Rightarrow> ('a \<times> stream_io) res) \<Rightarrow> fcgi_streambuf \<Rightarrow> ('a \<times> fcgi_streambuf) res" where
  "on_fcgx op b = (case fcgx_s b of
     None \<Rightarrow> Inl NullDeref
   | Some s \<Rightarrow> bindR (op s) (\<lambda>(x, s). Inr (x, b\<lparr>fcgx_s := Some s\<rparr>)))"

section \<open>Buffers\<close>

definition reset :: "fcgi_streambuf \<Rightarrow> fcgi_streambuf" where
  "reset b = b\<lparr>gptr := 0, egptr := 0, pptr := 0\<rparr>"

text \<open>\<open>setbuf\<close> with the memory it is given; the result says whether the buffer was taken.\<close>

definition setbuf :: "bytes \<Rightarrow> nat \<Rightarrow> fcgi_streambuf \<Rightarrow> bool \<times> fcgi_streambuf" where
  "setbuf m bs b = (if bufsize b \<noteq> 0 then (False, b) else (True, reset (b\<lparr>sbuf := m, bufsize := bs\<rparr>)))"

definition streambuf_init :: "stream_io option \<Rightarrow> bytes \<Rightarrow> nat \<Rightarrow> fcgi_streambuf" where
  "streambuf_init fs m bs =
     snd (setbuf m bs \<lparr>fcgx_s = fs, sbuf = [], bufsize = 0, gptr = 0, egptr = 0, pptr = 0\<rparr>)"

definition streambuf_attach :: "stream_io option \<Rightarrow> fcgi_streambuf \<Rightarrow> int \<times> fcgi_streambuf" where
  "streambuf_attach fs b = (let b = b\<lparr>fcgx_s := fs\<rparr> in (0, if bufsize b \<noteq> 0 then reset b else b))"

text \<open>The deprecated streams are a stream buffer without a buffer, attached to a stream.\<close>

definition fcgi_istream_new :: "stream_io option \<Rightarrow> fcgi_streambuf" where
  "fcgi_istream_new fs = snd (streambuf_attach fs (streambuf_init None [] 0))"

definition fcgi_istream_attach :: "stream_io option \<Rightarrow> fcgi_streambuf \<Rightarrow> fcgi_streambuf" where
  "fcgi_istream_attach fs strmbuf = snd (streambuf_attach fs strmbuf)"

definition fcgi_ostream_new :: "stream_io option \<Rightarrow> fcgi_streambuf" where
  "fcgi_ostream_new fs = snd (streambuf_attach fs (streambuf_init None [] 0))"

definition fcgi_ostream_attach :: "stream_io option \<Rightarrow> fcgi_streambuf \<Rightarrow> fcgi_streambuf" where
  "fcgi_ostream_attach fs strmbuf = snd (streambuf_attach fs strmbuf)"

lemma deprecated_streams: "fcgi_istream_new fs = streambuf_init fs [] 0" "fcgi_ostream_new fs = streambuf_init fs [] 0"
  by (simp_all add: fcgi_istream_new_def fcgi_ostream_new_def streambuf_attach_def streambuf_init_def setbuf_def reset_def Let_def)

section \<open>Output\<close>

definition overflow :: "empty_proc \<Rightarrow> nat \<Rightarrow> int \<Rightarrow> fcgi_streambuf \<Rightarrow> (int \<times> fcgi_streambuf) res" where
  "overflow emptyp k c b =
     bindR
       (if bufsize b \<noteq> 0 \<and> pptr b \<noteq> 0
        then bindR (ASSERT (int (pptr b) \<le> INT_MAX)) (\<lambda>_.
          bindR (on_fcgx (FCGX_PutStr emptyp k (take (pptr b) (sbuf b))) b) (\<lambda>(n, b).
          Inr (if n \<noteq> int (pptr b) then (False, b) else (True, b\<lparr>pptr := 0\<rparr>))))
        else Inr (True, b)) (\<lambda>(ok, b).
     if \<not> ok then Inr (EOF, b)
     else if c \<noteq> EOF
     then bindR (on_fcgx (FCGX_PutChar emptyp c) b) (\<lambda>(r, b). Inr (if r \<noteq> c then EOF else 0, b))
     else Inr (0, b))"

definition streambuf_delete :: "empty_proc \<Rightarrow> nat \<Rightarrow> fcgi_streambuf \<Rightarrow> fcgi_streambuf res" where
  "streambuf_delete emptyp k b = bindR (overflow emptyp k EOF b) (\<lambda>(_, b). Inr b)"

definition sync :: "empty_proc \<Rightarrow> nat \<Rightarrow> fcgi_streambuf \<Rightarrow> (int \<times> fcgi_streambuf) res" where
  "sync emptyp k b =
     bindR (overflow emptyp k EOF b) (\<lambda>(r, b).
     if r \<noteq> 0 then Inr (EOF, b)
     else bindR (on_fcgx (FCGX_FFlush emptyp) b) (\<lambda>(r, b). Inr (if r \<noteq> 0 then EOF else 0, b)))"

text \<open>\<open>std::streambuf::sputc\<close> and \<open>std::streambuf::xsputn\<close>\<close>

definition sputc :: "empty_proc \<Rightarrow> nat \<Rightarrow> byte \<Rightarrow> fcgi_streambuf \<Rightarrow> (int \<times> fcgi_streambuf) res" where
  "sputc emptyp k c b =
     (if pptr b < bufsize b
      then if pptr b < length (sbuf b)
        then Inr (uint c, b\<lparr>sbuf := (sbuf b)[pptr b := c], pptr := Suc (pptr b)\<rparr>)
        else Inl OutOfBounds
      else overflow emptyp k (uint c) b)"

primrec base_xsputn :: "empty_proc \<Rightarrow> nat \<Rightarrow> bytes \<Rightarrow> fcgi_streambuf \<Rightarrow> (int \<times> fcgi_streambuf) res" where
  "base_xsputn emptyp k [] b = Inr (0, b)"
| "base_xsputn emptyp k (c # cs) b =
     bindR (sputc emptyp k c b) (\<lambda>(r, b).
     if r = EOF then Inr (0, b)
     else bindR (base_xsputn emptyp k cs b) (\<lambda>(n, b). Inr (n + 1, b)))"

definition xsputn :: "empty_proc \<Rightarrow> nat \<Rightarrow> bytes \<Rightarrow> fcgi_streambuf \<Rightarrow> (int \<times> fcgi_streambuf) res" where
  "xsputn emptyp k str b =
     (if int (length str) > INT_MAX then Inr (0, b)
      else if bufsize b \<noteq> 0 then base_xsputn emptyp k str b
      else on_fcgx (FCGX_PutStr emptyp k str) b)"

section \<open>Input\<close>

definition underflow :: "fill_proc \<Rightarrow> nat \<Rightarrow> fcgi_streambuf \<Rightarrow> (int \<times> fcgi_streambuf) res" where
  "underflow fill k b =
     (if bufsize b \<noteq> 0
      then bindR
        (if gptr b < egptr b then Inr (True, b)
         else bindR (ASSERT (int (bufsize b) \<le> INT_MAX)) (\<lambda>_.
           bindR (on_fcgx (FCGX_GetStr fill k (int (bufsize b))) b) (\<lambda>(bs, b).
           if bs = [] then Inr (False, b)
           else if length (sbuf b) < length bs then Inl OutOfBounds
           else Inr (True, b\<lparr>sbuf := blit 0 bs (sbuf b), gptr := 0, egptr := length bs\<rparr>)))) (\<lambda>(ok, b).
        if \<not> ok then Inr (EOF, b)
        else if gptr b < length (sbuf b) then Inr (uint (sbuf b ! gptr b), b) else Inl OutOfBounds)
      else on_fcgx (FCGX_GetChar fill) b)"

definition uflow :: "fill_proc \<Rightarrow> nat \<Rightarrow> fcgi_streambuf \<Rightarrow> (int \<times> fcgi_streambuf) res" where
  "uflow fill k b =
     bindR (underflow fill k b) (\<lambda>(rv, b).
     Inr (rv, if bufsize b \<noteq> 0 then b\<lparr>gptr := Suc (gptr b)\<rparr> else b))"

text \<open>\<open>std::streambuf::sbumpc\<close>, \<open>std::streambuf::sungetc\<close> and \<open>std::streambuf::xsgetn\<close>\<close>

definition sbumpc :: "fill_proc \<Rightarrow> nat \<Rightarrow> fcgi_streambuf \<Rightarrow> (int \<times> fcgi_streambuf) res" where
  "sbumpc fill k b =
     (if gptr b < egptr b
      then if gptr b < length (sbuf b) then Inr (uint (sbuf b ! gptr b), b\<lparr>gptr := Suc (gptr b)\<rparr>) else Inl OutOfBounds
      else uflow fill k b)"

definition sungetc :: "fcgi_streambuf \<Rightarrow> (int \<times> fcgi_streambuf) res" where
  "sungetc b =
     (if gptr b = 0 then Inr (EOF, b)
      else if length (sbuf b) < gptr b then Inl OutOfBounds
      else Inr (uint (sbuf b ! (gptr b - 1)), b\<lparr>gptr := gptr b - 1\<rparr>))"

primrec base_xsgetn :: "fill_proc \<Rightarrow> nat \<Rightarrow> nat \<Rightarrow> fcgi_streambuf \<Rightarrow> (bytes \<times> fcgi_streambuf) res" where
  "base_xsgetn fill k 0 b = Inr ([], b)"
| "base_xsgetn fill k (Suc n) b =
     bindR (sbumpc fill k b) (\<lambda>(c, b).
     if c = EOF then Inr ([], b)
     else bindR (base_xsgetn fill k n b) (\<lambda>(cs, b). Inr (word_of_int c # cs, b)))"

definition xsgetn :: "fill_proc \<Rightarrow> nat \<Rightarrow> nat \<Rightarrow> fcgi_streambuf \<Rightarrow> (bytes \<times> fcgi_streambuf) res" where
  "xsgetn fill k n b =
     (if int n > INT_MAX then Inr ([], b)
      else if bufsize b \<noteq> 0 then base_xsgetn fill k n b
      else on_fcgx (FCGX_GetStr fill k (int n)) b)"

section \<open>Output through any buffer\<close>

lemma take_update_snoc: "i < length xs \<Longrightarrow> take (Suc i) (xs[i := x]) = take i xs @ [x]"
  by (simp add: take_Suc_conv_app_nth)

definition put_area :: "nat \<Rightarrow> fcgi_streambuf \<Rightarrow> bool" where
  "put_area k b \<longleftrightarrow> pptr b \<le> bufsize b \<and> bufsize b \<le> length (sbuf b) \<and> bufsize b < k \<and> int (bufsize b) \<le> INT_MAX"

context byte_sink
begin

text \<open>Everything put so far is \<open>zs\<close>: in the stream, or in the put area.\<close>

definition took :: "nat \<Rightarrow> fcgi_streambuf \<Rightarrow> bytes \<Rightarrow> bool" where
  "took k b zs \<longleftrightarrow> put_area k b \<and> (\<exists>s ys. fcgx_s b = Some s \<and> snk s ys \<and> zs = ys @ take (pptr b) (sbuf b))"

lemma overflow_EOF:
  assumes "took k b zs"
  shows "\<exists>s. overflow emptyp k EOF b = Inr (0, b\<lparr>fcgx_s := Some s, pptr := 0\<rparr>) \<and> snk s zs"
proof -
  obtain s ys where s: "fcgx_s b = Some s" "snk s ys" "zs = ys @ take (pptr b) (sbuf b)" and p: "put_area k b"
    using assms by (auto simp: took_def)
  show ?thesis
  proof (cases "pptr b = 0")
    case True
    then have "b\<lparr>fcgx_s := Some s, pptr := 0\<rparr> = b" using s(1) by simp
    with True s show ?thesis by (intro exI [of _ s]) (simp add: overflow_def)
  next
    case False
    have len: "length (take (pptr b) (sbuf b)) = pptr b" using p by (simp add: put_area_def)
    from PutStr_snk [OF s(2), of "take (pptr b) (sbuf b)" k, unfolded len] p obtain s' where
      "FCGX_PutStr emptyp k (take (pptr b) (sbuf b)) s = Inr (int (pptr b), s')" "snk s' zs"
      using s(3) by (auto simp: put_area_def)
    with False p s(1) show ?thesis by (auto simp: overflow_def on_fcgx_def put_area_def)
  qed
qed

lemma sputc_took:
  assumes "took k b zs"
  shows "\<exists>n b'. sputc emptyp k c b = Inr (n, b') \<and> n \<noteq> EOF \<and> took k b' (zs @ [c])"
proof -
  have u: "uint c \<noteq> EOF" "uint c mod 256 = uint c" using uint_byte [of c] by (linarith, simp)
  have p: "put_area k b" using assms by (simp add: took_def)
  show ?thesis
  proof (cases "pptr b < bufsize b")
    case True
    with p assms u(1) show ?thesis
      by (auto simp: sputc_def took_def put_area_def take_update_snoc)
  next
    case False
    from overflow_EOF [OF assms] obtain s where
      o: "overflow emptyp k EOF b = Inr (0, b\<lparr>fcgx_s := Some s, pptr := 0\<rparr>)" "snk s zs" by blast
    from PutChar_snk [OF o(2), of "uint c"] u(2) obtain s' where
      s': "FCGX_PutChar emptyp (uint c) s = Inr (uint c, s')" "snk s' (zs @ [c])" by auto
    have "overflow emptyp k (uint c) b = bindR (overflow emptyp k EOF b) (\<lambda>(r, b).
        if r \<noteq> 0 then Inr (r, b) else bindR (on_fcgx (FCGX_PutChar emptyp (uint c)) b) (\<lambda>(r, b). Inr (if r \<noteq> uint c then EOF else 0, b)))"
      unfolding overflow_def bindR_assoc using u(1) by (auto intro!: arg_cong [where f = "bindR _"] simp: fun_eq_iff)
    with o(1) s' False p show ?thesis
      by (auto simp: sputc_def on_fcgx_def took_def put_area_def)
  qed
qed

lemma base_xsputn_took:
  "took k b zs \<Longrightarrow> \<exists>b'. base_xsputn emptyp k cs b = Inr (int (length cs), b') \<and> took k b' (zs @ cs)"
proof (induction cs arbitrary: b zs)
  case (Cons c cs)
  from sputc_took [OF Cons.prems] obtain n b1 where "sputc emptyp k c b = Inr (n, b1)" "n \<noteq> EOF" "took k b1 (zs @ [c])" by blast
  with Cons.IH [of b1 "zs @ [c]"] show ?case by auto
qed auto

lemma xsputn_took:
  assumes "took k b zs" "length cs < k" "int (length cs) \<le> INT_MAX"
  shows "\<exists>b'. xsputn emptyp k cs b = Inr (int (length cs), b') \<and> took k b' (zs @ cs)"
proof (cases "bufsize b = 0")
  case True
  then have p: "pptr b = 0" "put_area k b" using assms(1) by (auto simp: took_def put_area_def)
  then obtain s where s: "fcgx_s b = Some s" "snk s zs" using assms(1) by (auto simp: took_def)
  from PutStr_snk [OF s(2) assms(2)] obtain s' where "FCGX_PutStr emptyp k cs s = Inr (int (length cs), s')" "snk s' (zs @ cs)" by blast
  with True p s(1) assms(3) show ?thesis by (auto simp: xsputn_def on_fcgx_def took_def put_area_def)
next
  case False
  with base_xsputn_took [OF assms(1)] assms(3) show ?thesis by (simp add: xsputn_def)
qed

lemma sync_took:
  assumes "took k b zs"
  shows "\<exists>b' s. sync emptyp k b = Inr (0, b') \<and> fcgx_s b' = Some s \<and> snk s zs \<and> wrNext s = base"
proof -
  from overflow_EOF [OF assms] obtain s where
    o: "overflow emptyp k EOF b = Inr (0, b\<lparr>fcgx_s := Some s, pptr := 0\<rparr>)" "snk s zs" by blast
  from FFlush_snk [OF o(2)] obtain s' where "FCGX_FFlush emptyp s = Inr (0, s')" "snk s' zs" "wrNext s' = base" by blast
  with o(1) show ?thesis by (auto simp: sync_def on_fcgx_def)
qed

end

section \<open>Input through any buffer\<close>

definition get_area :: "fcgi_streambuf \<Rightarrow> bool" where
  "get_area b \<longleftrightarrow> gptr b \<le> egptr b \<and> egptr b \<le> length (sbuf b) \<and> bufsize b \<le> length (sbuf b)
     \<and> int (bufsize b) \<le> INT_MAX \<and> (bufsize b = 0 \<longrightarrow> egptr b = 0)"

context byte_source
begin

text \<open>What is still to be read is \<open>xs\<close>: the rest of the get area, and then the stream, which is closed once its end was seen.\<close>

definition to_come :: "stream_io \<Rightarrow> bytes \<Rightarrow> bool" where
  "to_come s xs \<longleftrightarrow> src s xs \<or> xs = [] \<and> isClosed s"

definition gives :: "nat \<Rightarrow> fcgi_streambuf \<Rightarrow> bytes \<Rightarrow> bool" where
  "gives k b xs \<longleftrightarrow> get_area b \<and> length xs < k
     \<and> (\<exists>s ys. fcgx_s b = Some s \<and> to_come s ys \<and> xs = seg (gptr b) (egptr b) (sbuf b) @ ys)"

lemma GetStr_to_come:
  assumes "to_come s xs" "length xs < k" "0 \<le> n"
  shows "\<exists>s'. FCGX_GetStr fill k n s = Inr (take (nat n) xs, s') \<and> to_come s' (drop (nat n) xs)"
proof (cases "src s xs")
  case True
  show ?thesis
  proof (cases "nat n \<le> length xs")
    case le: True
    from GetStr_full [OF True assms(2,3) this] show ?thesis by (auto simp: to_come_def)
  next
    case False
    with GetStr_short [OF True assms(2,3)] fin_closed show ?thesis by (fastforce simp: to_come_def)
  qed
next
  case False
  with assms(1,3) show ?thesis by (auto simp: to_come_def FCGX_GetStr_def)
qed

lemma GetChar_to_come:
  assumes "to_come s xs"
  shows "\<exists>s'. FCGX_GetChar fill s = Inr (case xs of [] \<Rightarrow> EOF | x # _ \<Rightarrow> uint x, s') \<and> to_come s' (tl xs)"
proof (cases "src s xs")
  case True
  with GetChar_src [of s] GetChar_end [of s] fin_closed show ?thesis by (cases xs) (fastforce simp: to_come_def)+
next
  case False
  with assms show ?thesis by (auto simp: to_come_def FCGX_GetChar_def)
qed

lemma underflow_fills:
  assumes "gives k b xs" "bufsize b \<noteq> 0"
  shows "if xs = [] then \<exists>s. underflow fill k b = Inr (EOF, b\<lparr>fcgx_s := Some s\<rparr>) \<and> to_come s []
    else \<exists>b'. underflow fill k b = Inr (uint (hd xs), b') \<and> gives k b' xs \<and> gptr b' < egptr b' \<and> bufsize b' = bufsize b"
proof -
  obtain s ys where s: "fcgx_s b = Some s" "to_come s ys" "xs = seg (gptr b) (egptr b) (sbuf b) @ ys" "length xs < k" "get_area b"
    using assms(1) by (auto simp: gives_def)
  show ?thesis
  proof (cases "gptr b < egptr b")
    case True
    with s have "xs \<noteq> []" "hd xs = sbuf b ! gptr b" "gptr b < length (sbuf b)" by (auto simp: get_area_def seg_Cons)
    with True assms show ?thesis by (auto simp: underflow_def)
  next
    case False
    then have ys: "xs = ys" using s(3) by simp
    from GetStr_to_come [OF s(2), of k "int (bufsize b)"] s(4) ys obtain s' where
      s': "FCGX_GetStr fill k (int (bufsize b)) s = Inr (take (bufsize b) xs, s')" "to_come s' (drop (bufsize b) xs)" by auto
    let ?b = "b\<lparr>fcgx_s := Some s', sbuf := blit 0 (take (bufsize b) xs) (sbuf b), gptr := 0, egptr := length (take (bufsize b) xs)\<rparr>"
    have u: "underflow fill k b = (if xs = [] then Inr (EOF, b\<lparr>fcgx_s := Some s'\<rparr>) else Inr (uint (hd xs), ?b))"
      using False s(1,5) s'(1) assms(2) by (cases xs; cases "bufsize b") (auto simp: underflow_def on_fcgx_def get_area_def blit_def)
    show ?thesis
    proof (cases "xs = []")
      case True
      with u s'(2) show ?thesis by auto
    next
      case ne: False
      have "seg 0 (length (take (bufsize b) xs)) (sbuf ?b) = take (bufsize b) xs"
        using seg_blit_same [of 0 "sbuf b" "take (bufsize b) xs"] by simp
      moreover have "get_area ?b" using s(5) by (auto simp: get_area_def blit_def)
      ultimately have "gives k ?b xs" using s'(2) s(4) unfolding gives_def by simp (metis append_take_drop_id)
      with u ne assms(2) show ?thesis by auto
    qed
  qed
qed

lemma gives_bump:
  assumes "gives k b xs" "gptr b < egptr b"
  shows "gives k (b\<lparr>gptr := Suc (gptr b)\<rparr>) (tl xs)" "xs \<noteq> []" "hd xs = sbuf b ! gptr b" "gptr b < length (sbuf b)"
  using assms by (auto simp: gives_def get_area_def seg_Cons)

lemma sbumpc_gives:
  assumes "gives k b (x # xs)"
  shows "\<exists>b'. sbumpc fill k b = Inr (uint x, b') \<and> gives k b' xs \<and> (bufsize b' = 0) = (bufsize b = 0)"
proof (cases "gptr b < egptr b")
  case True
  with gives_bump [OF assms True] show ?thesis by (auto simp: sbumpc_def)
next
  case empty: False
  show ?thesis
  proof (cases "bufsize b = 0")
    case True
    with assms obtain s where s: "fcgx_s b = Some s" "to_come s (x # xs)" by (auto simp: gives_def get_area_def)
    from GetChar_to_come [OF s(2)] s(1) True assms empty show ?thesis
      by (auto simp: sbumpc_def uflow_def underflow_def on_fcgx_def gives_def get_area_def)
  next
    case False
    from underflow_fills [OF assms False] obtain b' where
      "underflow fill k b = Inr (uint x, b')" "gives k b' (x # xs)" "gptr b' < egptr b'" "bufsize b' = bufsize b" by auto
    with gives_bump(1) [OF this(2,3)] empty False show ?thesis by (auto simp: sbumpc_def uflow_def)
  qed
qed

text \<open>At the end \<open>uflow\<close> moves the get pointer all the same.\<close>

lemma sbumpc_end:
  assumes "gives k b []" "bufsize b \<noteq> 0"
  shows "\<exists>s. sbumpc fill k b = Inr (EOF, b\<lparr>fcgx_s := Some s, gptr := Suc (gptr b)\<rparr>)" "gptr b = egptr b"
proof -
  show g: "gptr b = egptr b" using assms(1) gives_bump(2) [OF assms(1)] by (fastforce simp: gives_def get_area_def)
  from underflow_fills [OF assms] assms(2) g show "\<exists>s. sbumpc fill k b = Inr (EOF, b\<lparr>fcgx_s := Some s, gptr := Suc (gptr b)\<rparr>)"
    by (auto simp: sbumpc_def uflow_def)
qed

lemma base_xsgetn_gives:
  "gives k b xs \<Longrightarrow> bufsize b \<noteq> 0 \<Longrightarrow>
    \<exists>b'. base_xsgetn fill k n b = Inr (take n xs, b') \<and> (n \<le> length xs \<longrightarrow> gives k b' (drop n xs) \<and> bufsize b' \<noteq> 0)"
proof (induction n arbitrary: b xs)
  case (Suc n)
  show ?case
  proof (cases xs)
    case Nil
    with sbumpc_end(1) [of k b] Suc.prems show ?thesis by auto
  next
    case (Cons y ys)
    from sbumpc_gives [of k b y ys] Suc.prems Cons obtain b1 where
      b1: "sbumpc fill k b = Inr (uint y, b1)" "gives k b1 ys" "bufsize b1 \<noteq> 0" by auto
    have "uint y \<noteq> EOF" using uint_byte(1) [of y] by linarith
    with Suc.IH [OF b1(2,3)] b1(1) Cons show ?thesis by auto
  qed
qed simp

lemma xsgetn_gives:
  assumes "gives k b xs" "int n \<le> INT_MAX"
  shows "\<exists>b'. xsgetn fill k n b = Inr (take n xs, b') \<and> (n \<le> length xs \<longrightarrow> gives k b' (drop n xs))"
proof (cases "bufsize b = 0")
  case True
  with assms(1) obtain s where s: "fcgx_s b = Some s" "to_come s xs" "length xs < k" by (auto simp: gives_def get_area_def)
  from GetStr_to_come [OF s(2,3), of "int n"] s True assms show ?thesis
    by (auto simp: xsgetn_def on_fcgx_def gives_def get_area_def)
next
  case False
  with base_xsgetn_gives [OF assms(1), of n] assms(2) show ?thesis by (auto simp: xsgetn_def)
qed

end

section \<open>Properties of the stream buffer\<close>

text \<open>A sequence of writes, and a sequence of reads.\<close>

primrec write_all :: "empty_proc \<Rightarrow> nat \<Rightarrow> bytes list \<Rightarrow> fcgi_streambuf \<Rightarrow> (int list \<times> fcgi_streambuf) res" where
  "write_all emptyp k [] b = Inr ([], b)"
| "write_all emptyp k (str # strs) b = bindR (xsputn emptyp k str b) (\<lambda>(n, b).
     bindR (write_all emptyp k strs b) (\<lambda>(ns, b). Inr (n # ns, b)))"

primrec read_all :: "fill_proc \<Rightarrow> nat \<Rightarrow> nat list \<Rightarrow> fcgi_streambuf \<Rightarrow> (bytes list \<times> fcgi_streambuf) res" where
  "read_all fill k [] b = Inr ([], b)"
| "read_all fill k (n # ns) b = bindR (xsgetn fill k n b) (\<lambda>(bs, b).
     bindR (read_all fill k ns b) (\<lambda>(bss, b). Inr (bs # bss, b)))"

primrec pieces :: "nat list \<Rightarrow> bytes \<Rightarrow> bytes list" where
  "pieces [] xs = []"
| "pieces (n # ns) xs = take n xs # pieces ns (drop n xs)"

context byte_sink
begin

lemma write_all_took:
  "took k b zs \<Longrightarrow> \<forall>str \<in> set strs. length str < k \<and> int (length str) \<le> INT_MAX \<Longrightarrow>
    \<exists>b'. write_all emptyp k strs b = Inr (map (int \<circ> length) strs, b') \<and> took k b' (zs @ concat strs)"
proof (induction strs arbitrary: b zs)
  case (Cons str strs)
  from xsputn_took [OF Cons.prems(1), of str] Cons.prems(2) obtain b1 where
    "xsputn emptyp k str b = Inr (int (length str), b1)" "took k b1 (zs @ str)" by auto
  with Cons.IH [of b1 "zs @ str"] Cons.prems(2) show ?case by auto
qed simp

end

context byte_source
begin

lemma read_all_gives:
  "gives k b xs \<Longrightarrow> sum_list (butlast ns) \<le> length xs \<Longrightarrow> \<forall>n \<in> set ns. int n \<le> INT_MAX \<Longrightarrow>
    \<exists>b'. read_all fill k ns b = Inr (pieces ns xs, b')"
proof (induction ns arbitrary: b xs)
  case (Cons n ns)
  from xsgetn_gives [OF Cons.prems(1), of n] Cons.prems(3) obtain b1 where
    b1: "xsgetn fill k n b = Inr (take n xs, b1)" "n \<le> length xs \<longrightarrow> gives k b1 (drop n xs)" by auto
  show ?case
  proof (cases "ns = []")
    case False
    then have "n \<le> length xs" "sum_list (butlast ns) \<le> length (drop n xs)" using Cons.prems(2) by auto
    with Cons.IH [of b1 "drop n xs"] b1 Cons.prems(3) show ?thesis by auto
  qed (use b1 in simp)
qed simp

end

text \<open>
  C31.  Output through a \<open>fcgi_streambuf\<close> with a buffer of any size, or with none: any sequence of
  \<open>xsputn\<close> calls takes every byte, and after \<open>sync\<close> the peer has received, after what it had
  received before, records of the request that carry exactly the bytes written, in order.
\<close>

theorem streambuf_output:
  assumes "writer_inv ty r s" "wrNext s = 8" "\<not> isAnythingWritten s"
    and "bs \<le> length m" "bs < k" "int bs \<le> INT_MAX"
    and "\<forall>str \<in> set strs. length str < k \<and> int (length str) \<le> INT_MAX"
  shows "\<exists>b b' s' recs. write_all EmptyBuffProc k strs (streambuf_init (Some s) m bs) = Inr (map (int \<circ> length) strs, b)
    \<and> sync EmptyBuffProc k b = Inr (0, b') \<and> fcgx_s b' = Some s'
    \<and> sent (conns (os s') (ipcFd r)) = sent (conns (os s) (ipcFd r)) @ wire (requestId r) recs
    \<and> stream_recs ty [] recs (concat strs)"
proof -
  have "rec_sink.snk ty r (os s) [] s []" using assms(1-3) transmitted_Nil by (auto simp: rec_sink.snk_def out_rel_def emitted_def stream_recs_def wire_def intro!: exI [of _ "[]"])
  then have "rec_sink.took ty r (os s) [] k (streambuf_init (Some s) m bs) []"
    using assms(4-6) by (auto simp: rec_sink.took_def put_area_def streambuf_init_def setbuf_def reset_def)
  from rec_sink.write_all_took [OF this assms(7)] obtain b where
    b: "write_all EmptyBuffProc k strs (streambuf_init (Some s) m bs) = Inr (map (int \<circ> length) strs, b)"
      "rec_sink.took ty r (os s) [] k b (concat strs)" by auto
  from rec_sink.sync_took [OF b(2)] obtain b' s' where
    s': "sync EmptyBuffProc k b = Inr (0, b')" "fcgx_s b' = Some s'" "rec_sink.snk ty r (os s) [] s' (concat strs)" "wrNext s' = 8" by blast
  from s'(3,4) obtain recs where "transmitted (ipcFd r) (os s) (wire (requestId r) recs) (os s')" "stream_recs ty [] recs (concat strs)"
    by (auto simp: rec_sink.snk_def out_rel_def emitted_def)
  then show ?thesis using b(1) s'(1,2) by (auto simp: transmitted_def)
qed

theorem streambuf_output_witness:
  "\<exists>b b' s' recs. write_all EmptyBuffProc 10 [chars ''ab'', chars ''cde''] (streambuf_init (Some demo_writer) [0, 0] 2) =
      Inr (map (int \<circ> length) [chars ''ab'', chars ''cde''], b)
    \<and> sync EmptyBuffProc 10 b = Inr (0, b') \<and> fcgx_s b' = Some s'
    \<and> sent (conns (os s') 3) = sent (conns (os demo_writer) 3) @ wire 7 recs
    \<and> stream_recs FCGI_STDOUT [] recs (concat [chars ''ab'', chars ''cde''])"
  using streambuf_output [OF demo_writer, of 2 "[0, 0]" 10 "[chars ''ab'', chars ''cde'']"]
  by (simp add: chars_def)

text \<open>A new stream buffer on an input stream gives the content of the stream's records.\<close>

lemma new_gives:
  assumes "ready_reader ty r d w (wire (requestId r) recs @ record_bytes ty (requestId r) [] [] @ tail)"
    and "stream_records ty recs" "ty \<noteq> FCGI_BEGIN_REQUEST" "0 \<le> ty" "ty \<le> 255" "0 < requestId r" "requestId r \<le> 65535"
    and "length (wire (requestId r) recs @ record_bytes ty (requestId r) [] [] @ tail) < k"
    and "bs \<le> length m" "int bs \<le> INT_MAX"
  shows "\<exists>e out. str.gives k (mode_for ty r w) r e w out k (streambuf_init (Some (attach d r w)) m bs) (content_of ty recs)"
proof -
  have "str.gives k (mode_for ty r w) r (EndOfStream tail 0 False) w [] k (streambuf_init (Some (attach d r w)) m bs) (content_of ty recs)"
    using ready_input_src [OF assms(1-8)] assms(9,10)
    by (auto simp: str.gives_def str.to_come_def get_area_def streambuf_init_def setbuf_def reset_def)
  then show ?thesis by blast
qed

text \<open>
  C32.  Input through a \<open>fcgi_streambuf\<close> with a buffer of any size, or with none: any sequence of
  \<open>xsgetn\<close> calls, of which the last may reach beyond the end, returns the successive pieces of
  the input the records carry.
\<close>

theorem streambuf_input:
  assumes "ready_reader ty r d w (wire (requestId r) recs @ record_bytes ty (requestId r) [] [] @ tail)"
    and "stream_records ty recs" "ty \<noteq> FCGI_BEGIN_REQUEST" "0 \<le> ty" "ty \<le> 255" "0 < requestId r" "requestId r \<le> 65535"
    and "length (wire (requestId r) recs @ record_bytes ty (requestId r) [] [] @ tail) < k"
    and "bs \<le> length m" "int bs \<le> INT_MAX"
    and "sum_list (butlast ns) \<le> length (content_of ty recs)" "\<forall>n \<in> set ns. int n \<le> INT_MAX"
  shows "\<exists>b. read_all (FillBuffProc k []) k ns (streambuf_init (Some (attach d r w)) m bs) = Inr (pieces ns (content_of ty recs), b)"
proof -
  from new_gives [OF assms(1-8) assms(9,10)] obtain e out where
    "str.gives k (mode_for ty r w) r e w out k (streambuf_init (Some (attach d r w)) m bs) (content_of ty recs)" by blast
  from str.read_all_gives [OF this assms(11,12)] show ?thesis .
qed

definition demo_input_bytes :: bytes where
  "demo_input_bytes = wire 7 [(FCGI_STDIN, chars ''hi'')] @ record_bytes FCGI_STDIN 7 [] [] @ []"

definition demo_input :: "FCGX_Stream_Data \<times> os_unix" where
  "demo_input = projr (NewReader 64 FCGI_STDIN (idle_os\<lparr>conns := (\<lambda>_. idle_conn\<lparr>rx := [RData demo_input_bytes]\<rparr>)\<rparr>))"

abbreviation (input) demo_input_data :: ReqData where
  "demo_input_data \<equiv> zero_data\<lparr>requestId := 7, isBeginProcessed := True\<rparr>"

lemma demo_input:
  "ready_reader FCGI_STDIN demo_input_data (fst demo_input) (snd demo_input)
    (wire (requestId demo_input_data) [(FCGI_STDIN, chars ''hi'')] @ record_bytes FCGI_STDIN (requestId demo_input_data) [] [] @ [])"
  "length (wire (requestId demo_input_data) [(FCGI_STDIN, chars ''hi'')] @ record_bytes FCGI_STDIN (requestId demo_input_data) [] [] @ []) < 100"
  "stream_records FCGI_STDIN [(FCGI_STDIN, chars ''hi'')]" "content_of FCGI_STDIN [(FCGI_STDIN, chars ''hi'')] = chars ''hi''"
proof -
  let ?w = "idle_os\<lparr>conns := (\<lambda>_. idle_conn\<lparr>rx := [RData demo_input_bytes]\<rparr>)\<rparr>"
  have len: "length demo_input_bytes = 24"
    by (simp add: demo_input_bytes_def wire_def wrap_record_def record_bytes_def chars_def pad_of_def)
  then show "length (wire (requestId demo_input_data) [(FCGI_STDIN, chars ''hi'')] @ record_bytes FCGI_STDIN (requestId demo_input_data) [] [] @ []) < 100"
    unfolding demo_input_bytes_def by simp
  have "conn_ok (ipcFd demo_input_data) ?w" using len by (auto simp: conn_ok_def tx_ok_def HEAP_MIN_def)
  from new_ready_reader [OF this, of 64 FCGI_STDIN]
  show "ready_reader FCGI_STDIN demo_input_data (fst demo_input) (snd demo_input)
    (wire (requestId demo_input_data) [(FCGI_STDIN, chars ''hi'')] @ record_bytes FCGI_STDIN (requestId demo_input_data) [] [] @ [])"
    by (auto simp: demo_input_def) (simp add: demo_input_bytes_def)
qed (simp_all add: stream_records_def chars_def)

theorem streambuf_input_witness:
  "\<exists>b. read_all (FillBuffProc 100 []) 100 [1, 5] (streambuf_init (Some (attach (fst demo_input) demo_input_data (snd demo_input))) [0, 0, 0] 3) =
    Inr ([chars ''h'', chars ''i''], b)"
  using streambuf_input [OF demo_input(1,3) _ _ _ _ _ demo_input(2), of 3 "[0, 0, 0]" "[1, 5]"]
  by (simp add: demo_input(4) chars_def)

text \<open>
  C33.  At the end of the input \<open>uflow\<close> returns \<open>EOF\<close> but moves the get pointer behind the get area all
  the same.  A \<open>sungetc\<close> after that, which should give the last byte of the input again, returns
  the byte of the buffer behind the get area, whatever is there (what the buffer held before, or a
  byte of an earlier filling), or reads outside the buffer when the get area fills it.
\<close>

theorem streambuf_unget_after_end:
  assumes "ready_reader ty r d w (wire (requestId r) recs @ record_bytes ty (requestId r) [] [] @ tail)"
    and "stream_records ty recs" "ty \<noteq> FCGI_BEGIN_REQUEST" "0 \<le> ty" "ty \<le> 255" "0 < requestId r" "requestId r \<le> 65535"
    and "length (wire (requestId r) recs @ record_bytes ty (requestId r) [] [] @ tail) < k"
    and "0 < bs" "bs \<le> length m" "int bs \<le> INT_MAX" "int (length (content_of ty recs)) \<le> INT_MAX"
  shows "\<exists>b1 b2. xsgetn (FillBuffProc k []) k (length (content_of ty recs)) (streambuf_init (Some (attach d r w)) m bs) =
      Inr (content_of ty recs, b1)
    \<and> sbumpc (FillBuffProc k []) k b1 = Inr (EOF, b2) \<and> gptr b2 = Suc (egptr b2)
    \<and> sungetc b2 = (if egptr b2 < length (sbuf b2) then Inr (uint (sbuf b2 ! egptr b2), b2\<lparr>gptr := egptr b2\<rparr>) else Inl OutOfBounds)"
proof -
  let ?xs = "content_of ty recs" and ?b = "streambuf_init (Some (attach d r w)) m bs"
  from new_gives [OF assms(1-8,10,11)] obtain e out where "str.gives k (mode_for ty r w) r e w out k ?b ?xs" by blast
  moreover have "bufsize ?b \<noteq> 0" using assms(9) by (simp add: streambuf_init_def setbuf_def reset_def)
  ultimately obtain b1 where b1: "xsgetn (FillBuffProc k []) k (length ?xs) ?b = Inr (?xs, b1)"
    "str.gives k (mode_for ty r w) r e w out k b1 []" "bufsize b1 \<noteq> 0"
    using str.base_xsgetn_gives [of k "mode_for ty r w" r e w out k ?b ?xs "length ?xs"] assms(12) by (auto simp: xsgetn_def)
  from str.sbumpc_end [OF b1(2,3)] obtain s where
    "sbumpc (FillBuffProc k []) k b1 = Inr (EOF, b1\<lparr>fcgx_s := Some s, gptr := Suc (gptr b1)\<rparr>)" "gptr b1 = egptr b1" by blast
  with b1(1) show ?thesis by (auto simp: sungetc_def)
qed

theorem streambuf_unget_after_end_witness:
  "\<exists>b1 b2. xsgetn (FillBuffProc 100 []) 100 (Suc (Suc 0)) (streambuf_init (Some (attach (fst demo_input) demo_input_data (snd demo_input))) [0, 0, 0] 3) =
      Inr (chars ''hi'', b1)
    \<and> sbumpc (FillBuffProc 100 []) 100 b1 = Inr (EOF, b2) \<and> gptr b2 = Suc (egptr b2)
    \<and> sungetc b2 = (if egptr b2 < length (sbuf b2) then Inr (uint (sbuf b2 ! egptr b2), b2\<lparr>gptr := egptr b2\<rparr>) else Inl OutOfBounds)"
  using streambuf_unget_after_end [OF demo_input(1,3) _ _ _ _ _ demo_input(2), of 3 "[0, 0, 0]"]
  by (simp add: demo_input(4) chars_def split del: if_split)

end
