(* ===== verification/Os_Async.thy ===== *)
theory Os_Async
  imports Os_Listen
begin

text \<open>
  Asynchronous I/O of \<open>libfcgi/os_unix.c\<close>: the table of pending operations and its growth, the
  operations that enqueue a read or a write, the dispatcher \<open>OS_DoIo\<close>, and the start of a child
  process.

  A completion procedure is a function of the application.  It is an argument of the dispatcher:
  \<open>call\<close> maps a procedure, its client data and the transferred length to a change of the
  application's own state \<open>'a\<close> and of the library's state.  The table index, the length and the
  offset of an operation are kept as the \<open>int\<close> they are; the descriptor sets have
  \<open>FD_SETSIZE\<close> (1024) members, and a larger descriptor is a write out of bounds.

  After the code: the table as a map from operations to entries, the invariant of asynchronous I/O
  and that the operations that enqueue keep it, a locale for what an application's completion
  procedure owes the dispatcher with two interpretations, and the effect of closing a descriptor.
\<close>

section \<open>Enqueueing operations\<close>

abbreviation (input) STDIN_FILENO :: int where "STDIN_FILENO \<equiv> 0"
abbreviation (input) STDOUT_FILENO :: int where "STDOUT_FILENO \<equiv> 1"
abbreviation (input) STDERR_FILENO :: int where "STDERR_FILENO \<equiv> 2"
abbreviation (input) FCGI_LISTENSOCK_FILENO :: int where "FCGI_LISTENSOCK_FILENO \<equiv> 0"

definition GrowAsyncTable :: "os_unix \<Rightarrow> os_unix res" where
  "GrowAsyncTable os =
     (let oldTableSize = asyncIoTableSize os;
          size = wrap32 (2 * int oldTableSize);
          os = os\<lparr>asyncIoTableSize := nat size\<rparr> in
      if heapLimit os < size_of_int (size * int AIO_SIZE) then Inl (Exit ENOMEM)
      else case asyncIoTable os of
          None \<Rightarrow> Inl NullDeref
        | Some t \<Rightarrow> Inr (os\<lparr>asyncIoTable := Some (t @ replicate oldTableSize aio_zero)\<rparr>))"

text \<open>The \<open>while\<close> loop around it; 32 rounds reach every \<open>int\<close> index, since each round doubles the size.\<close>

fun grow_to :: "nat \<Rightarrow> int \<Rightarrow> os_unix \<Rightarrow> os_unix res" where
  "grow_to 0 index os = (if index \<ge> int (asyncIoTableSize os) then Inl OutOfFuel else Inr os)"
| "grow_to (Suc k) index os =
     (if index \<ge> int (asyncIoTableSize os) then bindR (GrowAsyncTable os) (grow_to k index) else Inr os)"

definition aio_post :: "int \<Rightarrow> AioInfo \<Rightarrow> os_unix \<Rightarrow> os_unix res" where
  "aio_post index info os =
     (case asyncIoTable os of
        None \<Rightarrow> Inl NullDeref
      | Some t \<Rightarrow>
          if index < 0 \<or> int (length t) \<le> index then Inl OutOfBounds
          else bindR (ASSERT (\<not> inUse (t ! nat index))) (\<lambda>_.
            Inr (os\<lparr>asyncIoTable := Some (t[nat index := info])\<rparr>)))"

definition OS_AsyncReadStdin :: "nat \<Rightarrow> int \<Rightarrow> nat option \<Rightarrow> int \<Rightarrow> os_unix \<Rightarrow> (int \<times> os_unix) res" where
  "OS_AsyncReadStdin buf len proc cd os =
     bindR (aio_post (AIO_RD_IX STDIN_FILENO)
         \<lparr>procPtr = proc, clientData = cd, aioFd = STDIN_FILENO, aioLen = len, aioOffset = 0, aioBuf = buf, inUse = True\<rparr>
         (os\<lparr>asyncIoInUse := True\<rparr>)) (\<lambda>os.
       let os = os\<lparr>readFdSet := insert STDIN_FILENO (readFdSet os)\<rparr> in
       Inr (0, if STDIN_FILENO > maxFd os then os\<lparr>maxFd := STDIN_FILENO\<rparr> else os))"

definition OS_AsyncRead ::
  "int \<Rightarrow> int \<Rightarrow> nat \<Rightarrow> int \<Rightarrow> nat option \<Rightarrow> int \<Rightarrow> os_unix \<Rightarrow> (int \<times> os_unix) res" where
  "OS_AsyncRead fd offset buf len proc cd os =
     bindR (ASSERT (asyncIoTable os \<noteq> None)) (\<lambda>_.
     let os = os\<lparr>asyncIoInUse := True\<rparr>;
         os = (if fd > maxFd os then os\<lparr>maxFd := fd\<rparr> else os) in
     bindR (grow_to 32 (AIO_RD_IX fd) os) (\<lambda>os.
     bindR (aio_post (AIO_RD_IX fd)
         \<lparr>procPtr = proc, clientData = cd, aioFd = fd, aioLen = len, aioOffset = offset, aioBuf = buf, inUse = True\<rparr> os) (\<lambda>os.
     bindR (fd_guard fd) (\<lambda>_.
     Inr (0, os\<lparr>readFdSet := insert fd (readFdSet os)\<rparr>)))))"

definition OS_AsyncWrite ::
  "int \<Rightarrow> int \<Rightarrow> nat \<Rightarrow> int \<Rightarrow> nat option \<Rightarrow> int \<Rightarrow> os_unix \<Rightarrow> (int \<times> os_unix) res" where
  "OS_AsyncWrite fd offset buf len proc cd os =
     (let os = os\<lparr>asyncIoInUse := True\<rparr>;
          os = (if fd > maxFd os then os\<lparr>maxFd := fd\<rparr> else os) in
     bindR (grow_to 32 (AIO_WR_IX fd) os) (\<lambda>os.
     bindR (aio_post (AIO_WR_IX fd)
         \<lparr>procPtr = proc, clientData = cd, aioFd = fd, aioLen = len, aioOffset = offset, aioBuf = buf, inUse = True\<rparr> os) (\<lambda>os.
     bindR (fd_guard fd) (\<lambda>_.
     Inr (0, os\<lparr>writeFdSet := insert fd (writeFdSet os)\<rparr>)))))"

section \<open>Dispatching completions\<close>

text \<open>
  \<open>select\<close> answers with an error or with the descriptors, of those it was asked for, that are
  ready; after the script nothing is ready, and it waits for ever if there is no timeout.
\<close>

definition sys_select ::
  "bool \<Rightarrow> int set \<Rightarrow> int set \<Rightarrow> os_unix \<Rightarrow> ((int + int set \<times> int set) \<times> os_unix) res" where
  "sys_select timeout rs ws os =
     (case selects os of
        [] \<Rightarrow> if timeout then Inr (Inr ({}, {}), os) else Inl Blocked
      | Inl e # es \<Rightarrow> Inr (Inl e, os\<lparr>errno := e, selects := es\<rparr>)
      | Inr (r, w) # es \<Rightarrow> Inr (Inr (rs \<inter> r, ws \<inter> w), os\<lparr>selects := es\<rparr>))"

text \<open>\<open>read\<close> into memory at \<open>buf\<close>, \<open>write\<close> from memory.\<close>

definition mem_read :: "nat \<Rightarrow> nat \<Rightarrow> os_unix \<Rightarrow> bytes" where
  "mem_read a n os = map (\<lambda>i. mem os (a + i)) [0..<n]"

definition mem_write :: "nat \<Rightarrow> bytes \<Rightarrow> os_unix \<Rightarrow> os_unix" where
  "mem_write a bs os = os\<lparr>mem := (\<lambda>p. if a \<le> p \<and> p < a + length bs then bs ! (p - a) else mem os p)\<rparr>"

definition aio_read :: "AioInfo \<Rightarrow> os_unix \<Rightarrow> int \<times> os_unix" where
  "aio_read io os =
     (case sys_read (aioFd io) (size_of_int (aioLen io)) os of ((n, bs), os) \<Rightarrow> (n, mem_write (aioBuf io) bs os))"

definition aio_write :: "AioInfo \<Rightarrow> os_unix \<Rightarrow> int \<times> os_unix" where
  "aio_write io os = sys_write (aioFd io) (mem_read (aioBuf io) (size_of_int (aioLen io)) os) os"

text \<open>The copies of the descriptor sets handed to \<open>select\<close>.\<close>

definition fds_upto :: "int \<Rightarrow> int set \<Rightarrow> int set" where
  "fds_upto n S = fold (\<lambda>fd C. if fd \<in> S then insert fd C else C) [0..n] {}"

text \<open>One round of the loop that lists the completed events.\<close>

definition post_fd :: "int set \<Rightarrow> int set \<Rightarrow> int \<Rightarrow> os_unix \<Rightarrow> os_unix" where
  "post_fd rs ws fd os =
     (let os = (if fd \<in> rs then os\<lparr>numRdPosted := numRdPosted os + 1,
                  readFdSetPost := insert fd (readFdSetPost os), readFdSet := readFdSet os - {fd}\<rparr> else os) in
      if fd \<in> ws then os\<lparr>numWrPosted := numWrPosted os + 1,
        writeFdSetPost := insert fd (writeFdSetPost os), writeFdSet := writeFdSet os - {fd}\<rparr> else os)"

type_synonym 'a async_proc = "nat \<Rightarrow> int \<Rightarrow> int \<Rightarrow> 'a \<times> os_unix \<Rightarrow> ('a \<times> os_unix) res"

text \<open>
  One completed operation: its entry is released before the procedure is called, so that the
  procedure may enqueue the next operation on the same descriptor.
\<close>

definition complete ::
  "'a async_proc \<Rightarrow> int \<Rightarrow> (AioInfo \<Rightarrow> os_unix \<Rightarrow> int \<times> os_unix) \<Rightarrow> 'a \<times> os_unix \<Rightarrow> ('a \<times> os_unix) res" where
  "complete call ix io st =
     (case asyncIoTable (snd st) of
        None \<Rightarrow> Inl NullDeref
      | Some t \<Rightarrow>
          if ix < 0 \<or> int (length t) \<le> ix then Inl OutOfBounds
          else case io (t ! nat ix) (snd st) of (n, os) \<Rightarrow>
            case procPtr (t ! nat ix) of
              None \<Rightarrow> Inl NullDeref
            | Some p \<Rightarrow> call p (clientData (t ! nat ix)) n (fst st,
                os\<lparr>asyncIoTable := Some (t[nat ix := (t ! nat ix)\<lparr>procPtr := None, inUse := False\<rparr>])\<rparr>))"

definition aio_busy :: "int \<Rightarrow> os_unix \<Rightarrow> bool res" where
  "aio_busy ix os =
     (case asyncIoTable os of
        None \<Rightarrow> Inl NullDeref
      | Some t \<Rightarrow> if ix < 0 \<or> int (length t) \<le> ix then Inl OutOfBounds else Inr (inUse (t ! nat ix)))"

definition dispatch_read :: "'a async_proc \<Rightarrow> int \<Rightarrow> 'a \<times> os_unix \<Rightarrow> ('a \<times> os_unix) res" where
  "dispatch_read call fd st =
     (if fd \<in> readFdSetPost (snd st)
      then bindR (aio_busy (AIO_RD_IX fd) (snd st)) (\<lambda>busy.
        if busy
        then complete call (AIO_RD_IX fd) aio_read (fst st, (snd st)
          \<lparr>numRdPosted := numRdPosted (snd st) - 1, readFdSetPost := readFdSetPost (snd st) - {fd}\<rparr>)
        else Inr st)
      else Inr st)"

definition dispatch_write :: "'a async_proc \<Rightarrow> int \<Rightarrow> 'a \<times> os_unix \<Rightarrow> ('a \<times> os_unix) res" where
  "dispatch_write call fd st =
     (if fd \<in> writeFdSetPost (snd st)
      then bindR (aio_busy (AIO_WR_IX fd) (snd st)) (\<lambda>busy.
        if busy
        then complete call (AIO_WR_IX fd) aio_write (fst st, (snd st)
          \<lparr>numWrPosted := numWrPosted (snd st) - 1, writeFdSetPost := writeFdSetPost (snd st) - {fd}\<rparr>)
        else Inr st)
      else Inr st)"

function dispatch_loop :: "'a async_proc \<Rightarrow> int \<Rightarrow> 'a \<times> os_unix \<Rightarrow> ('a \<times> os_unix) res" where
  "dispatch_loop call fd st =
     (if maxFd (snd st) < fd then Inr st
      else if FD_SETSIZE \<le> fd then Inl OutOfBounds
      else bindR (dispatch_read call fd st) (\<lambda>st.
           bindR (dispatch_write call fd st) (dispatch_loop call (fd + 1))))"
  by pat_completeness auto
termination
  by (relation "measure (\<lambda>(call, fd, st). nat (FD_SETSIZE - fd))") auto

declare dispatch_loop.simps [simp del]

definition collect_posted :: "bool \<Rightarrow> os_unix \<Rightarrow> os_unix res" where
  "collect_posted timeout os =
     (if numRdPosted os = 0 \<and> numWrPosted os = 0
      then bindR (sys_select timeout (fds_upto (maxFd os) (readFdSet os)) (fds_upto (maxFd os) (writeFdSet os)) os)
        (\<lambda>(ans, os). case ans of
            Inl e \<Rightarrow> Inl (Exit (errno os))
          | Inr (rs, ws) \<Rightarrow> Inr (fold (post_fd rs ws) [0..maxFd os] os))
      else Inr os)"

definition OS_DoIo :: "'a async_proc \<Rightarrow> bool \<Rightarrow> 'a \<times> os_unix \<Rightarrow> (int \<times> 'a \<times> os_unix) res" where
  "OS_DoIo call timeout st =
     (let os = (snd st)\<lparr>asyncIoInUse := True\<rparr> in
      if FD_SETSIZE \<le> maxFd os then Inl OutOfBounds
      else bindR (collect_posted timeout os) (\<lambda>os.
        if numRdPosted os = 0 \<and> numWrPosted os = 0 then Inr (0, fst st, os)
        else bindR (dispatch_loop call 0 (fst st, os)) (\<lambda>st. Inr (0, st))))"

section \<open>Starting a child process\<close>

text \<open>
  \<open>fork\<close> and \<open>execl\<close> are the kernel's: \<open>forked\<close> is the error or the result of \<open>fork\<close>, and
  \<open>execErr\<close> the \<open>errno\<close> of \<open>execl\<close>, 0 when the process becomes the application.
\<close>

datatype spawned = Returned int os_unix | Running bytes os_unix

definition sys_dup2 :: "int \<Rightarrow> int \<Rightarrow> os_unix \<Rightarrow> os_unix" where
  "sys_dup2 old new os =
     (if opened (conns os old)
      then os\<lparr>conns := (conns os)(new := conns os old), listening := (listening os)(new := listening os old),
              bound := (bound os)(new := bound os old)\<rparr>
      else os\<lparr>errno := EBADF\<rparr>)"

definition OS_SpawnChild :: "bytes \<Rightarrow> int \<Rightarrow> int + int \<Rightarrow> int \<Rightarrow> os_unix \<Rightarrow> spawned res" where
  "OS_SpawnChild appPath listenFd forked execErr os =
     (case forked of
        Inl e \<Rightarrow> Inl (Exit e)
      | Inr pid \<Rightarrow>
          if pid \<noteq> 0 then Inr (Returned 0 os)
          else
            let os = snd (sys_close STDIN_FILENO os);
                os = (if listenFd \<noteq> FCGI_LISTENSOCK_FILENO
                      then snd (sys_close listenFd (sys_dup2 listenFd FCGI_LISTENSOCK_FILENO os)) else os);
                os = snd (sys_close STDERR_FILENO (snd (sys_close STDOUT_FILENO os))) in
            if execErr = 0 then Inr (Running appPath os) else Inl (Exit execErr))"

section \<open>The table as a map\<close>

text \<open>
  An operation is named by its direction (true for a write) and its descriptor; \<open>aio_at\<close> is the
  abstract table.  Slots of different operations are different.
\<close>

definition aio_ix :: "bool \<times> int \<Rightarrow> int" where
  "aio_ix k = (if fst k then AIO_WR_IX (snd k) else AIO_RD_IX (snd k))"

definition aio_at :: "os_unix \<Rightarrow> bool \<times> int \<Rightarrow> AioInfo option" where
  "aio_at os k =
     (case asyncIoTable os of
        None \<Rightarrow> None
      | Some t \<Rightarrow>
          if 0 \<le> snd k \<and> aio_ix k < int (length t) \<and> inUse (t ! nat (aio_ix k)) then Some (t ! nat (aio_ix k)) else None)"

definition pend :: "os_unix \<Rightarrow> bool \<Rightarrow> int set" where
  "pend os wr = (if wr then writeFdSet os else readFdSet os)"

definition posted :: "os_unix \<Rightarrow> bool \<Rightarrow> int set" where
  "posted os wr = (if wr then writeFdSetPost os else readFdSetPost os)"

definition num_posted :: "os_unix \<Rightarrow> bool \<Rightarrow> int" where
  "num_posted os wr = (if wr then numWrPosted os else numRdPosted os)"

text \<open>
  The table starts with 16 entries and doubles; \<open>AIO_MAX\<close> entries are enough for two operations of
  every descriptor below \<open>FD_SETSIZE\<close>.
\<close>

abbreviation (input) AIO_MAX :: nat where "AIO_MAX \<equiv> 2048"

definition table_ok :: "os_unix \<Rightarrow> bool" where
  "table_ok os \<longleftrightarrow> (\<exists>t. asyncIoTable os = Some t \<and> length t = asyncIoTableSize os) \<and> even (asyncIoTableSize os)
     \<and> 0 < asyncIoTableSize os \<and> asyncIoTableSize os dvd AIO_MAX \<and> AIO_MAX * AIO_SIZE \<le> heapLimit os"

text \<open>
  The invariant of asynchronous I/O: an entry is in use exactly while its descriptor is waited for
  or posted, never both; it names its own descriptor and a procedure; and the counters count the
  posted descriptors.
\<close>

definition ops_ok :: "os_unix \<Rightarrow> bool" where
  "ops_ok os \<longleftrightarrow> maxFd os < FD_SETSIZE
     \<and> (\<forall>wr fd. aio_at os (wr, fd) \<noteq> None \<longleftrightarrow> fd \<in> pend os wr \<union> posted os wr)
     \<and> (\<forall>wr. pend os wr \<inter> posted os wr = {})
     \<and> (\<forall>wr fd io. aio_at os (wr, fd) = Some io \<longrightarrow> procPtr io \<noteq> None \<and> aioFd io = fd \<and> fd \<le> maxFd os)"

definition aio_inv :: "os_unix \<Rightarrow> bool" where
  "aio_inv os \<longleftrightarrow> table_ok os \<and> ops_ok os \<and> (\<forall>wr. num_posted os wr = int (card (posted os wr)))"

lemma aio_ix_eq: "aio_ix k = aio_ix k' \<longleftrightarrow> k = k'"
  by (cases k; cases k') (auto simp: aio_ix_def AIO_RD_IX_def AIO_WR_IX_def; presburger)

lemma aio_ix_nonneg: "0 \<le> snd k \<Longrightarrow> 0 \<le> aio_ix k"
  by (simp add: aio_ix_def AIO_RD_IX_def AIO_WR_IX_def)

lemma aio_at_cong: "asyncIoTable os' = asyncIoTable os \<Longrightarrow> aio_at os' = aio_at os"
  by (simp add: aio_at_def fun_eq_iff)

lemma aio_at_fd: "aio_at os (wr, fd) = Some io \<Longrightarrow> 0 \<le> fd"
  by (auto simp: aio_at_def split: option.splits if_splits)

lemma aio_at_some:
  assumes "aio_at os k = Some io"
  obtains t where "asyncIoTable os = Some t" "0 \<le> aio_ix k" "aio_ix k < int (length t)" "t ! nat (aio_ix k) = io" "inUse io"
proof -
  have "\<exists>t. asyncIoTable os = Some t" "0 \<le> snd k" using assms by (auto simp: aio_at_def split: option.splits if_splits)
  then show thesis using that assms aio_ix_nonneg [of k] by (auto simp: aio_at_def split: if_splits)
qed

lemma aio_at_size:
  assumes "table_ok os" "aio_at os (wr, fd) = Some io"
  shows "0 \<le> fd" "2 * fd < int (asyncIoTableSize os)"
proof -
  show "0 \<le> fd" by (rule aio_at_fd [OF assms(2)])
  from assms(2) obtain t where "asyncIoTable os = Some t" "aio_ix (wr, fd) < int (length t)" by (rule aio_at_some)
  then show "2 * fd < int (asyncIoTableSize os)"
    using assms(1) by (auto simp: table_ok_def aio_ix_def AIO_RD_IX_def AIO_WR_IX_def split: if_splits)
qed

lemma aio_at_update:
  assumes "asyncIoTable os = Some t" "0 \<le> snd k" "aio_ix k < int (length t)"
    "asyncIoTable os' = Some (t[nat (aio_ix k) := io])"
  shows "aio_at os' = (aio_at os)(k := if inUse io then Some io else None)"
proof
  fix k'
  have "nat (aio_ix k') \<noteq> nat (aio_ix k)" if "k' \<noteq> k" "0 \<le> snd k'"
    using that assms(2) aio_ix_nonneg [of k] aio_ix_nonneg [of k'] aio_ix_eq [of k' k] by (simp add: nat_eq_iff)
  then show "aio_at os' k' = ((aio_at os)(k := if inUse io then Some io else None)) k'"
    using assms aio_ix_nonneg [of k] by (cases "k' = k"; cases "0 \<le> snd k'") (simp_all add: aio_at_def)
qed

section \<open>Growth\<close>

lemma table_size: "table_ok os \<Longrightarrow> asyncIoTableSize os \<le> AIO_MAX"
  by (simp add: table_ok_def dvd_imp_le)

lemma double_dvd: "n dvd AIO_MAX \<Longrightarrow> n < AIO_MAX \<Longrightarrow> 2 * n dvd AIO_MAX"
proof -
  assume n: "n dvd AIO_MAX" "n < AIO_MAX"
  from n(1) obtain m where m: "2048 = n * m" by (elim dvdE)
  have "even m"
  proof (rule ccontr)
    assume "odd m"
    then have "coprime m (2 ^ 11)" by (simp only: coprime_power_right_iff coprime_right_2_iff_odd simp_thms)
    moreover have "m dvd 2 ^ 11" using m by (intro dvdI [of _ _ n]) (simp add: mult.commute)
    ultimately have "is_unit m" by (meson coprime_common_divisor dvd_refl)
    then have "m = 1" by simp
    with m n(2) show False by simp
  qed
  then obtain l where "m = 2 * l" by (elim evenE)
  with m have "2048 = 2 * n * l" by simp
  then show ?thesis by (intro dvdI)
qed

lemma GrowAsyncTable_ok:
  assumes "table_ok os" "asyncIoTableSize os < 2048"
  shows "\<exists>t. GrowAsyncTable os = Inr (os\<lparr>asyncIoTableSize := 2 * asyncIoTableSize os, asyncIoTable := Some t\<rparr>)
    \<and> length t = 2 * asyncIoTableSize os
    \<and> aio_at (os\<lparr>asyncIoTableSize := 2 * asyncIoTableSize os, asyncIoTable := Some t\<rparr>) = aio_at os"
proof -
  obtain t where t: "asyncIoTable os = Some t" "length t = asyncIoTableSize os" using assms(1) by (auto simp: table_ok_def)
  let ?t = "t @ replicate (asyncIoTableSize os) aio_zero"
  have w: "wrap32 (2 * int (asyncIoTableSize os)) = int (2 * asyncIoTableSize os)" using assms(2) by simp
  have "size_of_int (int (2 * asyncIoTableSize os) * int 48) = 2 * asyncIoTableSize os * 48"
    using assms(2) by (simp add: size_of_int_def)
  moreover have "2 * asyncIoTableSize os \<le> 2048" using double_dvd [of "asyncIoTableSize os"] assms by (simp add: table_ok_def dvd_imp_le)
  then have "2 * asyncIoTableSize os * 48 \<le> heapLimit os" using assms(1) by (simp add: table_ok_def)
  ultimately have "GrowAsyncTable os = Inr (os\<lparr>asyncIoTableSize := 2 * asyncIoTableSize os, asyncIoTable := Some ?t\<rparr>)"
    using t unfolding GrowAsyncTable_def Let_def w by simp
  moreover have "aio_at (os\<lparr>asyncIoTableSize := 2 * asyncIoTableSize os, asyncIoTable := Some ?t\<rparr>) k = aio_at os k" for k
  proof (cases "0 \<le> snd k")
    case True
    then have "nat (aio_ix k) < asyncIoTableSize os \<longleftrightarrow> aio_ix k < int (asyncIoTableSize os)"
      "nat (aio_ix k) - asyncIoTableSize os < asyncIoTableSize os" if "aio_ix k < 2 * int (asyncIoTableSize os)"
      using that aio_ix_nonneg [of k] by linarith+
    then show ?thesis using True t
      by (cases "aio_ix k < 2 * int (asyncIoTableSize os)") (simp_all add: aio_at_def nth_append aio_zero_def)
  qed (use t in \<open>simp add: aio_at_def\<close>)
  ultimately show ?thesis using t by (intro exI [of _ ?t]) (simp add: fun_eq_iff)
qed

lemma grow_to_ok:
  assumes "table_ok os" "index < 2048" "2048 \<le> 2 ^ k * asyncIoTableSize os"
  shows "\<exists>n t. grow_to k index os = Inr (os\<lparr>asyncIoTableSize := n, asyncIoTable := Some t\<rparr>)
    \<and> length t = n \<and> even n \<and> 0 < n \<and> n dvd AIO_MAX \<and> index < int n
    \<and> aio_at (os\<lparr>asyncIoTableSize := n, asyncIoTable := Some t\<rparr>) = aio_at os"
  using assms
proof (induction k arbitrary: os)
  case 0
  then obtain t where "asyncIoTable os = Some t" "length t = asyncIoTableSize os" by (auto simp: table_ok_def)
  then show ?case using 0 by (intro exI [of _ "asyncIoTableSize os"] exI [of _ t]) (simp add: table_ok_def aio_at_def fun_eq_iff)
next
  case (Suc k)
  obtain u where u: "asyncIoTable os = Some u" "length u = asyncIoTableSize os" using Suc.prems by (auto simp: table_ok_def)
  show ?case
  proof (cases "index < int (asyncIoTableSize os)")
    case True
    then show ?thesis using Suc.prems u
      by (intro exI [of _ "asyncIoTableSize os"] exI [of _ u]) (simp add: table_ok_def aio_at_def fun_eq_iff)
  next
    case False
    then have "asyncIoTableSize os < 2048" using Suc.prems(2) by linarith
    from GrowAsyncTable_ok [OF Suc.prems(1) this] obtain t where
      t: "GrowAsyncTable os = Inr (os\<lparr>asyncIoTableSize := 2 * asyncIoTableSize os, asyncIoTable := Some t\<rparr>)"
        "length t = 2 * asyncIoTableSize os"
        "aio_at (os\<lparr>asyncIoTableSize := 2 * asyncIoTableSize os, asyncIoTable := Some t\<rparr>) = aio_at os" by blast
    have "table_ok (os\<lparr>asyncIoTableSize := 2 * asyncIoTableSize os, asyncIoTable := Some t\<rparr>)"
      using Suc.prems(1) t(2) double_dvd \<open>asyncIoTableSize os < 2048\<close> by (simp add: table_ok_def)
    from Suc.IH [OF this Suc.prems(2)] Suc.prems(3) t False show ?thesis by auto
  qed
qed

section \<open>Enqueueing keeps the invariant\<close>

lemma aio_post_ok:
  assumes "asyncIoTable os = Some t" "0 \<le> fd" "aio_ix (wr, fd) < int (length t)" "aio_at os (wr, fd) = None" "inUse io"
  shows "\<exists>t'. aio_post (aio_ix (wr, fd)) io os = Inr (os\<lparr>asyncIoTable := Some t'\<rparr>) \<and> length t' = length t
    \<and> aio_at (os\<lparr>asyncIoTable := Some t'\<rparr>) = (aio_at os)((wr, fd) \<mapsto> io)"
proof -
  have "\<not> inUse (t ! nat (aio_ix (wr, fd)))" using assms by (simp add: aio_at_def split: if_splits)
  then show ?thesis using assms aio_ix_nonneg [of "(wr, fd)"] aio_at_update [of os t "(wr, fd)"]
    by (intro exI [of _ "t[nat (aio_ix (wr, fd)) := io]"]) (simp add: aio_post_def)
qed

lemma enqueue_inv:
  assumes "aio_inv os" "table_ok os'" "aio_at os (wr, fd) = None" "fd < FD_SETSIZE" "procPtr io \<noteq> None" "aioFd io = fd"
    "aio_at os' = (aio_at os)((wr, fd) \<mapsto> io)" "pend os' = (pend os)(wr := insert fd (pend os wr))"
    "posted os' = posted os" "num_posted os' = num_posted os" "maxFd os' = max (maxFd os) fd"
  shows "aio_inv os'"
proof -
  have o: "ops_ok os" using assms(1) by (simp add: aio_inv_def)
  then have new: "fd \<notin> posted os wr" using assms(3) unfolding ops_ok_def by blast
  have m: "maxFd os' < FD_SETSIZE" using o assms(4,11) by (simp add: ops_ok_def)
  have a: "aio_at os' (w, f) \<noteq> None \<longleftrightarrow> f \<in> pend os' w \<union> posted os' w" for w f
    using o assms(7-9) by (simp add: ops_ok_def)
  have d: "pend os' w \<inter> posted os' w = {}" for w using o new assms(8,9) by (simp add: ops_ok_def)
  have p: "procPtr i \<noteq> None \<and> aioFd i = f \<and> f \<le> maxFd os'" if "aio_at os' (w, f) = Some i" for w f i
    using that o assms(5-7,11) by (cases "(w, f) = (wr, fd)") (auto simp: ops_ok_def le_max_iff_disj)
  have "ops_ok os'" unfolding ops_ok_def using m a d p by blast
  with assms show ?thesis by (simp add: aio_inv_def)
qed

definition aio_of :: "nat \<Rightarrow> int \<Rightarrow> int \<Rightarrow> int \<Rightarrow> int \<Rightarrow> nat \<Rightarrow> AioInfo" where
  "aio_of p cd fd len offset buf =
     \<lparr>procPtr = Some p, clientData = cd, aioFd = fd, aioLen = len, aioOffset = offset, aioBuf = buf, inUse = True\<rparr>"

lemma aio_of_simps [simp]:
  "procPtr (aio_of p cd fd len off buf) = Some p" "clientData (aio_of p cd fd len off buf) = cd"
  "aioFd (aio_of p cd fd len off buf) = fd" "inUse (aio_of p cd fd len off buf)"
  by (simp_all add: aio_of_def)

lemma post_grown:
  assumes "aio_inv os" "0 \<le> fd" "fd < FD_SETSIZE" "aio_at os (wr, fd) = None"
    "asyncIoTableSize o1 = asyncIoTableSize os" "asyncIoTable o1 = asyncIoTable os" "heapLimit o1 = heapLimit os" "inUse io"
  shows "\<exists>n t. bindR (grow_to 32 (aio_ix (wr, fd)) o1) (aio_post (aio_ix (wr, fd)) io) =
      Inr (o1\<lparr>asyncIoTableSize := n, asyncIoTable := Some t\<rparr>)
    \<and> length t = n \<and> even n \<and> 0 < n \<and> n dvd AIO_MAX
    \<and> aio_at (o1\<lparr>asyncIoTableSize := n, asyncIoTable := Some t\<rparr>) = (aio_at os)((wr, fd) \<mapsto> io)"
proof -
  have t: "table_ok o1" using assms(1,5-7) by (simp add: aio_inv_def table_ok_def)
  have at: "aio_at o1 = aio_at os" using assms(6) by (rule aio_at_cong)
  have "aio_ix (wr, fd) < 2048" using assms(3) by (simp add: aio_ix_def AIO_RD_IX_def AIO_WR_IX_def)
  moreover have "2048 \<le> 2 ^ 32 * asyncIoTableSize o1" using t by (simp add: table_ok_def)
  ultimately obtain n t1 where g: "grow_to 32 (aio_ix (wr, fd)) o1 = Inr (o1\<lparr>asyncIoTableSize := n, asyncIoTable := Some t1\<rparr>)"
    "length t1 = n" "even n \<and> 0 < n" "n dvd AIO_MAX" "aio_ix (wr, fd) < int n"
    "aio_at (o1\<lparr>asyncIoTableSize := n, asyncIoTable := Some t1\<rparr>) = aio_at o1"
    using grow_to_ok [OF t, of "aio_ix (wr, fd)" 32] by blast
  from aio_post_ok [of "o1\<lparr>asyncIoTableSize := n, asyncIoTable := Some t1\<rparr>" t1 fd wr io] g assms(2,4,8) at
  obtain t2 where "aio_post (aio_ix (wr, fd)) io (o1\<lparr>asyncIoTableSize := n, asyncIoTable := Some t1\<rparr>) =
      Inr (o1\<lparr>asyncIoTableSize := n, asyncIoTable := Some t2\<rparr>)" "length t2 = n"
    "aio_at (o1\<lparr>asyncIoTableSize := n, asyncIoTable := Some t2\<rparr>) = (aio_at os)((wr, fd) \<mapsto> io)" by auto
  then show ?thesis using g(1,3,4) by (intro exI [of _ n] exI [of _ t2]) simp
qed

definition wait_for :: "bool \<Rightarrow> int \<Rightarrow> os_unix \<Rightarrow> os_unix" where
  "wait_for wr fd os =
     (if wr then os\<lparr>writeFdSet := insert fd (writeFdSet os)\<rparr> else os\<lparr>readFdSet := insert fd (readFdSet os)\<rparr>)"

lemma wait_for_simps [simp]:
  "pend (wait_for wr fd os) = (pend os)(wr := insert fd (pend os wr))" "posted (wait_for wr fd os) = posted os"
  "num_posted (wait_for wr fd os) = num_posted os" "maxFd (wait_for wr fd os) = maxFd os"
  "asyncIoTable (wait_for wr fd os) = asyncIoTable os" "asyncIoTableSize (wait_for wr fd os) = asyncIoTableSize os"
  "asyncIoInUse (wait_for wr fd os) = asyncIoInUse os" "heapLimit (wait_for wr fd os) = heapLimit os" "conns (wait_for wr fd os) = conns os"
  by (auto simp: wait_for_def pend_def posted_def num_posted_def fun_eq_iff)

lemma enqueue_ok:
  assumes "aio_inv os" "0 \<le> fd" "fd < FD_SETSIZE" "aio_at os (wr, fd) = None"
  shows "\<exists>o2. bindR (grow_to 32 (aio_ix (wr, fd)) (os\<lparr>asyncIoInUse := True, maxFd := max (maxFd os) fd\<rparr>))
      (aio_post (aio_ix (wr, fd)) (aio_of p cd fd len offset buf)) = Inr o2
    \<and> aio_inv (wait_for wr fd o2) \<and> conns o2 = conns os \<and> maxFd o2 = max (maxFd os) fd \<and> posted o2 = posted os \<and> asyncIoInUse o2
    \<and> pend o2 = pend os
    \<and> aio_at (wait_for wr fd o2) = (aio_at os)((wr, fd) \<mapsto> aio_of p cd fd len offset buf)"
proof -
  let ?io = "aio_of p cd fd len offset buf" and ?o1 = "os\<lparr>asyncIoInUse := True, maxFd := max (maxFd os) fd\<rparr>"
  obtain n t where g: "bindR (grow_to 32 (aio_ix (wr, fd)) ?o1) (aio_post (aio_ix (wr, fd)) ?io) =
      Inr (?o1\<lparr>asyncIoTableSize := n, asyncIoTable := Some t\<rparr>)" "length t = n" "even n \<and> 0 < n" "n dvd AIO_MAX"
      "aio_at (?o1\<lparr>asyncIoTableSize := n, asyncIoTable := Some t\<rparr>) = (aio_at os)((wr, fd) \<mapsto> ?io)"
    using post_grown [OF assms, of ?o1 ?io] by auto
  let ?o2 = "?o1\<lparr>asyncIoTableSize := n, asyncIoTable := Some t\<rparr>"
  have at: "aio_at (wait_for wr fd ?o2) = (aio_at os)((wr, fd) \<mapsto> ?io)" using g(5) by (subst aio_at_cong) simp_all
  have "table_ok os" using assms(1) by (simp add: aio_inv_def)
  then have "aio_inv (wait_for wr fd ?o2)"
    using g(2-4)
    by (intro enqueue_inv [OF assms(1) _ assms(4,3) _ _ at])
      (auto simp: table_ok_def pend_def posted_def num_posted_def fun_eq_iff)
  with g(1) at show ?thesis by (intro exI [of _ ?o2]) (simp add: posted_def pend_def fun_eq_iff)
qed

lemma raise_maxFd:
  "(if fd > maxFd os then os\<lparr>asyncIoInUse := True, maxFd := fd\<rparr> else os\<lparr>asyncIoInUse := True\<rparr>) =
    os\<lparr>asyncIoInUse := True, maxFd := max (maxFd os) fd\<rparr>"
  by (simp add: max_def)

lemma OS_AsyncRead_ok:
  assumes "aio_inv os" "0 \<le> fd" "fd < FD_SETSIZE" "aio_at os (False, fd) = None"
  shows "\<exists>os'. OS_AsyncRead fd offset buf len (Some p) cd os = Inr (0, os') \<and> aio_inv os'
    \<and> aio_at os' = (aio_at os)((False, fd) \<mapsto> aio_of p cd fd len offset buf) \<and> conns os' = conns os \<and> asyncIoInUse os'
    \<and> maxFd os' = max (maxFd os) fd \<and> posted os' = posted os \<and> pend os' = (pend os)(False := insert fd (pend os False))"
proof -
  have x: "aio_ix (False, fd) = AIO_RD_IX fd" by (simp add: aio_ix_def)
  obtain o2 where o2: "bindR (grow_to 32 (AIO_RD_IX fd) (os\<lparr>asyncIoInUse := True, maxFd := max (maxFd os) fd\<rparr>))
      (aio_post (AIO_RD_IX fd) (aio_of p cd fd len offset buf)) = Inr o2" "aio_inv (wait_for False fd o2)" "conns o2 = conns os"
    "maxFd o2 = max (maxFd os) fd" "posted o2 = posted os" "asyncIoInUse o2" "pend o2 = pend os"
    "aio_at (wait_for False fd o2) = (aio_at os)((False, fd) \<mapsto> aio_of p cd fd len offset buf)"
    using enqueue_ok [OF assms, of p cd len offset buf] unfolding x by blast
  have "asyncIoTable os \<noteq> None" using assms(1) by (auto simp: aio_inv_def table_ok_def)
  then have "OS_AsyncRead fd offset buf len (Some p) cd os = Inr (0, wait_for False fd o2)"
    using o2(1) assms(2,3)
    by (simp add: OS_AsyncRead_def fd_guard_def raise_maxFd bindR_assoc [symmetric] Let_def wait_for_def flip: aio_of_def)
  with o2 show ?thesis by (intro exI [of _ "wait_for False fd o2"]) simp
qed

lemma OS_AsyncWrite_ok:
  assumes "aio_inv os" "0 \<le> fd" "fd < FD_SETSIZE" "aio_at os (True, fd) = None"
  shows "\<exists>os'. OS_AsyncWrite fd offset buf len (Some p) cd os = Inr (0, os') \<and> aio_inv os'
    \<and> aio_at os' = (aio_at os)((True, fd) \<mapsto> aio_of p cd fd len offset buf) \<and> conns os' = conns os \<and> asyncIoInUse os'
    \<and> maxFd os' = max (maxFd os) fd \<and> posted os' = posted os \<and> pend os' = (pend os)(True := insert fd (pend os True))"
proof -
  have x: "aio_ix (True, fd) = AIO_WR_IX fd" by (simp add: aio_ix_def)
  obtain o2 where o2: "bindR (grow_to 32 (AIO_WR_IX fd) (os\<lparr>asyncIoInUse := True, maxFd := max (maxFd os) fd\<rparr>))
      (aio_post (AIO_WR_IX fd) (aio_of p cd fd len offset buf)) = Inr o2" "aio_inv (wait_for True fd o2)" "conns o2 = conns os"
    "maxFd o2 = max (maxFd os) fd" "posted o2 = posted os" "asyncIoInUse o2" "pend o2 = pend os"
    "aio_at (wait_for True fd o2) = (aio_at os)((True, fd) \<mapsto> aio_of p cd fd len offset buf)"
    using enqueue_ok [OF assms, of p cd len offset buf] unfolding x by blast
  have "OS_AsyncWrite fd offset buf len (Some p) cd os = Inr (0, wait_for True fd o2)"
    using o2(1) assms(2,3)
    by (simp add: OS_AsyncWrite_def fd_guard_def raise_maxFd bindR_assoc [symmetric] Let_def wait_for_def flip: aio_of_def)
  with o2 show ?thesis by (intro exI [of _ "wait_for True fd o2"]) simp
qed

text \<open>Standard input is descriptor 0, whose slot is there from the start: the table need not grow.\<close>

lemma OS_AsyncReadStdin_eq:
  assumes "table_ok os"
  shows "OS_AsyncReadStdin buf len proc cd os = OS_AsyncRead STDIN_FILENO 0 buf len proc cd os"
proof -
  have "0 < asyncIoTableSize os" using assms by (simp add: table_ok_def)
  then have g: "grow_to 32 0 o1 = Inr o1" if "asyncIoTableSize o1 = asyncIoTableSize os" for o1
    using that by (simp add: eval_nat_numeral)
  show ?thesis using assms
    by (auto simp: OS_AsyncReadStdin_def OS_AsyncRead_def AIO_RD_IX_def g aio_post_def fd_guard_def table_ok_def Let_def
        ASSERT_def)
qed

section \<open>Collecting completed events\<close>

lemma fds_upto_eq: "fds_upto n S = {fd \<in> S. 0 \<le> fd \<and> fd \<le> n}"
proof -
  have "fold (\<lambda>fd C. if fd \<in> S then insert fd C else C) xs A = A \<union> (S \<inter> set xs)" for xs :: "int list" and A
    by (induction xs arbitrary: A) auto
  then show ?thesis by (auto simp: fds_upto_def)
qed

lemma fold_post_fd:
  assumes "distinct xs"
  shows "fold (post_fd rs ws) xs os = os\<lparr>
    numRdPosted := numRdPosted os + int (card (rs \<inter> set xs)), readFdSetPost := readFdSetPost os \<union> (rs \<inter> set xs),
    readFdSet := readFdSet os - (rs \<inter> set xs),
    numWrPosted := numWrPosted os + int (card (ws \<inter> set xs)), writeFdSetPost := writeFdSetPost os \<union> (ws \<inter> set xs),
    writeFdSet := writeFdSet os - (ws \<inter> set xs)\<rparr>"
  using assms
proof (induction xs arbitrary: os)
  case (Cons fd xs)
  have c: "int (card (A \<inter> insert fd (set xs))) = int (card (A \<inter> set xs)) + (if fd \<in> A then 1 else 0)" for A :: "int set"
    using Cons.prems by simp
  have u: "S \<union> A \<inter> insert fd (set xs) = (if fd \<in> A then insert fd S else S) \<union> A \<inter> set xs"
    "S - A \<inter> insert fd (set xs) = (if fd \<in> A then S - {fd} else S) - A \<inter> set xs" for A S :: "int set" by auto
  from Cons show ?case by (simp only: fold_simps list.set distinct.simps c u)
    (simp add: post_fd_def Let_def)
qed simp

lemma posted_finite: "ops_ok os \<Longrightarrow> finite (posted os wr)"
proof (rule finite_subset)
  assume o: "ops_ok os"
  show "posted os wr \<subseteq> {0..maxFd os}"
  proof
    fix fd assume "fd \<in> posted os wr"
    then obtain io where "aio_at os (wr, fd) = Some io" using o unfolding ops_ok_def by blast
    then show "fd \<in> {0..maxFd os}" using o aio_at_fd unfolding ops_ok_def by (metis atLeastAtMost_iff)
  qed
qed simp

lemma pend_range: "ops_ok os \<Longrightarrow> fd \<in> pend os wr \<Longrightarrow> 0 \<le> fd \<and> fd \<le> maxFd os"
  using aio_at_fd unfolding ops_ok_def by (metis UnI1 not_None_eq)

lemma collect_posted_ok:
  assumes "aio_inv os" "selects os = Inr (r, w) # es" "\<forall>wr. num_posted os wr = 0"
  shows "\<exists>os'. collect_posted tmo os = Inr os' \<and> aio_inv os' \<and> aio_at os' = aio_at os \<and> maxFd os' = maxFd os
    \<and> asyncIoInUse os' = asyncIoInUse os
    \<and> (\<forall>wr. posted os' wr = pend os wr \<inter> (if wr then w else r)) \<and> (\<forall>wr. pend os' wr = pend os wr - (if wr then w else r))"
proof -
  have o: "ops_ok os" and t: "table_ok os" using assms(1) by (simp_all add: aio_inv_def)
  have n: "numRdPosted os = 0" "numWrPosted os = 0" using assms(3)[rule_format, of False] assms(3)[rule_format, of True]
    by (simp_all add: num_posted_def)
  have e: "posted os wr = {}" for wr
    using assms(1,3) posted_finite [OF o, of wr] by (metis aio_inv_def card_0_eq of_nat_eq_0_iff)
  let ?R = "\<lambda>wr. pend os wr \<inter> (if wr then w else r)"
  have f: "{fd \<in> readFdSet os. 0 \<le> fd \<and> fd \<le> maxFd os} = readFdSet os"
    "{fd \<in> writeFdSet os. 0 \<le> fd \<and> fd \<le> maxFd os} = writeFdSet os"
    using pend_range [OF o, of _ False] pend_range [OF o, of _ True] by (auto simp: pend_def)
  have g: "readFdSet os \<inter> r \<inter> {0..maxFd os} = ?R False" "writeFdSet os \<inter> w \<inter> {0..maxFd os} = ?R True"
    using f by (auto simp: pend_def)
  let ?os = "os\<lparr>selects := es, numRdPosted := int (card (?R False)), readFdSetPost := ?R False, readFdSet := readFdSet os - ?R False,
     numWrPosted := int (card (?R True)), writeFdSetPost := ?R True, writeFdSet := writeFdSet os - ?R True\<rparr>"
  have c: "collect_posted tmo os = Inr ?os"
    using n e [of False] e [of True] assms(2)
    by (simp add: collect_posted_def sys_select_def fds_upto_eq f fold_post_fd g posted_def)
  have at: "aio_at ?os = aio_at os" by (rule aio_at_cong) simp
  have p: "posted ?os wr = ?R wr" "pend ?os wr = pend os wr - (if wr then w else r)" "num_posted ?os wr = int (card (?R wr))" for wr
    by (auto simp: posted_def pend_def num_posted_def)
  have "ops_ok ?os" using o e unfolding ops_ok_def at p by (auto simp: fun_eq_iff)
  moreover have "table_ok ?os" using t by (simp add: table_ok_def)
  ultimately have "aio_inv ?os" unfolding aio_inv_def p by simp
  with c at p show ?thesis by (intro exI [of _ ?os]) simp
qed

section \<open>One completion\<close>

definition dispatch :: "bool \<Rightarrow> 'a async_proc \<Rightarrow> int \<Rightarrow> 'a \<times> os_unix \<Rightarrow> ('a \<times> os_unix) res" where
  "dispatch wr call fd st = (if wr then dispatch_write call fd st else dispatch_read call fd st)"

definition aio_io :: "bool \<Rightarrow> AioInfo \<Rightarrow> os_unix \<Rightarrow> int \<times> os_unix" where
  "aio_io wr io os = (if wr then aio_write io os else aio_read io os)"

definition unpost :: "bool \<Rightarrow> int \<Rightarrow> os_unix \<Rightarrow> os_unix" where
  "unpost wr fd os =
     (if wr then os\<lparr>numWrPosted := numWrPosted os - 1, writeFdSetPost := writeFdSetPost os - {fd}\<rparr>
      else os\<lparr>numRdPosted := numRdPosted os - 1, readFdSetPost := readFdSetPost os - {fd}\<rparr>)"

lemma dispatch_eq:
  "dispatch wr call fd st =
     (if fd \<in> posted (snd st) wr
      then bindR (aio_busy (aio_ix (wr, fd)) (snd st)) (\<lambda>busy.
        if busy then complete call (aio_ix (wr, fd)) (aio_io wr) (fst st, unpost wr fd (snd st)) else Inr st)
      else Inr st)"
  by (cases wr) (simp_all add: dispatch_def dispatch_write_def dispatch_read_def posted_def aio_ix_def unpost_def aio_io_def [abs_def] cong: if_cong)

text \<open>The transfer touches the connection, the memory and \<open>errno\<close>, nothing of the table.\<close>

lemma aio_io_frame [simp]:
  "asyncIoTable (snd (aio_io wr io os)) = asyncIoTable os" "asyncIoTableSize (snd (aio_io wr io os)) = asyncIoTableSize os"
  "heapLimit (snd (aio_io wr io os)) = heapLimit os" "maxFd (snd (aio_io wr io os)) = maxFd os"
  "pend (snd (aio_io wr io os)) = pend os" "posted (snd (aio_io wr io os)) = posted os"
  "num_posted (snd (aio_io wr io os)) = num_posted os"
  by (auto simp: aio_io_def aio_read_def aio_write_def sys_read_def sys_write_def mem_write_def Let_def
      pend_def posted_def num_posted_def fun_eq_iff split: prod.splits sum.splits list.splits wr_event.splits)

lemma unpost_simps [simp]:
  "asyncIoTable (unpost wr fd os) = asyncIoTable os" "asyncIoTableSize (unpost wr fd os) = asyncIoTableSize os"
  "heapLimit (unpost wr fd os) = heapLimit os" "maxFd (unpost wr fd os) = maxFd os" "pend (unpost wr fd os) = pend os"
  "posted (unpost wr fd os) = (posted os)(wr := posted os wr - {fd})"
  "num_posted (unpost wr fd os) = (num_posted os)(wr := num_posted os wr - 1)"
  by (auto simp: unpost_def pend_def posted_def num_posted_def fun_eq_iff)

lemma pend_table [simp]: "pend (os\<lparr>asyncIoTable := t\<rparr>) = pend os" "posted (os\<lparr>asyncIoTable := t\<rparr>) = posted os"
  "num_posted (os\<lparr>asyncIoTable := t\<rparr>) = num_posted os"
  "pend (os\<lparr>asyncIoInUse := b\<rparr>) = pend os" "posted (os\<lparr>asyncIoInUse := b\<rparr>) = posted os"
  "num_posted (os\<lparr>asyncIoInUse := b\<rparr>) = num_posted os"
  by (auto simp: pend_def posted_def num_posted_def fun_eq_iff)

lemma complete_inv:
  assumes "aio_inv os" "table_ok os'" "fd \<in> posted os wr" "aio_at os' = (aio_at os)((wr, fd) := None)"
    "posted os' = (posted os)(wr := posted os wr - {fd})" "pend os' = pend os" "maxFd os' = maxFd os"
    "num_posted os' = (num_posted os)(wr := num_posted os wr - 1)"
  shows "aio_inv os'"
proof -
  have o: "ops_ok os" and c: "\<forall>w. num_posted os w = int (card (posted os w))" using assms(1) by (simp_all add: aio_inv_def)
  have d: "pend os w \<inter> posted os w = {}" for w using o by (simp add: ops_ok_def)
  have at: "aio_at os (w, f) \<noteq> None \<longleftrightarrow> f \<in> pend os w \<union> posted os w" for w f using o by (simp add: ops_ok_def)
  have "aio_at os' (w, f) \<noteq> None \<longleftrightarrow> f \<in> pend os' w \<union> posted os' w" for w f
    using at [of w f] d [of w] assms(3-6) by (cases "(w, f) = (wr, fd)") auto
  moreover have "pend os' w \<inter> posted os' w = {}" for w using d [of w] assms(5,6) by auto
  moreover have "procPtr i \<noteq> None \<and> aioFd i = f \<and> f \<le> maxFd os'" if "aio_at os' (w, f) = Some i" for w f i
    using that o assms(4,7) by (auto simp: ops_ok_def split: if_splits)
  moreover have "maxFd os' < FD_SETSIZE" using o assms(7) by (simp add: ops_ok_def)
  ultimately have "ops_ok os'" unfolding ops_ok_def by blast
  moreover have "0 < card (posted os wr)" using posted_finite [OF o] assms(3) by (metis card_gt_0_iff empty_iff)
  then have "num_posted os' w = int (card (posted os' w))" for w
    using c assms(3,5,8) posted_finite [OF o] by (cases "w = wr") (simp_all add: card_Diff_singleton)
  ultimately show ?thesis using assms(2) by (simp add: aio_inv_def)
qed

lemma dispatch_posted:
  assumes "aio_inv os" "fd \<in> posted os wr"
  obtains io p n o1 where "aio_at os (wr, fd) = Some io" "procPtr io = Some p"
    "\<And>a. dispatch wr call fd (a, os) = call p (clientData io) n (a, o1)" "aio_inv o1"
    "aio_at o1 = (aio_at os)((wr, fd) := None)" "posted o1 = (posted os)(wr := posted os wr - {fd})" "pend o1 = pend os"
    "maxFd o1 = maxFd os"
proof -
  have o: "ops_ok os" and t: "table_ok os" using assms(1) by (simp_all add: aio_inv_def)
  then obtain io where io: "aio_at os (wr, fd) = Some io" using assms(2) unfolding ops_ok_def by blast
  then obtain p where p: "procPtr io = Some p" using o unfolding ops_ok_def by blast
  from io obtain tb where tb: "asyncIoTable os = Some tb" "0 \<le> aio_ix (wr, fd)" "aio_ix (wr, fd) < int (length tb)"
    "tb ! nat (aio_ix (wr, fd)) = io" "inUse io" by (rule aio_at_some)
  obtain n o0 where n: "aio_io wr io (unpost wr fd os) = (n, o0)" by (cases "aio_io wr io (unpost wr fd os)")
  then have o0: "o0 = snd (aio_io wr io (unpost wr fd os))" by simp
  let ?io = "io\<lparr>procPtr := None, inUse := False\<rparr>"
  let ?o1 = "o0\<lparr>asyncIoTable := Some (tb[nat (aio_ix (wr, fd)) := ?io])\<rparr>"
  have at: "aio_at ?o1 = (aio_at os)((wr, fd) := None)"
    using aio_at_update [OF tb(1) _ tb(3), of ?o1 ?io] aio_at_fd [OF io] by simp
  have x: "posted ?o1 = (posted os)(wr := posted os wr - {fd})" "pend ?o1 = pend os" "maxFd ?o1 = maxFd os"
    by (simp_all add: o0)
  have "aio_inv ?o1"
    by (rule complete_inv [OF assms(1) _ assms(2) at x(1,2,3)]) (use t tb in \<open>simp_all add: o0 table_ok_def\<close>)
  moreover have "dispatch wr call fd (a, os) = call p (clientData io) n (a, ?o1)" for a
    using assms(2) tb p n by (simp add: dispatch_eq aio_busy_def complete_def)
  ultimately show thesis using that [OF io p _ _ at x] by blast
qed

section \<open>Applications\<close>

text \<open>
  What \<open>OS_DoIo\<close> relies on: an application enqueues only operations it considers valid, and its
  completion procedure, called for a valid operation whose entry has been released, returns and
  leaves the invariant and valid operations.
\<close>

locale async_client =
  fixes call :: "'a async_proc" and valid :: "bool \<times> int \<Rightarrow> AioInfo \<Rightarrow> bool"
  assumes call_ok: "aio_inv os \<Longrightarrow> \<forall>k io. aio_at os k = Some io \<longrightarrow> valid k io \<Longrightarrow> aio_at os (wr, fd) = None \<Longrightarrow> fd \<le> maxFd os
    \<Longrightarrow> 0 \<le> fd \<Longrightarrow> valid (wr, fd) io \<Longrightarrow> procPtr io = Some p
    \<Longrightarrow> \<exists>a' os'. call p (clientData io) n (a, os) = Inr (a', os') \<and> aio_inv os'
      \<and> (\<forall>k io. aio_at os' k = Some io \<longrightarrow> valid k io)"
begin

definition good :: "os_unix \<Rightarrow> bool" where
  "good os \<longleftrightarrow> aio_inv os \<and> (\<forall>k io. aio_at os k = Some io \<longrightarrow> valid k io)"

lemma dispatch_good:
  assumes "good os"
  shows "\<exists>a' os'. dispatch wr call fd (a, os) = Inr (a', os') \<and> good os'"
proof (cases "fd \<in> posted os wr")
  case True
  have inv: "aio_inv os" using assms by (simp add: good_def)
  from inv True obtain io p n o1 where io: "aio_at os (wr, fd) = Some io" "procPtr io = Some p"
    and d: "\<And>a. dispatch wr call fd (a, os) = call p (clientData io) n (a, o1)" and i1: "aio_inv o1"
    and at: "aio_at o1 = (aio_at os)((wr, fd) := None)" and "posted o1 = (posted os)(wr := posted os wr - {fd})" "pend o1 = pend os"
    and m: "maxFd o1 = maxFd os" using dispatch_posted [of os fd wr call] by blast
  have "\<forall>k i. aio_at o1 k = Some i \<longrightarrow> valid k i" using assms at by (auto simp: good_def)
  moreover have "valid (wr, fd) io" "0 \<le> fd" using assms io(1) aio_at_fd by (auto simp: good_def)
  moreover have "fd \<le> maxFd o1" using inv io(1) m unfolding aio_inv_def ops_ok_def by metis
  moreover have "aio_at o1 (wr, fd) = None" by (simp add: at)
  ultimately show ?thesis using call_ok [OF i1 _ _ _ _ _ io(2), of wr fd n a] unfolding d good_def by blast
qed (use assms in \<open>simp add: dispatch_eq\<close>)

lemma dispatch_loop_good:
  "good (snd st) \<Longrightarrow> \<exists>st'. dispatch_loop call fd st = Inr st' \<and> good (snd st')"
proof (induction "nat (FD_SETSIZE - fd)" arbitrary: fd st rule: less_induct)
  case less
  have m: "maxFd (snd st) < FD_SETSIZE" using less.prems by (simp add: good_def aio_inv_def ops_ok_def)
  show ?case
  proof (cases "maxFd (snd st) < fd")
    case False
    obtain st1 where s1: "dispatch_read call fd st = Inr st1" "good (snd st1)"
      using dispatch_good [OF less.prems, of False fd "fst st"] by (auto simp: dispatch_def)
    obtain st2 where s2: "dispatch_write call fd st1 = Inr st2" "good (snd st2)"
      using dispatch_good [OF s1(2), of True fd "fst st1"] by (auto simp: dispatch_def)
    have "nat (FD_SETSIZE - (fd + 1)) < nat (FD_SETSIZE - fd)" using m False by linarith
    from less.hyps [OF this s2(2)] show ?thesis
      using m False s1 s2 by (subst dispatch_loop.simps) simp
  qed (use less.prems in \<open>simp add: dispatch_loop.simps\<close>)
qed

text \<open>
  \<open>OS_DoIo\<close> returns 0 in a good state unless \<open>select\<close> fails, which ends the process, or waits
  for ever because no timeout was given.
\<close>

lemma collect_good:
  assumes "good os"
  shows "(\<exists>os'. collect_posted tmo os = Inr os' \<and> good os')
    \<or> (\<exists>e es. selects os = Inl e # es \<and> collect_posted tmo os = Inl (Exit e))
    \<or> selects os = [] \<and> \<not> tmo \<and> collect_posted tmo os = Inl Blocked"
proof (cases "\<forall>wr. num_posted os wr = 0")
  case True
  have inv: "aio_inv os" using assms by (simp add: good_def)
  have n: "numRdPosted os = 0" "numWrPosted os = 0"
    using True [rule_format, of False] True [rule_format, of True] by (simp_all add: num_posted_def)
  consider (quiet) "selects os = []" | (fails) e es where "selects os = Inl e # es"
    | (ready) r w es where "selects os = Inr (r, w) # es" by (metis list.exhaust sumE surj_pair)
  then show ?thesis
  proof cases
    case quiet
    have "fold (post_fd {} {}) xs o1 = o1" for xs o1 by (induction xs) (simp_all add: post_fd_def)
    then have "collect_posted tmo os = (if tmo then Inr os else Inl Blocked)"
      using n by (simp add: collect_posted_def sys_select_def quiet)
    then show ?thesis using quiet assms by simp
  next
    case fails
    then show ?thesis using n by (simp add: collect_posted_def sys_select_def)
  next
    case ready
    from collect_posted_ok [OF inv ready True, of tmo] obtain o1 where
      "collect_posted tmo os = Inr o1" "aio_inv o1" "aio_at o1 = aio_at os" by blast
    then show ?thesis using assms by (simp add: good_def)
  qed
next
  case False
  then show ?thesis using assms by (auto simp: collect_posted_def num_posted_def split: if_splits)
qed

lemma DoIo_good:
  assumes "good os"
  shows "(\<exists>a' os'. OS_DoIo call tmo (a, os) = Inr (0, a', os') \<and> good os')
    \<or> (\<exists>e es. selects os = Inl e # es \<and> OS_DoIo call tmo (a, os) = Inl (Exit e))
    \<or> selects os = [] \<and> \<not> tmo \<and> OS_DoIo call tmo (a, os) = Inl Blocked"
proof -
  let ?o = "os\<lparr>asyncIoInUse := True\<rparr>"
  have "aio_at ?o = aio_at os" by (rule aio_at_cong) simp
  then have g: "good ?o" using assms by (simp add: good_def aio_inv_def ops_ok_def table_ok_def)
  have m: "\<not> FD_SETSIZE \<le> maxFd os" using assms by (simp add: good_def aio_inv_def ops_ok_def)
  from collect_good [OF g, of tmo] show ?thesis
  proof (elim disjE exE conjE)
    fix o1 assume "collect_posted tmo ?o = Inr o1" "good o1"
    then show ?thesis using m dispatch_loop_good [of "(a, o1)" 0]
      by (auto simp: OS_DoIo_def Let_def)
  qed (use m in \<open>simp_all add: OS_DoIo_def Let_def\<close>)
qed

end

subsection \<open>Applications that leave the library alone\<close>

text \<open>
  A completion procedure that changes only the application's own state, by any function \<open>f\<close> of the
  procedure, its client data and the transferred length; \<open>run_calls\<close> is the effect of a sequence of
  calls on that state.
\<close>

definition own_state :: "(nat \<Rightarrow> int \<Rightarrow> int \<Rightarrow> 'a \<Rightarrow> 'a) \<Rightarrow> 'a async_proc" where
  "own_state f p cd n st = Inr (f p cd n (fst st), snd st)"

definition run_calls :: "(nat \<Rightarrow> int \<Rightarrow> int \<Rightarrow> 'a \<Rightarrow> 'a) \<Rightarrow> ((nat \<times> int) \<times> int) list \<Rightarrow> 'a \<Rightarrow> 'a" where
  "run_calls f tr a = fold (\<lambda>((p, cd), n). f p cd n) tr a"

interpretation own: async_client "own_state f" "\<lambda>_ _. True" for f
  by unfold_locales (auto simp: own_state_def)

text \<open>The calls one descriptor's posted operations lead to, the read before the write.\<close>

definition calls_of :: "os_unix \<Rightarrow> bool \<Rightarrow> int \<Rightarrow> (nat \<times> int) list" where
  "calls_of os wr fd =
     (if fd \<in> posted os wr
      then (case aio_at os (wr, fd) of Some io \<Rightarrow> [(the (procPtr io), clientData io)] | None \<Rightarrow> []) else [])"

lemma dispatch_own:
  assumes "aio_inv os"
  shows "\<exists>tr o1. dispatch wr (own_state f) fd (a, os) = Inr (run_calls f tr a, o1) \<and> map fst tr = calls_of os wr fd \<and> aio_inv o1
    \<and> aio_at o1 = (if fd \<in> posted os wr then (aio_at os)((wr, fd) := None) else aio_at os)
    \<and> posted o1 = (posted os)(wr := posted os wr - {fd}) \<and> pend o1 = pend os \<and> maxFd o1 = maxFd os"
proof (cases "fd \<in> posted os wr")
  case True
  with assms obtain io p n o1 where "aio_at os (wr, fd) = Some io" "procPtr io = Some p"
    "\<And>a. dispatch wr (own_state f) fd (a, os) = own_state f p (clientData io) n (a, o1)" "aio_inv o1"
    "aio_at o1 = (aio_at os)((wr, fd) := None)" "posted o1 = (posted os)(wr := posted os wr - {fd})" "pend o1 = pend os"
    "maxFd o1 = maxFd os" using dispatch_posted [of os fd wr "own_state f"] by blast
  then show ?thesis using True
    by (intro exI [of _ "[((p, clientData io), n)]"] exI [of _ o1]) (simp add: own_state_def run_calls_def calls_of_def)
qed (use assms in \<open>simp add: dispatch_eq calls_of_def run_calls_def\<close>)

lemma calls_of_frame:
  "aio_at o1 (wr, fd) = aio_at os (wr, fd) \<Longrightarrow> fd \<in> posted o1 wr \<longleftrightarrow> fd \<in> posted os wr \<Longrightarrow> calls_of o1 wr fd = calls_of os wr fd"
  by (simp add: calls_of_def)

lemma dispatch_loop_own:
  assumes "aio_inv os"
  shows "\<exists>tr o1. dispatch_loop (own_state f) fd (a, os) = Inr (run_calls f tr a, o1)
    \<and> map fst tr = concat (map (\<lambda>f. calls_of os False f @ calls_of os True f) [fd..maxFd os])
    \<and> aio_inv o1 \<and> (\<forall>wr. posted o1 wr = {f \<in> posted os wr. f < fd}) \<and> pend o1 = pend os
    \<and> (\<forall>wr f. aio_at o1 (wr, f) = (if f \<in> posted os wr \<and> fd \<le> f then None else aio_at os (wr, f)))"
  using assms
proof (induction "nat (FD_SETSIZE - fd)" arbitrary: fd a os rule: less_induct)
  case less
  have o: "ops_ok os" using less.prems by (simp add: aio_inv_def)
  show ?case
  proof (cases "maxFd os < fd")
    case True
    have "f < fd" if "f \<in> posted os wr" for f wr
      using o that True unfolding ops_ok_def by (metis UnI2 not_None_eq order_le_less_trans)
    then show ?thesis using True less.prems
      by (intro exI [of _ "[]"] exI [of _ os]) (auto simp: dispatch_loop.simps [of _ fd] run_calls_def dest: leD)
  next
    case False
    have m: "maxFd os < FD_SETSIZE" using o by (simp add: ops_ok_def)
    from dispatch_own [OF less.prems, of False f fd a] obtain t1 o1 where
      o1: "dispatch_read (own_state f) fd (a, os) = Inr (run_calls f t1 a, o1)" "map fst t1 = calls_of os False fd" "aio_inv o1"
        "aio_at o1 = (if fd \<in> posted os False then (aio_at os)((False, fd) := None) else aio_at os)"
        "posted o1 = (posted os)(False := posted os False - {fd})" "pend o1 = pend os" "maxFd o1 = maxFd os"
      by (auto simp: dispatch_def)
    from dispatch_own [OF o1(3), of True f fd "run_calls f t1 a"] obtain t2 o2 where
      o2: "dispatch_write (own_state f) fd (run_calls f t1 a, o1) = Inr (run_calls f t2 (run_calls f t1 a), o2)"
        "map fst t2 = calls_of o1 True fd"
        "aio_inv o2" "aio_at o2 = (if fd \<in> posted o1 True then (aio_at o1)((True, fd) := None) else aio_at o1)"
        "posted o2 = (posted o1)(True := posted o1 True - {fd})" "pend o2 = pend o1" "maxFd o2 = maxFd o1"
      by (auto simp: dispatch_def)
    have "nat (FD_SETSIZE - (fd + 1)) < nat (FD_SETSIZE - fd)" using m False by linarith
    from less.hyps [OF this o2(3), of "run_calls f t2 (run_calls f t1 a)"] obtain t3 o3 where
      o3: "dispatch_loop (own_state f) (fd + 1) (run_calls f t2 (run_calls f t1 a), o2) =
          Inr (run_calls f t3 (run_calls f t2 (run_calls f t1 a)), o3)"
        "map fst t3 = concat (map (\<lambda>f. calls_of o2 False f @ calls_of o2 True f) [fd + 1..maxFd os])"
        "aio_inv o3" "\<forall>wr. posted o3 wr = {f \<in> posted o2 wr. f < fd + 1}" "pend o3 = pend o2"
        "\<forall>wr f. aio_at o3 (wr, f) = (if f \<in> posted o2 wr \<and> fd + 1 \<le> f then None else aio_at o2 (wr, f))"
      using o2(7) o1(7) by auto
    have p2: "posted o2 wr = posted os wr - {fd}" for wr using o1(5) o2(5) by (cases wr) simp_all
    have a2: "aio_at o2 (wr, f) = (if f \<in> posted os wr \<and> f = fd then None else aio_at os (wr, f))" for wr f
      using o1(4,5) o2(4) by (cases wr) auto
    have c1: "calls_of o1 True fd = calls_of os True fd" using o1(4,5) by (intro calls_of_frame) auto
    have c2: "calls_of o2 wr f = calls_of os wr f" if "f \<noteq> fd" for wr f
      using that p2 a2 by (intro calls_of_frame) auto
    have "[fd..maxFd os] = fd # [fd + 1..maxFd os]" using False by (simp add: upto_rec1)
    moreover have eq: "map (\<lambda>f. calls_of o2 False f @ calls_of o2 True f) [fd + 1..maxFd os] =
      map (\<lambda>f. calls_of os False f @ calls_of os True f) [fd + 1..maxFd os]" by (simp add: c2)
    ultimately have "map fst (t1 @ t2 @ t3) = concat (map (\<lambda>f. calls_of os False f @ calls_of os True f) [fd..maxFd os])"
      using o1(2) o2(2) o3(2) [unfolded eq] c1 by simp
    moreover have "dispatch_loop (own_state f) fd (a, os) = Inr (run_calls f (t1 @ t2 @ t3) a, o3)"
      using m False o1(1) o2(1) o3(1) by (simp add: dispatch_loop.simps [of _ fd] run_calls_def)
    moreover have "posted o3 wr = {f \<in> posted os wr. f < fd}" for wr using o3(4) p2 by auto
    moreover have "aio_at o3 (wr, f) = (if f \<in> posted os wr \<and> fd \<le> f then None else aio_at os (wr, f))" for wr f
      using o3(6) p2 a2 by auto
    moreover have "pend o3 = pend os" using o1(6) o2(6) o3(5) by simp
    ultimately show ?thesis using o3(3) by blast
  qed
qed

text \<open>The calls of the operations of one descriptor that a \<open>select\<close> reported as ready.\<close>

definition ready_calls :: "os_unix \<Rightarrow> bool \<Rightarrow> int set \<Rightarrow> int \<Rightarrow> (nat \<times> int) list" where
  "ready_calls os wr R fd =
     (case aio_at os (wr, fd) of
        Some io \<Rightarrow> if fd \<in> R then [(the (procPtr io), clientData io)] else []
      | None \<Rightarrow> [])"

text \<open>
  C5.  For completion procedures that change the application's own state, in whatever way, and leave
  the library's state alone (they neither close a descriptor nor enqueue an operation): when
  \<open>select\<close> reports the descriptors \<open>r\<close> readable and \<open>w\<close> writable, \<open>OS_DoIo\<close> calls the
  procedure of each pending operation on them exactly once with its client data, by increasing
  descriptor and the read before the write; these operations are gone from the table, every other
  one is as it was, nothing is left posted and the invariant holds.
\<close>

theorem doio_dispatches:
  assumes "aio_inv os" "\<forall>wr. num_posted os wr = 0" "selects os = Inr (r, w) # es"
  shows "\<exists>tr os'. OS_DoIo (own_state f) tmo (a, os) = Inr (0, run_calls f tr a, os')
    \<and> map fst tr = concat (map (\<lambda>fd. ready_calls os False r fd @ ready_calls os True w fd) [0..maxFd os])
    \<and> aio_inv os' \<and> (\<forall>wr. posted os' wr = {})
    \<and> (\<forall>wr fd. aio_at os' (wr, fd) = (if fd \<in> (if wr then w else r) then None else aio_at os (wr, fd)))"
proof -
  let ?o = "os\<lparr>asyncIoInUse := True\<rparr>"
  have at: "aio_at ?o = aio_at os" by (rule aio_at_cong) simp
  then have inv: "aio_inv ?o" using assms(1) by (simp add: aio_inv_def ops_ok_def table_ok_def)
  have o: "ops_ok os" using assms(1) by (simp add: aio_inv_def)
  have idle: "posted os wr = {}" for wr
    using assms(1,2) posted_finite [OF o, of wr] by (metis aio_inv_def card_0_eq of_nat_eq_0_iff)
  have m: "\<not> FD_SETSIZE \<le> maxFd os" using o by (simp add: ops_ok_def)
  from collect_posted_ok [OF inv, of r w es tmo] assms(2,3) obtain o1 where
    o1: "collect_posted tmo ?o = Inr o1" "aio_inv o1" "aio_at o1 = aio_at os" "maxFd o1 = maxFd os"
      "\<forall>wr. posted o1 wr = pend os wr \<inter> (if wr then w else r)" "\<forall>wr. pend o1 wr = pend os wr - (if wr then w else r)"
    by (auto simp: at)
  have c: "calls_of o1 False = ready_calls os False r" "calls_of o1 True = ready_calls os True w"
  proof -
    have "calls_of o1 wr fd = ready_calls os wr (if wr then w else r) fd" for wr fd
      using o idle o1(3,5) by (auto simp: calls_of_def ready_calls_def ops_ok_def split: option.splits)
    then show "calls_of o1 False = ready_calls os False r" "calls_of o1 True = ready_calls os True w" by (auto simp: fun_eq_iff)
  qed
  from dispatch_loop_own [OF o1(2), of f 0 a] obtain tr o2 where
    o2: "dispatch_loop (own_state f) 0 (a, o1) = Inr (run_calls f tr a, o2)"
      "map fst tr = concat (map (\<lambda>f. ready_calls os False r f @ ready_calls os True w f) [0..maxFd os])"
      "aio_inv o2" "\<forall>wr. posted o2 wr = {f \<in> posted o1 wr. f < 0}"
      "\<forall>wr f. aio_at o2 (wr, f) = (if f \<in> posted o1 wr \<and> 0 \<le> f then None else aio_at o1 (wr, f))"
    unfolding o1(4) c by blast
  have pos: "0 \<le> f" if "f \<in> posted o1 wr" for f wr using that o1(5) pend_range [OF o] by auto
  have end_at: "aio_at os (wr, fd) = None \<longleftrightarrow> fd \<notin> pend os wr" for wr fd
    using o idle unfolding ops_ok_def by (metis Un_empty_right not_None_eq)
  show ?thesis
  proof (cases "numRdPosted o1 = 0 \<and> numWrPosted o1 = 0")
    case True
    then have "num_posted o1 wr = 0" for wr by (simp add: num_posted_def)
    then have none: "posted o1 wr = {}" for wr
      using o1(2) posted_finite by (metis aio_inv_def card_0_eq of_nat_eq_0_iff)
    then have "ready_calls os False r = (\<lambda>_. [])" "ready_calls os True w = (\<lambda>_. [])"
      unfolding c [symmetric] by (simp_all add: calls_of_def fun_eq_iff)
    moreover have "fd \<notin> pend os wr" if "fd \<in> (if wr then w else r)" for wr fd using that none [of wr] o1(5) by auto
    ultimately show ?thesis using True m o1(1-3) none end_at
      by (intro exI [of _ "[]"] exI [of _ o1]) (auto simp: OS_DoIo_def Let_def run_calls_def)
  next
    case False
    then have "OS_DoIo (own_state f) tmo (a, os) = Inr (0, run_calls f tr a, o2)"
      using m o1(1) o2(1) by (auto simp: OS_DoIo_def Let_def)
    moreover have "\<forall>wr. posted o2 wr = {}" using o2(4) by (auto dest: pos)
    moreover have "aio_at o2 (wr, fd) = (if fd \<in> (if wr then w else r) then None else aio_at os (wr, fd))" for wr fd
      using o2(5) o1(3,5) pos [of fd wr] end_at [of wr fd] by auto
    ultimately show ?thesis using o2(2,3) by blast
  qed
qed

lemma install_frame: "\<exists>h. OS_InstallSignalHandlers f os = os\<lparr>sigactions := h\<rparr>"
proof -
  have one: "\<exists>h. installSignalHandler n a f o1 = o1\<lparr>sigactions := h\<rparr>" for n a o1
    by (cases "f \<or> sigactions o1 n = SIG_DFL")
      (simp_all add: installSignalHandler_def, blast, metis os_unix.surjective os_unix.update_convs(25))
  obtain h where "installSignalHandler SIGPIPE SigpipeHandler f os = os\<lparr>sigactions := h\<rparr>" using one by blast
  then show ?thesis using one [of SIGUSR1 Sigusr1Handler "os\<lparr>sigactions := h\<rparr>"] by (simp add: OS_InstallSignalHandlers_def)
qed

lemma LibInit_frame:
  assumes "\<not> osLibInitialized os" "asyncIoTableSize os * AIO_SIZE \<le> heapLimit os"
  shows "\<exists>h. OS_LibInit os = (0, os\<lparr>asyncIoTable := Some (replicate (asyncIoTableSize os) aio_zero), readFdSet := {},
    writeFdSet := {}, readFdSetPost := {}, writeFdSetPost := {}, sigactions := h, osLibInitialized := True\<rparr>)"
proof -
  let ?o = "os\<lparr>asyncIoTable := Some (replicate (asyncIoTableSize os) aio_zero), readFdSet := {}, writeFdSet := {},
      readFdSetPost := {}, writeFdSetPost := {}\<rparr>"
  obtain h where h: "OS_InstallSignalHandlers False ?o = ?o\<lparr>sigactions := h\<rparr>" using install_frame by blast
  have "OS_LibInit os = (0, (OS_InstallSignalHandlers False ?o)\<lparr>osLibInitialized := True\<rparr>)"
    using assms by (simp add: OS_LibInit_def)
  then show ?thesis unfolding h by (intro exI [of _ h]) simp
qed

lemma LibInit_aio:
  assumes "\<not> osLibInitialized os" "even (asyncIoTableSize os)" "0 < asyncIoTableSize os" "asyncIoTableSize os dvd AIO_MAX"
    "maxFd os = - 1" "numRdPosted os = 0" "numWrPosted os = 0" "AIO_MAX * AIO_SIZE \<le> heapLimit os"
  shows "fst (OS_LibInit os) = 0 \<and> aio_inv (snd (OS_LibInit os)) \<and> aio_at (snd (OS_LibInit os)) = (\<lambda>_. None)
    \<and> maxFd (snd (OS_LibInit os)) = - 1 \<and> pend (snd (OS_LibInit os)) = (\<lambda>_. {}) \<and> posted (snd (OS_LibInit os)) = (\<lambda>_. {})"
proof -
  have "asyncIoTableSize os \<le> AIO_MAX" using assms(4) by (simp add: dvd_imp_le)
  then have "asyncIoTableSize os * AIO_SIZE \<le> heapLimit os" using assms(8) by linarith
  with LibInit_frame [OF assms(1)] obtain h o1 where
    o1: "o1 = os\<lparr>asyncIoTable := Some (replicate (asyncIoTableSize os) aio_zero), readFdSet := {},
      writeFdSet := {}, readFdSetPost := {}, writeFdSetPost := {}, sigactions := h, osLibInitialized := True\<rparr>"
    and l: "OS_LibInit os = (0, o1)" by blast
  have "\<not> inUse (replicate (asyncIoTableSize os) aio_zero ! nat (aio_ix k))"
    if "0 \<le> snd k" "aio_ix k < int (asyncIoTableSize os)" for k
  proof -
    have "nat (aio_ix k) < asyncIoTableSize os" using that aio_ix_nonneg [OF that(1)] by linarith
    then show ?thesis by (simp add: aio_zero_def)
  qed
  then have at: "aio_at o1 = (\<lambda>_. None)" by (auto simp: aio_at_def o1 fun_eq_iff)
  have s: "pend o1 = (\<lambda>_. {})" "posted o1 = (\<lambda>_. {})" "num_posted o1 = (\<lambda>_. 0)" "maxFd o1 = - 1"
    using assms(5-7) by (auto simp: o1 pend_def posted_def num_posted_def fun_eq_iff)
  have "table_ok o1" using assms(2-4,8) by (simp add: table_ok_def o1)
  then have "aio_inv o1" by (simp add: aio_inv_def ops_ok_def at s)
  with at s l show ?thesis by simp
qed

text \<open>Asynchronous I/O right after start-up, and with one read enqueued and ready.\<close>

definition aio_start :: os_unix where
  "aio_start = snd (OS_LibInit (idle_os\<lparr>osLibInitialized := False\<rparr>))"

definition aio_demo :: os_unix where
  "aio_demo = (snd (projr (OS_AsyncRead 3 0 100 10 (Some 7) 3 aio_start)))\<lparr>selects := [Inr ({3}, {})]\<rparr>"

lemma aio_start:
  "aio_inv aio_start" "aio_at aio_start = (\<lambda>_. None)" "maxFd aio_start = - 1" "pend aio_start = (\<lambda>_. {})"
  "posted aio_start = (\<lambda>_. {})"
  using LibInit_aio [of "idle_os\<lparr>osLibInitialized := False\<rparr>"] by (simp_all add: aio_start_def idle_os_def)

lemma selects_frame [simp]:
  "pend (os\<lparr>selects := x\<rparr>) = pend os" "posted (os\<lparr>selects := x\<rparr>) = posted os" "num_posted (os\<lparr>selects := x\<rparr>) = num_posted os"
  "aio_at (os\<lparr>selects := x\<rparr>) = aio_at os"
  by (auto simp: pend_def posted_def num_posted_def aio_at_def fun_eq_iff)

lemma aio_demo:
  "aio_inv aio_demo" "aio_at aio_demo = [(False, 3) \<mapsto> aio_of 7 3 3 10 0 100]" "selects aio_demo = [Inr ({3}, {})]"
  "maxFd aio_demo = 3" "posted aio_demo = (\<lambda>_. {})" "num_posted aio_demo wr = 0" "asyncIoInUse aio_demo"
proof -
  obtain o1 where o1: "OS_AsyncRead 3 0 100 10 (Some 7) 3 aio_start = Inr (0, o1)" "aio_inv o1"
    "aio_at o1 = [(False, 3) \<mapsto> aio_of 7 3 3 10 0 100]" "maxFd o1 = 3" "posted o1 = (\<lambda>_. {})" "asyncIoInUse o1"
    using OS_AsyncRead_ok [OF aio_start(1), of 3 0 100 10 7 3] aio_start(2-5) by auto
  then show "aio_inv aio_demo" by (simp add: aio_demo_def aio_inv_def table_ok_def ops_ok_def)
  moreover show "aio_at aio_demo = [(False, 3) \<mapsto> aio_of 7 3 3 10 0 100]" "selects aio_demo = [Inr ({3}, {})]"
    "maxFd aio_demo = 3" "posted aio_demo = (\<lambda>_. {})" "asyncIoInUse aio_demo" using o1 by (simp_all add: aio_demo_def)
  ultimately show "num_posted aio_demo wr = 0" by (simp add: aio_inv_def)
qed

theorem doio_dispatches_witness:
  "\<exists>n os'. OS_DoIo (own_state (\<lambda>p cd n l. l @ [(p, cd, n)])) False ([], aio_demo) = Inr (0, [(7, 3, n)], os')
    \<and> aio_inv os' \<and> aio_at os' (False, 3) = None"
proof -
  let ?f = "\<lambda>p cd n l. l @ [(p, cd, n)]"
  have "[0..maxFd aio_demo] = [0, 1, 2, 3]" by (simp add: aio_demo(4) upto_rec1)
  moreover have "\<forall>wr. num_posted aio_demo wr = 0" using aio_demo(6) by simp
  ultimately obtain tr os' where tr: "OS_DoIo (own_state ?f) False ([], aio_demo) = Inr (0, run_calls ?f tr [], os')"
    "map fst tr = [(7, 3)]" "aio_inv os'" "aio_at os' (False, 3) = None"
    using doio_dispatches [OF aio_demo(1) _ aio_demo(3), of ?f False "[]"]
    by (auto simp: ready_calls_def aio_demo(2))
  then show ?thesis by (auto simp: run_calls_def map_eq_Cons_conv)
qed

subsection \<open>An application that reads on\<close>

text \<open>Each completed read with data enqueues the next one on its descriptor; the client data is the descriptor.\<close>

definition read_again :: "nat \<Rightarrow> int \<Rightarrow> int async_proc" where
  "read_again buf len p cd n st =
     (if n > 0 then bindR (OS_AsyncRead cd 0 buf len (Some p) cd (snd st)) (\<lambda>(_, os). Inr (fst st + n, os)) else Inr st)"

interpretation again: async_client "read_again buf len" "\<lambda>k io. \<not> fst k \<and> clientData io = snd k" for buf len
proof
  fix os wr fd io p n a
  assume inv: "aio_inv os" and ok: "\<forall>k io. aio_at os k = Some io \<longrightarrow> \<not> fst k \<and> clientData io = snd k"
    and free: "aio_at os (wr, fd) = None" and fd: "fd \<le> maxFd os" "0 \<le> fd"
    and io: "\<not> fst (wr, fd) \<and> clientData io = snd (wr, fd)"
  have "fd < FD_SETSIZE" using inv fd(1) by (simp add: aio_inv_def ops_ok_def)
  with OS_AsyncRead_ok [OF inv fd(2), of 0 buf len p fd] free io obtain o1 where
    "OS_AsyncRead fd 0 buf len (Some p) fd os = Inr (0, o1)" "aio_inv o1"
    "aio_at o1 = (aio_at os)((False, fd) \<mapsto> aio_of p fd fd len 0 buf)" by auto
  moreover have "\<not> fst k \<and> clientData i = snd k" if "aio_at o1 k = Some i" for k i
    using that ok calculation(3) by (cases k) (auto split: if_splits)
  ultimately show "\<exists>a' os'. read_again buf len p (clientData io) n (a, os) = Inr (a', os') \<and> aio_inv os'
      \<and> (\<forall>k io. aio_at os' k = Some io \<longrightarrow> \<not> fst k \<and> clientData io = snd k)"
    using inv ok io by (cases "n > 0") (auto simp: read_again_def simp del: fun_upd_apply split_paired_All)
qed

text \<open>
  C6.  An application whose operations are reads and whose procedure enqueues the next read can be
  driven for ever: in a state where the invariant of asynchronous I/O holds, \<open>OS_DoIo\<close> returns 0
  in such a state again, with no access outside the table and no failed assertion; it ends the
  process only if \<open>select\<close> fails, and waits for ever only without a timeout.
\<close>

theorem doio_serves:
  assumes "aio_inv os" "\<forall>k io. aio_at os k = Some io \<longrightarrow> \<not> fst k \<and> clientData io = snd k"
  shows "(\<exists>a' os'. OS_DoIo (read_again buf len) tmo (a, os) = Inr (0, a', os') \<and> aio_inv os'
       \<and> (\<forall>k io. aio_at os' k = Some io \<longrightarrow> \<not> fst k \<and> clientData io = snd k))
    \<or> (\<exists>e es. selects os = Inl e # es \<and> OS_DoIo (read_again buf len) tmo (a, os) = Inl (Exit e))
    \<or> selects os = [] \<and> \<not> tmo \<and> OS_DoIo (read_again buf len) tmo (a, os) = Inl Blocked"
  using again.DoIo_good [of os buf len tmo a] assms unfolding again.good_def by blast

theorem doio_serves_witness:
  "\<exists>a' os'. OS_DoIo (read_again 100 10) True (0, aio_demo) = Inr (0, a', os') \<and> aio_inv os'"
proof -
  have "\<forall>k io. aio_at aio_demo k = Some io \<longrightarrow> \<not> fst k \<and> clientData io = snd k"
    by (auto simp: aio_demo(2) split: if_splits)
  from doio_serves [OF aio_demo(1) this, of 100 10 True 0] show ?thesis by (auto simp: aio_demo(3))
qed

section \<open>Closing descriptors\<close>

definition forget :: "int \<Rightarrow> os_unix \<Rightarrow> os_unix res" where
  "forget fd os =
     bindR (fd_guard fd) (\<lambda>_.
     bindR (aio_release (AIO_RD_IX fd)
       (os\<lparr>readFdSet := readFdSet os - {fd}, readFdSetPost := readFdSetPost os - {fd}\<rparr>)) (\<lambda>os.
     bindR (aio_release (AIO_WR_IX fd)
       (os\<lparr>writeFdSet := writeFdSet os - {fd}, writeFdSetPost := writeFdSetPost os - {fd}\<rparr>)) (\<lambda>os.
     Inr (if maxFd os = fd then os\<lparr>maxFd := maxFd os - 1\<rparr> else os))))"

definition aio_same :: "os_unix \<Rightarrow> os_unix \<Rightarrow> bool" where
  "aio_same os os' \<longleftrightarrow> asyncIoTable os' = asyncIoTable os \<and> asyncIoTableSize os' = asyncIoTableSize os
     \<and> heapLimit os' = heapLimit os \<and> maxFd os' = maxFd os \<and> pend os' = pend os \<and> posted os' = posted os
     \<and> num_posted os' = num_posted os \<and> asyncIoInUse os' = asyncIoInUse os"

lemma aio_same_refl: "aio_same os os" by (simp add: aio_same_def)

lemma aio_same_trans: "aio_same a b \<Longrightarrow> aio_same b c \<Longrightarrow> aio_same a c" by (simp add: aio_same_def)

lemma aio_same_inv: "aio_same os os' \<Longrightarrow> aio_inv os' = aio_inv os" "aio_same os os' \<Longrightarrow> aio_at os' = aio_at os"
proof -
  assume s: "aio_same os os'"
  then show a: "aio_at os' = aio_at os" by (intro aio_at_cong) (simp add: aio_same_def)
  from s show "aio_inv os' = aio_inv os" by (simp add: aio_same_def aio_inv_def table_ok_def ops_ok_def a)
qed

lemma aio_same_io: "aio_same os (os\<lparr>errno := e, conns := c\<rparr>)" "aio_same os (os\<lparr>errno := e\<rparr>)" "aio_same os (os\<lparr>conns := c\<rparr>)"
  by (simp_all add: aio_same_def pend_def posted_def num_posted_def fun_eq_iff)

lemma Close_forgets:
  assumes "asyncIoInUse os" "fd \<noteq> - 1"
  shows "forget fd os = Inl e \<Longrightarrow> OS_Close fd os = Inl e"
    "forget fd os = Inr o1 \<Longrightarrow> \<exists>rc o2. OS_Close fd os = Inr (rc, o2) \<and> aio_same o1 o2"
proof -
  have close: "aio_same o2 (snd (sys_close fd o2))" for o2
    by (simp add: sys_close_def aio_same_io)
  have shut: "aio_same o1 (case sys_shutdown fd 1 o1 of (rc, os) \<Rightarrow> if rc = 0 then drain_conn fd os else os)"
    by (simp add: sys_shutdown_def drain_conn_def aio_same_io split: prod.splits)
  show "forget fd os = Inl e \<Longrightarrow> OS_Close fd os = Inl e" using assms by (simp add: OS_Close_def forget_def)
  show "forget fd os = Inr o1 \<Longrightarrow> \<exists>rc o2. OS_Close fd os = Inr (rc, o2) \<and> aio_same o1 o2"
    using assms aio_same_trans [OF shut close] unfolding OS_Close_def forget_def by (simp add: prod_eq_iff)
qed

lemma release_at:
  assumes "asyncIoTable os = Some t" "0 \<le> fd" "aio_ix (wr, fd) < int (length t)"
  shows "\<exists>t'. aio_release (aio_ix (wr, fd)) os = Inr (os\<lparr>asyncIoTable := Some t'\<rparr>) \<and> length t' = length t
    \<and> aio_at (os\<lparr>asyncIoTable := Some t'\<rparr>) = (aio_at os)((wr, fd) := None)"
proof (cases "inUse (t ! nat (aio_ix (wr, fd)))")
  case True
  let ?t = "t[nat (aio_ix (wr, fd)) := (t ! nat (aio_ix (wr, fd)))\<lparr>inUse := False\<rparr>]"
  have "aio_at (os\<lparr>asyncIoTable := Some ?t\<rparr>) = (aio_at os)((wr, fd) := None)"
    using aio_at_update [OF assms(1) _ assms(3), of "os\<lparr>asyncIoTable := Some ?t\<rparr>"] assms(2) by simp
  then show ?thesis using True assms aio_ix_nonneg [of "(wr, fd)"] by (intro exI [of _ ?t]) (simp add: aio_release_def)
next
  case False
  then have "aio_at os (wr, fd) = None" using assms by (simp add: aio_at_def)
  moreover have "aio_at (os\<lparr>asyncIoTable := Some t\<rparr>) = aio_at os" using assms(1) by (intro aio_at_cong) simp
  ultimately show ?thesis using False assms aio_ix_nonneg [of "(wr, fd)"]
    by (intro exI [of _ t]) (auto simp: aio_release_def fun_eq_iff)
qed

text \<open>Closing releases both operations of the descriptor; the counters are left as they were.\<close>

lemma forget_ok:
  assumes "table_ok os" "0 \<le> fd" "2 * fd < int (asyncIoTableSize os)"
  shows "\<exists>o1. forget fd os = Inr o1 \<and> table_ok o1 \<and> aio_at o1 = (aio_at os)((False, fd) := None, (True, fd) := None)
    \<and> pend o1 = (\<lambda>wr. pend os wr - {fd}) \<and> posted o1 = (\<lambda>wr. posted os wr - {fd}) \<and> num_posted o1 = num_posted os
    \<and> maxFd o1 = (if maxFd os = fd then fd - 1 else maxFd os) \<and> asyncIoInUse o1 = asyncIoInUse os"
proof -
  obtain t where t: "asyncIoTable os = Some t" "length t = asyncIoTableSize os" "even (length t)"
    using assms(1) by (auto simp: table_ok_def)
  then have wx: "2 * fd + 1 < int (length t)" using assms(3) by presburger
  let ?o = "os\<lparr>readFdSet := readFdSet os - {fd}, readFdSetPost := readFdSetPost os - {fd}\<rparr>"
  have x: "AIO_RD_IX fd = aio_ix (False, fd)" "AIO_WR_IX fd = aio_ix (True, fd)" by (simp_all add: aio_ix_def)
  obtain t1 where t1: "aio_release (aio_ix (False, fd)) ?o = Inr (?o\<lparr>asyncIoTable := Some t1\<rparr>)" "length t1 = length t"
    "aio_at (?o\<lparr>asyncIoTable := Some t1\<rparr>) = (aio_at ?o)((False, fd) := None)"
    using release_at [of ?o t fd False] assms(2,3) t by (auto simp: aio_ix_def AIO_RD_IX_def)
  let ?o1 = "?o\<lparr>asyncIoTable := Some t1, writeFdSet := writeFdSet os - {fd}, writeFdSetPost := writeFdSetPost os - {fd}\<rparr>"
  obtain t2 where t2: "aio_release (aio_ix (True, fd)) ?o1 = Inr (?o1\<lparr>asyncIoTable := Some t2\<rparr>)" "length t2 = length t"
    "aio_at (?o1\<lparr>asyncIoTable := Some t2\<rparr>) = (aio_at ?o1)((True, fd) := None)"
    using release_at [of ?o1 t1 fd True] assms(2) t t1(2) wx by (auto simp: aio_ix_def AIO_WR_IX_def)
  let ?o2 = "?o1\<lparr>asyncIoTable := Some t2, maxFd := if maxFd os = fd then fd - 1 else maxFd os\<rparr>"
  have "fd < 1024" using table_size [OF assms(1)] assms(3) by linarith
  then have "forget fd os = Inr ?o2" using t1(1) t2(1) assms(2) by (auto simp: forget_def fd_guard_def x)
  moreover have "aio_at ?o = aio_at os" "aio_at ?o1 = aio_at (?o\<lparr>asyncIoTable := Some t1\<rparr>)"
    "aio_at ?o2 = aio_at (?o1\<lparr>asyncIoTable := Some t2\<rparr>)" by (rule aio_at_cong, simp)+
  moreover have "table_ok ?o2" using assms(1) t t2(2) by (simp add: table_ok_def)
  ultimately show ?thesis using t1(3) t2(3)
    by (intro exI [of _ ?o2]) (auto simp: pend_def posted_def num_posted_def fun_eq_iff)
qed

text \<open>
  C7.  Closing a descriptor of the table that has no completed operation waiting releases its
  pending read and write, keeps every other operation and the invariant of asynchronous I/O.
\<close>

theorem close_releases:
  assumes "aio_inv os" "asyncIoInUse os" "0 \<le> fd" "2 * fd < int (asyncIoTableSize os)" "\<forall>wr. fd \<notin> posted os wr"
  shows "\<exists>rc os'. OS_Close fd os = Inr (rc, os') \<and> aio_inv os'
    \<and> aio_at os' = (aio_at os)((False, fd) := None, (True, fd) := None)"
proof -
  have t: "table_ok os" and o: "ops_ok os" and c: "\<forall>wr. num_posted os wr = int (card (posted os wr))"
    using assms(1) by (simp_all add: aio_inv_def)
  from forget_ok [OF t assms(3,4)] obtain o1 where
    o1: "forget fd os = Inr o1" "table_ok o1" "aio_at o1 = (aio_at os)((False, fd) := None, (True, fd) := None)"
      "pend o1 = (\<lambda>wr. pend os wr - {fd})" "posted o1 = (\<lambda>wr. posted os wr - {fd})" "num_posted o1 = num_posted os"
      "maxFd o1 = (if maxFd os = fd then fd - 1 else maxFd os)" by blast
  have p: "posted o1 = posted os" using assms(5) o1(5) by auto
  have a: "aio_at o1 (wr, f) = (if f = fd then None else aio_at os (wr, f))" for wr f using o1(3) by (cases wr) auto
  have e: "aio_at os (wr, f) \<noteq> None \<longleftrightarrow> f \<in> pend os wr \<union> posted os wr" "pend os wr \<inter> posted os wr = {}" for wr f
    using o by (simp_all add: ops_ok_def)
  have i: "procPtr io \<noteq> None \<and> aioFd io = f \<and> f \<le> maxFd os" if "aio_at os (wr, f) = Some io" for wr f io
    using o that by (simp add: ops_ok_def)
  have "maxFd os < FD_SETSIZE" using o by (simp add: ops_ok_def)
  then have "maxFd o1 < FD_SETSIZE" using o1(7) by simp
  moreover have "aio_at o1 (wr, f) \<noteq> None \<longleftrightarrow> f \<in> pend o1 wr \<union> posted o1 wr" for wr f
    using e(1) [of wr f] assms(5) by (simp add: a o1(4) p)
  moreover have "pend o1 wr \<inter> posted o1 wr = {}" for wr using e(2) [of wr] by (auto simp: o1(4) p)
  moreover have "procPtr io \<noteq> None \<and> aioFd io = f \<and> f \<le> maxFd o1" if "aio_at o1 (wr, f) = Some io" for wr f io
    using i [of wr f io] that by (auto simp: a o1(7) split: if_splits)
  ultimately have "ops_ok o1" unfolding ops_ok_def by blast
  then have "aio_inv o1" using o1(2) c by (simp add: aio_inv_def p o1(6))
  moreover have "fd \<noteq> - 1" using assms(3) by simp
  ultimately show ?thesis using Close_forgets(2) [OF assms(2) _ o1(1)] aio_same_inv o1(3) by metis
qed

theorem close_releases_witness:
  "\<exists>rc os'. OS_Close 3 aio_demo = Inr (rc, os') \<and> aio_inv os' \<and> aio_at os' (False, 3) = None"
proof -
  have "table_ok aio_demo" using aio_demo(1) by (simp add: aio_inv_def)
  then have "2 * 3 < int (asyncIoTableSize aio_demo)" using aio_at_size [of aio_demo False 3] aio_demo(2) by simp
  then show ?thesis using close_releases [OF aio_demo(1,7), of 3] by (auto simp: aio_demo(5))
qed

lemma dispatch_loop_idle:
  assumes "readFdSetPost os = {}" "writeFdSetPost os = {}" "maxFd os < FD_SETSIZE"
  shows "dispatch_loop call fd (a, os) = Inr (a, os)"
proof (induction "nat (FD_SETSIZE - fd)" arbitrary: fd rule: less_induct)
  case less
  show ?case
  proof (cases "maxFd os < fd")
    case False
    then have "nat (FD_SETSIZE - (fd + 1)) < nat (FD_SETSIZE - fd)" using assms(3) by linarith
    from less.hyps [OF this] assms False show ?thesis
      by (subst dispatch_loop.simps) (simp add: dispatch_read_def dispatch_write_def)
  qed (simp add: dispatch_loop.simps [of _ fd])
qed

text \<open>
  C8.  Closing the only descriptor with a completed read waiting, as a completion procedure of a
  lower descriptor may do, removes it from the set of posted descriptors and not from the count of
  them.  From then on every call of \<open>OS_DoIo\<close> returns at once without asking \<open>select\<close> and without
  calling any procedure: asynchronous I/O has stopped for good.
\<close>

theorem close_posted_stalls:
  assumes "aio_inv os" "asyncIoInUse os" "readFdSetPost os = {fd}" "writeFdSetPost os = {}"
  shows "\<exists>rc os'. OS_Close fd os = Inr (rc, os') \<and> numRdPosted os' = 1 \<and> readFdSetPost os' = {}
    \<and> (\<forall>(call :: 'a async_proc) tmo a. OS_DoIo call tmo (a, os') = Inr (0, a, os'))"
proof -
  have t: "table_ok os" and o: "ops_ok os" and n: "num_posted os False = 1" "num_posted os True = 0"
    using assms(1,3,4) by (simp_all add: aio_inv_def posted_def)
  have "fd \<in> posted os False" using assms(3) by (simp add: posted_def)
  then obtain io where io: "aio_at os (False, fd) = Some io" using o unfolding ops_ok_def by blast
  have fd: "0 \<le> fd" "2 * fd < int (asyncIoTableSize os)" "fd \<noteq> - 1" using aio_at_size [OF t io] by simp_all
  from forget_ok [OF t fd(1,2)] obtain o1 where
    o1: "forget fd os = Inr o1" "posted o1 = (\<lambda>wr. posted os wr - {fd})" "num_posted o1 = num_posted os"
      "maxFd o1 = (if maxFd os = fd then fd - 1 else maxFd os)" "asyncIoInUse o1 = asyncIoInUse os" by blast
  from Close_forgets(2) [OF assms(2) fd(3) o1(1)] obtain rc o2 where o2: "OS_Close fd os = Inr (rc, o2)" "aio_same o1 o2" by blast
  have p: "posted o2 = (\<lambda>wr. posted os wr - {fd})" "num_posted o2 = num_posted os" "asyncIoInUse o2" "maxFd o2 \<le> maxFd os"
    using o2(2) o1(2-5) assms(2) by (auto simp: aio_same_def)
  have "readFdSetPost o2 = posted o2 False" "writeFdSetPost o2 = posted o2 True" "numRdPosted o2 = num_posted o2 False"
    by (simp_all add: posted_def num_posted_def)
  then have e: "readFdSetPost o2 = {}" "writeFdSetPost o2 = {}" "numRdPosted o2 = 1"
    using p(1,2) n(1) assms(3,4) by (simp_all add: posted_def)
  have m: "maxFd o2 < FD_SETSIZE" using p(4) o by (simp add: ops_ok_def)
  have s: "o2\<lparr>asyncIoInUse := True\<rparr> = o2" using p(3) by (cases o2) simp
  have "OS_DoIo call tmo (a, o2) = Inr (0, a, o2)" for call :: "'a async_proc" and tmo a
    using e m p(3) dispatch_loop_idle [OF e(1,2) m, of call 0 a] by (simp add: OS_DoIo_def Let_def collect_posted_def s)
  with o2(1) e show ?thesis by blast
qed

theorem close_posted_stalls_witness:
  "\<exists>os rc os'. collect_posted True aio_demo = Inr os \<and> OS_Close 3 os = Inr (rc, os') \<and> numRdPosted os' = 1
    \<and> readFdSetPost os' = {} \<and> (\<forall>(call :: unit async_proc) tmo. OS_DoIo call tmo ((), os') = Inr (0, (), os'))"
proof -
  have n: "\<forall>wr. num_posted aio_demo wr = 0" using aio_demo(6) by simp
  have "aio_at aio_demo (False, 3) \<noteq> None" by (simp add: aio_demo(2))
  then have "3 \<in> pend aio_demo False" using aio_demo(1,5) unfolding aio_inv_def ops_ok_def by (metis Un_empty_right)
  then have p: "pend aio_demo False \<inter> {3} = {3}" by auto
  from collect_posted_ok [OF aio_demo(1,3) n, of True] obtain o1 where
    o1: "collect_posted True aio_demo = Inr o1" "aio_inv o1" "asyncIoInUse o1"
      "\<forall>wr. posted o1 wr = pend aio_demo wr \<inter> (if wr then {} else {3})" using aio_demo(7) by auto
  have "readFdSetPost o1 = {3}" "writeFdSetPost o1 = {}"
    using o1(4) [rule_format, of False] o1(4) [rule_format, of True] p by (simp_all add: posted_def)
  from close_posted_stalls [OF o1(2,3) this, where 'a = unit] o1(1) show ?thesis by auto
qed

text \<open>
  C9.  While asynchronous I/O is in use, closing a descriptor whose slots are beyond the table reads
  the table out of bounds: unlike the operations that enqueue, \<open>OS_Close\<close> does not grow it.
\<close>

theorem close_beyond_table:
  assumes "table_ok os" "asyncIoInUse os" "int (asyncIoTableSize os) \<le> 2 * fd"
  shows "OS_Close fd os = Inl OutOfBounds"
proof -
  have "forget fd os = Inl OutOfBounds" using assms by (auto simp: forget_def fd_guard_def aio_release_def AIO_RD_IX_def table_ok_def)
  moreover have "fd \<noteq> - 1" using assms(3) by auto
  ultimately show ?thesis using Close_forgets(1) [OF assms(2)] by blast
qed

theorem close_beyond_table_witness: "OS_Close 2048 aio_demo = Inl OutOfBounds"
proof -
  have t: "table_ok aio_demo" using aio_demo(1) by (simp add: aio_inv_def)
  from table_size [OF t] have "int (asyncIoTableSize aio_demo) \<le> 2 * 2048" by simp
  with t show ?thesis by (rule close_beyond_table [OF _ aio_demo(7)])
qed

section \<open>Child processes\<close>

text \<open>
  C10.  \<open>OS_SpawnChild\<close> with a listening socket other than descriptor 0: the parent's state is
  untouched; the child runs the application with the listening socket as descriptor 0 and with the
  old descriptor of the socket, standard output and standard error closed.
\<close>

theorem spawn_child_listens:
  assumes "0 < listenFd" "opened (conns os listenFd)" "pid \<noteq> 0"
  shows "OS_SpawnChild path listenFd (Inr pid) e os = Inr (Returned 0 os)
    \<and> (\<exists>os'. OS_SpawnChild path listenFd (Inr 0) 0 os = Inr (Running path os')
         \<and> conns os' 0 = conns os listenFd \<and> listening os' 0 = listening os listenFd \<and> bound os' 0 = bound os listenFd
         \<and> \<not> opened (conns os' listenFd) \<and> \<not> opened (conns os' 1) \<and> \<not> opened (conns os' 2))"
  using assms by (auto simp: OS_SpawnChild_def sys_close_def sys_dup2_def Let_def)

theorem spawn_child_listens_witness:
  "OS_SpawnChild (chars ''app'') 5 (Inr 77) 0 idle_os = Inr (Returned 0 idle_os)
    \<and> (\<exists>os'. OS_SpawnChild (chars ''app'') 5 (Inr 0) 0 idle_os = Inr (Running (chars ''app'') os')
         \<and> conns os' 0 = idle_conn \<and> \<not> opened (conns os' 5))"
  using spawn_child_listens [of 5 idle_os 77 "chars ''app''" 0] by auto

text \<open>
  C11.  When the listening socket already is descriptor 0 of the parent, the case in which nothing
  should be left to do, and it is the parent's only listening descriptor, the child closes it: the application
  is run, but none of its open descriptors is a listening socket and descriptor 0 is closed, while
  the parent reports success and still listens.
\<close>

theorem spawn_child_stdin_closed:
  assumes "opened (conns os 0)" "listening os 0 = Some backlog"
    "\<forall>fd. fd \<noteq> 0 \<and> opened (conns os fd) \<longrightarrow> listening os fd = None" "pid \<noteq> 0"
  shows "OS_SpawnChild path 0 (Inr pid) e os = Inr (Returned 0 os)
    \<and> (\<exists>os'. OS_SpawnChild path 0 (Inr 0) 0 os = Inr (Running path os') \<and> \<not> opened (conns os' 0)
         \<and> (\<forall>fd. opened (conns os' fd) \<longrightarrow> opened (conns os fd) \<and> listening os' fd = None))"
  using assms by (auto simp: OS_SpawnChild_def sys_close_def Let_def)

theorem spawn_child_stdin_closed_witness:
  "\<exists>os'. OS_SpawnChild (chars ''app'') 0 (Inr 0) 0 (idle_os\<lparr>listening := [0 \<mapsto> 5]\<rparr>) = Inr (Running (chars ''app'') os')
    \<and> \<not> opened (conns os' 0) \<and> (\<forall>fd. opened (conns os' fd) \<longrightarrow> listening os' fd = None)"
  using spawn_child_stdin_closed [of "idle_os\<lparr>listening := [0 \<mapsto> 5]\<rparr>" 5 77 "chars ''app''" 0] by auto

end
