(* ===== verification/Os_Win32.thy ===== *)
theory Os_Win32
  imports Fcgi_Prelude
begin

text \<open>
  The Windows operating system layer \<open>libfcgi/os_win32.c\<close>: a table that gives Windows handles and
  sockets small integers as descriptors, synchronous and overlapped I/O over it, listening on a
  named pipe or a TCP port, accepting, and the dispatcher of completed operations.

  The Windows API is the environment.  Every call of it is logged in \<open>calls\<close>, and its results are
  given by \<open>win_answer\<close>, an arbitrary function of the calls made so far, so the definitions and the
  theorems cover every behaviour of the API.  Only three things are fixed about it: a completion
  port is a queue, only overlapped operations in progress complete, each once, and \<open>WSAAccept\<close> asks
  the condition function it is given about the client.  The model is that of 32-bit Windows: a
  \<open>HANDLE\<close> and a \<open>SOCKET\<close> are 32-bit numbers.  The thread that waits for the shutdown event runs at
  the calls of the API; otherwise the operations run one after another, so the critical section of
  the table is left out.
\<close>

section \<open>State\<close>

type_synonym HANDLE = int

abbreviation (input) INVALID_HANDLE_VALUE :: HANDLE where "INVALID_HANDLE_VALUE \<equiv> - 1"
abbreviation (input) INVALID_SOCKET :: HANDLE where "INVALID_SOCKET \<equiv> - 1"
abbreviation (input) SOCKET_ERROR :: int where "SOCKET_ERROR \<equiv> - 1"
abbreviation (input) NULL_HANDLE :: HANDLE where "NULL_HANDLE \<equiv> 0"
abbreviation (input) WIN32_OPEN_MAX :: nat where "WIN32_OPEN_MAX \<equiv> 128"
abbreviation (input) STDIN_NO :: int where "STDIN_NO \<equiv> 0"
abbreviation (input) ULONG_MAX :: int where "ULONG_MAX \<equiv> 4294967295"
abbreviation (input) NO_ERROR :: int where "NO_ERROR \<equiv> 0"
abbreviation (input) ERROR_NO_DATA :: int where "ERROR_NO_DATA \<equiv> 232"
abbreviation (input) ERROR_PIPE_NOT_CONNECTED :: int where "ERROR_PIPE_NOT_CONNECTED \<equiv> 233"
abbreviation (input) ERROR_PIPE_CONNECTED :: int where "ERROR_PIPE_CONNECTED \<equiv> 535"
abbreviation (input) ERROR_IO_PENDING :: int where "ERROR_IO_PENDING \<equiv> 997"
abbreviation (input) WSAECONNREFUSED :: int where "WSAECONNREFUSED \<equiv> 10061"
abbreviation (input) WAIT_FAILED :: int where "WAIT_FAILED \<equiv> - 1"

datatype FILE_TYPE = FD_UNUSED | FD_FILE_SYNC | FD_FILE_ASYNC | FD_SOCKET_SYNC | FD_SOCKET_ASYNC
  | FD_PIPE_SYNC | FD_PIPE_ASYNC

record FD_TABLE =
  fid :: HANDLE
  ftype :: FILE_TYPE
  fpath :: "bytes option"
  fErrno :: int
  finstance :: nat
  fstatus :: int
  foffset :: int
  offsetHighPtr :: "nat option"
  offsetLowPtr :: "nat option"
  hMapMutex :: HANDLE

text \<open>The request of an overlapped operation, in a block of its own.\<close>

record OVERLAPPED_REQUEST =
  ovOffset :: "32 word"
  ovOffsetHigh :: "32 word"
  ovInstance :: nat
  ovProc :: nat
  ovClientData :: nat
  ovClientData1 :: nat

text \<open>An entry of a completion port: the number of bytes, the completion key, the request.\<close>

type_synonym completion = "nat \<times> int \<times> nat"

record sockaddr_in =
  sin_inet :: bool
  sin_addr :: bytes

datatype sys_call =
    Getenv bytes | Malloc int | Ftime | GetLastError | Beginthread bytes | CreateProcess bytes HANDLE | CreateMutex
  | WaitForSingleObject HANDLE | ReleaseMutex HANDLE

datatype handle_call =
    GetStdHandle int | SetStdHandle int HANDLE | DuplicateHandle HANDLE | CloseHandle HANDLE | SetHandleInformation HANDLE bool
  | ReadFile HANDLE nat "nat option" | ReadFileTo HANDLE nat nat | WriteFile HANDLE bytes "nat option" | CancelIo HANDLE
  | CreateIoCompletionPort HANDLE HANDLE int | GetQueuedCompletionStatus HANDLE int | PostQueuedCompletionStatus HANDLE completion

datatype pipe_call =
    CreateNamedPipe bytes | CreateFile bytes | SetNamedPipeHandleState HANDLE | ConnectNamedPipe HANDLE | DisconnectNamedPipe HANDLE
  | FlushFileBuffers HANDLE

datatype sock_call =
    WSAStartup | WSACleanup | WSAGetLastError | Socket | Bind HANDLE "16 word" | Listen HANDLE int | Gethostbyname bytes
  | Connect HANDLE bytes "16 word" | Select HANDLE | Accept HANDLE | WSAAccept HANDLE | Recv HANDLE nat | Send HANDLE bytes
  | Shutdown HANDLE int | Closesocket HANDLE | Ioctlsocket HANDLE

datatype win_call = Sys sys_call | Handle handle_call | Pipe pipe_call | Sock sock_call

text \<open>
  What a call returns: a number, the bytes it transferred, a string or nothing (\<open>getenv\<close>, the address of a host),
  the address of a client, the overlapped operations that completed since (their places in \<open>pending\<close> and
  numbers of bytes), and the time in milliseconds; \<open>rshut\<close> says that
  the shutdown event was signalled in the meantime.
\<close>

record api_answer =
  ret :: int
  rbytes :: bytes
  rstr :: "bytes option"
  rpeer :: sockaddr_in
  rdone :: "(nat \<times> nat) list"
  rtime :: int
  rshut :: bool

record win32 =
  hIoCompPort :: HANDLE
  hStdinCompPort :: HANDLE
  hStdinThread :: HANDLE
  stdioHandles :: "HANDLE list"
  acceptMutex :: HANDLE
  wShutdownPending :: bool
  wShutdownNow :: bool
  listenType :: FILE_TYPE
  hListen :: HANDLE
  wLibInitialized :: bool
  fdTable :: "FD_TABLE list"
  ovs :: "nat \<rightharpoonup> OVERLAPPED_REQUEST"
  nextOv :: nat
  pending :: "(int \<times> nat) list"
  queues :: "HANDLE \<Rightarrow> completion list"
  dwords :: "nat \<Rightarrow> 32 word"
  calls :: "win_call list"
  win_answer :: "win_call list \<Rightarrow> api_answer"

section \<open>Code that uses the state, may fail and calls the API\<close>

type_synonym 'a win = "win32 \<Rightarrow> ('a \<times> win32) res"

definition retW :: "'a \<Rightarrow> 'a win" where "retW x w = Inr (x, w)"
definition failW :: "fault \<Rightarrow> 'a win" where "failW e w = Inl e"
definition bindW :: "'a win \<Rightarrow> ('a \<Rightarrow> 'b win) \<Rightarrow> 'b win" where
  "bindW m f w = bindR (m w) (\<lambda>(x, w). f x w)"
definition thenW :: "'a win \<Rightarrow> 'b win \<Rightarrow> 'b win" where "thenW m n = bindW m (\<lambda>_. n)"
definition getW :: "(win32 \<Rightarrow> 'a) \<Rightarrow> 'a win" where "getW f w = Inr (f w, w)"
definition modW :: "(win32 \<Rightarrow> win32) \<Rightarrow> unit win" where "modW f w = Inr ((), f w)"
definition assertW :: "bool \<Rightarrow> unit win" where "assertW b w = bindR (ASSERT b) (\<lambda>_. Inr ((), w))"
definition whenW :: "bool \<Rightarrow> 'a win \<Rightarrow> unit win" where "whenW b m = (if b then thenW m (retW ()) else retW ())"

text \<open>The thread that waits for the shutdown event, once the event is signalled.\<close>

definition ShutdownRequestThread :: "unit win" where
  "ShutdownRequestThread =
     thenW (modW (\<lambda>w. w\<lparr>wShutdownPending := True\<rparr>))
       (bindW (getW listenType) (\<lambda>t. if t = FD_PIPE_SYNC then failW (Exit 0) else retW ()))"

definition api :: "win_call \<Rightarrow> api_answer win" where
  "api c = bindW (getW (\<lambda>w. win_answer w (calls w @ [c]))) (\<lambda>a.
     thenW (modW (\<lambda>w. w\<lparr>calls := calls w @ [c]\<rparr>))
       (thenW (whenW (rshut a) ShutdownRequestThread) (retW a)))"

definition entry :: "int \<Rightarrow> FD_TABLE win" where
  "entry fd w = (if 0 \<le> fd \<and> nat fd < length (fdTable w) then Inr (fdTable w ! nat fd, w) else Inl OutOfBounds)"

definition set_entry :: "int \<Rightarrow> (FD_TABLE \<Rightarrow> FD_TABLE) \<Rightarrow> unit win" where
  "set_entry fd f = bindW (entry fd) (\<lambda>e. modW (\<lambda>w. w\<lparr>fdTable := (fdTable w)[nat fd := f e]\<rparr>))"

definition valid_fd :: "int \<Rightarrow> bool" where "valid_fd fd \<longleftrightarrow> 0 \<le> fd \<and> fd < int WIN32_OPEN_MAX"

definition int_handle :: "HANDLE \<Rightarrow> bool" where "int_handle h \<longleftrightarrow> INT_MIN \<le> h \<and> h \<le> INT_MAX"

text \<open>
  Completion ports.  An overlapped operation in progress is in \<open>pending\<close> with its descriptor, the
  completion key of its handle; the environment completes operations in any order, and each
  becomes an entry of the port \<open>hIoCompPort\<close>.
\<close>

fun complete_io :: "(nat \<times> nat) list \<Rightarrow> (int \<times> nat) list \<Rightarrow> completion list \<times> (int \<times> nat) list" where
  "complete_io [] ps = ([], ps)"
| "complete_io ((i, n) # ds) ps =
     (if i < length ps
      then let (cs, rest) = complete_io ds (take i ps @ drop (Suc i) ps) in ((n, ps ! i) # cs, rest)
      else complete_io ds ps)"

definition arrive :: "(nat \<times> nat) list \<Rightarrow> unit win" where
  "arrive ds = modW (\<lambda>w. let (cs, ps) = complete_io ds (pending w) in
     w\<lparr>pending := ps, queues := (queues w)(hIoCompPort w := queues w (hIoCompPort w) @ cs)\<rparr>)"

definition post :: "HANDLE \<Rightarrow> completion \<Rightarrow> unit win" where
  "post port c = thenW (api (Handle (PostQueuedCompletionStatus port c)))
     (modW (\<lambda>w. w\<lparr>queues := (queues w)(port := queues w port @ [c])\<rparr>))"

definition dequeue :: "HANDLE \<Rightarrow> int \<Rightarrow> completion option win" where
  "dequeue port ms = bindW (api (Handle (GetQueuedCompletionStatus port ms))) (\<lambda>a.
     thenW (arrive (rdone a))
     (bindW (getW (\<lambda>w. queues w port)) (\<lambda>q.
      thenW (modW (\<lambda>w. w\<lparr>queues := (queues w)(port := tl q)\<rparr>)) (retW (case q of [] \<Rightarrow> None | c # _ \<Rightarrow> Some c)))))"

section \<open>The descriptor table\<close>

definition strToHandle :: "bytes \<Rightarrow> HANDLE" where "strToHandle str = wrap32 (atoi str)"

definition unused :: "FD_TABLE list \<Rightarrow> nat \<Rightarrow> bool" where "unused t i \<longleftrightarrow> ftype (t ! i) = FD_UNUSED"

definition new_index :: "FD_TABLE list \<Rightarrow> int \<Rightarrow> int \<Rightarrow> int" where
  "new_index t fd desiredFd =
     (if valid_fd desiredFd
      then if unused t (nat desiredFd) then desiredFd else - 1
      else if 0 < fd
      then if fd < int WIN32_OPEN_MAX \<and> unused t (nat fd) then fd
        else case find (unused t) [1..<WIN32_OPEN_MAX] of Some i \<Rightarrow> int i | None \<Rightarrow> - 1
      else - 1)"

definition Win32NewDescriptor :: "FILE_TYPE \<Rightarrow> int \<Rightarrow> int \<Rightarrow> int win" where
  "Win32NewDescriptor ty fd desiredFd =
     bindW (getW (\<lambda>w. new_index (fdTable w) fd desiredFd)) (\<lambda>index.
     thenW (whenW (index \<noteq> - 1)
       (set_entry index (\<lambda>e. e\<lparr>fid := fd, ftype := ty, fpath := None, fErrno := NO_ERROR, fstatus := 0, foffset := - 1,
          offsetHighPtr := None, offsetLowPtr := None, hMapMutex := NULL_HANDLE\<rparr>)))
     (retW index))"

definition Win32FreeDescriptor :: "int \<Rightarrow> unit win" where
  "Win32FreeDescriptor fd =
     thenW (assertW (valid_fd fd))
     (bindW (entry fd) (\<lambda>e. whenW (ftype e \<noteq> FD_UNUSED)
       (let isfile = ftype e = FD_FILE_SYNC \<or> ftype e = FD_FILE_ASYNC in
        thenW (whenW isfile (thenW (assertW (fpath e \<noteq> None)) (set_entry fd (\<lambda>e. e\<lparr>fpath := None\<rparr>))))
        (thenW (bindW (entry fd) (\<lambda>e. assertW (fpath e = None)))
        (thenW (set_entry fd (\<lambda>e. e\<lparr>ftype := FD_UNUSED, fpath := None, fErrno := NO_ERROR, offsetHighPtr := None, offsetLowPtr := None\<rparr>))
        (whenW (hMapMutex e \<noteq> NULL_HANDLE)
          (thenW (api (Handle (CloseHandle (hMapMutex e)))) (set_entry fd (\<lambda>e. e\<lparr>hMapMutex := NULL_HANDLE\<rparr>)))))))))"

section \<open>Rules\<close>

text \<open>
  \<open>wpW m Q w\<close>: run in \<open>w\<close>, \<open>m\<close> ends with a result and a state that satisfy \<open>Q\<close>, or the process exits,
  waits for ever or exceeds the rounds of a loop; no assertion fails and no memory is misused.
\<close>

definition benign :: "fault \<Rightarrow> bool" where
  "benign e \<longleftrightarrow> (case e of Exit _ \<Rightarrow> True | Blocked \<Rightarrow> True | OutOfFuel \<Rightarrow> True | _ \<Rightarrow> False)"

definition wpW :: "'a win \<Rightarrow> ('a \<Rightarrow> win32 \<Rightarrow> bool) \<Rightarrow> win32 \<Rightarrow> bool" where
  "wpW m Q w \<longleftrightarrow> (case m w of Inl e \<Rightarrow> benign e | Inr (x, w') \<Rightarrow> Q x w')"

named_theorems wp_simps "weakest preconditions of the combinators"

lemma benign_simps [simp]:
  "benign (Exit n)" "benign Blocked" "benign OutOfFuel" "\<not> benign Assertion" "\<not> benign OutOfBounds" "\<not> benign NullDeref"
  "\<not> benign UseAfterFree" "\<not> benign HeapOverflow" "\<not> benign StackOverflow"
  by (simp_all add: benign_def)

lemma wp_combinators [wp_simps]:
  "wpW (retW x) Q = Q x"
  "wpW (failW e) Q = (\<lambda>_. benign e)"
  "wpW (bindW m f) Q = wpW m (\<lambda>x. wpW (f x) Q)"
  "wpW (thenW m n) Q = wpW m (\<lambda>_. wpW n Q)"
  "wpW (getW g) Q = (\<lambda>w. Q (g w) w)"
  "wpW (modW h) R = (\<lambda>w. R () (h w))"
  "wpW (assertW b) R = (\<lambda>w. b \<and> R () w)"
  by (auto simp: fun_eq_iff wpW_def retW_def failW_def bindW_def thenW_def getW_def modW_def assertW_def bindR_def ASSERT_def
      split: sum.splits prod.splits)

lemma wp_when [wp_simps]: "wpW (whenW b m) R = (\<lambda>w. if b then wpW m (\<lambda>_. R ()) w else R () w)"
  by (simp add: whenW_def wp_simps fun_eq_iff)

lemma wp_entry [wp_simps]: "wpW (entry fd) Q = (\<lambda>w. 0 \<le> fd \<and> nat fd < length (fdTable w) \<and> Q (fdTable w ! nat fd) w)"
  by (auto simp: wpW_def entry_def fun_eq_iff)

lemma wp_set_entry [wp_simps]:
  "wpW (set_entry fd f) Q = (\<lambda>w. 0 \<le> fd \<and> nat fd < length (fdTable w) \<and> Q () (w\<lparr>fdTable := (fdTable w)[nat fd := f (fdTable w ! nat fd)]\<rparr>))"
  by (simp add: set_entry_def wp_simps)

lemma wp_cases [wp_simps]:
  "wpW (if b then m else n) Q = (\<lambda>w. if b then wpW m Q w else wpW n Q w)"
  "wpW (case_option m f x) Q = (\<lambda>w. case x of None \<Rightarrow> wpW m Q w | Some y \<Rightarrow> wpW (f y) Q w)"
  "wpW (case_prod g p) Q = (\<lambda>w. case p of (a, b) \<Rightarrow> wpW (g a b) Q w)"
  by (auto simp: fun_eq_iff split: option.splits prod.splits)

lemma wpW_mono: "wpW m Q w \<Longrightarrow> (\<And>x w'. Q x w' \<Longrightarrow> R x w') \<Longrightarrow> wpW m R w"
  by (auto simp: wpW_def split: sum.splits)

lemma wpW_Inr: "wpW m Q w \<Longrightarrow> m w = Inr (x, w') \<Longrightarrow> Q x w'"
  by (simp add: wpW_def)

section \<open>The invariant of the descriptor table\<close>

text \<open>
  The table keeps its size; no code of this file opens a file, so no entry is of a file type, and
  no entry has a path or a mutex; the instance number of an entry is that of the program start.
  The numbers the API returns have 32 bits.
\<close>

definition no_file :: "FILE_TYPE \<Rightarrow> bool" where "no_file ty \<longleftrightarrow> ty \<noteq> FD_FILE_SYNC \<and> ty \<noteq> FD_FILE_ASYNC"

definition plain_entry :: "FD_TABLE \<Rightarrow> bool" where
  "plain_entry e \<longleftrightarrow> no_file (ftype e) \<and> fpath e = None \<and> hMapMutex e = NULL_HANDLE \<and> finstance e = 0"

definition winv :: "win32 \<Rightarrow> bool" where
  "winv w \<longleftrightarrow> length (fdTable w) = WIN32_OPEN_MAX \<and> length (stdioHandles w) = 3 \<and> (\<forall>e \<in> set (fdTable w). plain_entry e)
     \<and> no_file (listenType w) \<and> int_handle (hListen w) \<and> (\<forall>cs. int_handle (ret (win_answer w cs)))"

lemma no_file_simps [simp]: "no_file FD_UNUSED" "no_file FD_PIPE_SYNC" "no_file FD_PIPE_ASYNC" "no_file FD_SOCKET_SYNC" "no_file FD_SOCKET_ASYNC"
  by (simp_all add: no_file_def)

lemma winv_length: "winv w \<Longrightarrow> length (fdTable w) = WIN32_OPEN_MAX"
  by (simp add: winv_def)

lemma winv_entry: "winv w \<Longrightarrow> 0 \<le> fd \<Longrightarrow> nat fd < WIN32_OPEN_MAX \<Longrightarrow> plain_entry (fdTable w ! nat fd)"
  by (simp add: winv_def)

lemma winv_listen: "winv w \<Longrightarrow> no_file (listenType w)" "winv w \<Longrightarrow> int_handle (hListen w)"
  by (simp_all add: winv_def)

lemma winv_update [simp]:
  "winv (w\<lparr>calls := cs\<rparr>) = winv w" "winv (w\<lparr>wShutdownPending := b\<rparr>) = winv w" "winv (w\<lparr>hIoCompPort := h\<rparr>) = winv w"
  "winv (w\<lparr>hStdinCompPort := h\<rparr>) = winv w" "winv (w\<lparr>hStdinThread := h\<rparr>) = winv w" "winv (w\<lparr>acceptMutex := h\<rparr>) = winv w"
  "winv (w\<lparr>wLibInitialized := b\<rparr>) = winv w"
  "winv (w\<lparr>ovs := q\<rparr>) = winv w" "winv (w\<lparr>nextOv := n\<rparr>) = winv w" "winv (w\<lparr>queues := u\<rparr>) = winv w" "winv (w\<lparr>pending := ps\<rparr>) = winv w" "winv (w\<lparr>dwords := d\<rparr>) = winv w"
  "winv (w\<lparr>stdioHandles := (stdioHandles w)[i := h]\<rparr>) = winv w"
  "winv w \<Longrightarrow> no_file ty \<Longrightarrow> winv (w\<lparr>listenType := ty\<rparr>)" "winv w \<Longrightarrow> int_handle h \<Longrightarrow> winv (w\<lparr>hListen := h\<rparr>)"
  by (auto simp: winv_def)

lemma winv_table [simp]:
  "winv (w\<lparr>calls := cs, fdTable := t\<rparr>) = winv (w\<lparr>fdTable := t\<rparr>)" "winv (w\<lparr>wShutdownPending := b, fdTable := t\<rparr>) = winv (w\<lparr>fdTable := t\<rparr>)"
  "winv (w\<lparr>ovs := q, fdTable := t\<rparr>) = winv (w\<lparr>fdTable := t\<rparr>)" "winv (w\<lparr>nextOv := n, fdTable := t\<rparr>) = winv (w\<lparr>fdTable := t\<rparr>)"
  "winv (w\<lparr>queues := u, fdTable := t\<rparr>) = winv (w\<lparr>fdTable := t\<rparr>)" "winv (w\<lparr>pending := ps, fdTable := t\<rparr>) = winv (w\<lparr>fdTable := t\<rparr>)"
  by (auto simp: winv_def)

text \<open>A call of the API changes the log, and possibly the request to shut down.\<close>

lemma wp_api_log:
  assumes "\<And>b. Q (win_answer w (calls w @ [c])) (w\<lparr>calls := calls w @ [c], wShutdownPending := b\<rparr>)"
  shows "wpW (api c) Q w"
proof -
  from assms [of "wShutdownPending w"] have "Q (win_answer w (calls w @ [c])) (w\<lparr>calls := calls w @ [c]\<rparr>)" by simp
  with assms show ?thesis by (simp add: api_def ShutdownRequestThread_def wp_simps)
qed

lemma wp_api:
  assumes "winv w" "\<And>a cs b. int_handle (ret a) \<Longrightarrow> Q a (w\<lparr>calls := cs, wShutdownPending := b\<rparr>)"
  shows "wpW (api c) Q w"
  using assms by (intro wp_api_log) (simp add: winv_def)

lemma winv_set_entry [simp]:
  "winv w \<Longrightarrow> plain_entry e \<Longrightarrow> winv (w\<lparr>fdTable := (fdTable w)[i := e]\<rparr>)"
  using set_update_subset_insert [of "fdTable w" i e] by (auto simp: winv_def)

lemma find_unused: "find (unused t) [1..<WIN32_OPEN_MAX] = Some i \<Longrightarrow> 1 \<le> i \<and> i < WIN32_OPEN_MAX \<and> unused t i"
  by (auto simp: find_Some_iff)

lemma new_index_range:
  assumes "new_index t fd desiredFd \<noteq> - 1"
  shows "0 \<le> new_index t fd desiredFd" "new_index t fd desiredFd < int WIN32_OPEN_MAX" "unused t (nat (new_index t fd desiredFd))"
  using assms find_unused [of t]
  by (auto simp: new_index_def valid_fd_def split: if_splits option.splits)

text \<open>A new descriptor: the entry it takes was unused, and nothing else changes.\<close>

definition new_entry :: "FILE_TYPE \<Rightarrow> int \<Rightarrow> FD_TABLE \<Rightarrow> FD_TABLE" where
  "new_entry ty fd e = e\<lparr>fid := fd, ftype := ty, fpath := None, fErrno := NO_ERROR, fstatus := 0, foffset := - 1,
     offsetHighPtr := None, offsetLowPtr := None, hMapMutex := NULL_HANDLE\<rparr>"

lemma wp_new_descriptor:
  assumes "winv w" "no_file ty"
    and "\<And>i. i \<noteq> - 1 \<Longrightarrow> 0 \<le> i \<Longrightarrow> i < int WIN32_OPEN_MAX \<Longrightarrow> unused (fdTable w) (nat i) \<Longrightarrow>
      winv (w\<lparr>fdTable := (fdTable w)[nat i := new_entry ty fd (fdTable w ! nat i)]\<rparr>) \<Longrightarrow>
      Q i (w\<lparr>fdTable := (fdTable w)[nat i := new_entry ty fd (fdTable w ! nat i)]\<rparr>)"
    and "new_index (fdTable w) fd desiredFd = - 1 \<Longrightarrow> Q (- 1) w"
  shows "wpW (Win32NewDescriptor ty fd desiredFd) Q w"
proof (cases "new_index (fdTable w) fd desiredFd = - 1")
  case False
  let ?i = "new_index (fdTable w) fd desiredFd"
  note r = new_index_range [OF False]
  have e: "plain_entry (fdTable w ! nat ?i)" using r by (intro winv_entry [OF assms(1)]) simp_all
  then have "winv (w\<lparr>fdTable := (fdTable w)[nat ?i := new_entry ty fd (fdTable w ! nat ?i)]\<rparr>)"
    using assms(1,2) by (intro winv_set_entry) (simp_all add: new_entry_def plain_entry_def)
  with assms(3) [OF False] r False assms(1) show ?thesis
    by (simp add: Win32NewDescriptor_def wp_simps winv_length new_entry_def nat_less_iff)
qed (use assms(4) in \<open>simp add: Win32NewDescriptor_def wp_simps\<close>)

lemma wp_free_descriptor:
  assumes "winv w" "valid_fd fd"
    and "\<And>t. winv (w\<lparr>fdTable := t\<rparr>) \<Longrightarrow> unused t (nat fd) \<Longrightarrow> (\<forall>i. i \<noteq> nat fd \<longrightarrow> t ! i = fdTable w ! i) \<Longrightarrow> Q () (w\<lparr>fdTable := t\<rparr>)"
  shows "wpW (Win32FreeDescriptor fd) Q w"
proof -
  let ?e = "fdTable w ! nat fd"
  have r: "0 \<le> fd" "nat fd < WIN32_OPEN_MAX" using assms(2) by (auto simp: valid_fd_def)
  note p = winv_entry [OF assms(1) r]
  have Q: "winv (w\<lparr>fdTable := t\<rparr>) \<Longrightarrow> unused t (nat fd) \<Longrightarrow> (\<forall>i. i \<noteq> nat fd \<longrightarrow> t ! i = fdTable w ! i) \<Longrightarrow> Q () (w\<lparr>fdTable := t\<rparr>)" for t
    using assms(3) by blast
  show ?thesis
  proof (cases "ftype ?e = FD_UNUSED")
    case True
    with Q [of "fdTable w"] assms(1,2) r show ?thesis by (simp add: Win32FreeDescriptor_def wp_simps winv_length unused_def)
  next
    case False
    let ?u = "?e\<lparr>ftype := FD_UNUSED, fpath := None, fErrno := NO_ERROR, offsetHighPtr := None, offsetLowPtr := None\<rparr>"
    have "winv (w\<lparr>fdTable := (fdTable w)[nat fd := ?u]\<rparr>)" using assms(1) p by (simp add: plain_entry_def)
    from Q [OF this] False p assms(1,2) r show ?thesis
      by (simp add: Win32FreeDescriptor_def wp_simps winv_length unused_def plain_entry_def no_file_def)
  qed
qed

end
