(* ===== verification/Os_Win32_Io.thy ===== *)
theory Os_Win32_Io
  imports Os_Win32
begin

text \<open>
  The operations of \<open>libfcgi/os_win32.c\<close>: initialisation, listening and connecting, synchronous
  and overlapped reads and writes, closing, the dispatcher of completed operations, accepting a
  connection on a named pipe or a socket.
\<close>

section \<open>Initialisation\<close>

text \<open>
  \<open>StdinThread\<close> serves the reads requested on the port \<open>hStdinCompPort\<close>.  One round returns whether the
  thread goes on; a round without a request blocks.
\<close>

definition stdin_round :: "bool win" where
  "stdin_round = bindW (getW hStdinCompPort) (\<lambda>port. bindW (dequeue port (- 1)) (\<lambda>c.
     case c of
       None \<Rightarrow> failW Blocked
     | Some (n, fd, ov) \<Rightarrow>
         thenW (assertW (fd = STDIN_NO \<or> fd = - 1))
         (if fd = - 1 then retW False
          else bindW (getW (\<lambda>w. ovs w ov)) (\<lambda>q. case q of
              None \<Rightarrow> failW UseAfterFree
            | Some r \<Rightarrow>
                thenW (assertW (ovClientData1 r \<noteq> 0))
                (bindW (getW (\<lambda>w. stdioHandles w ! 0)) (\<lambda>h. bindW (api (Handle (ReadFileTo h (ovClientData1 r) n))) (\<lambda>a.
                 if ret a \<noteq> 0
                 then bindW (getW hIoCompPort) (\<lambda>p. thenW (post p (length (rbytes a), STDIN_NO, ov)) (retW True))
                 else retW False)))))))"

primrec StdinThread :: "nat \<Rightarrow> unit win" where
  "StdinThread 0 = failW OutOfFuel"
| "StdinThread (Suc k) = bindW stdin_round (\<lambda>doIo. if doIo then StdinThread k else retW ())"

definition OS_ShutdownPending_win32 :: "unit win" where
  "OS_ShutdownPending_win32 = modW (\<lambda>w. w\<lparr>wShutdownPending := True\<rparr>)"

text \<open>The completion port, the shutdown thread and the mutex of \<open>OS_LibInit\<close>; the result says whether it goes on.\<close>

definition LibInit_ports :: "bool win" where
  "LibInit_ports =
     bindW (getW hIoCompPort) (\<lambda>p.
     thenW (whenW (p = INVALID_HANDLE_VALUE) (bindW (api (Handle (CreateIoCompletionPort INVALID_HANDLE_VALUE NULL_HANDLE 0)))
       (\<lambda>a. modW (\<lambda>w. w\<lparr>hIoCompPort := ret a\<rparr>))))
     (bindW (getW hIoCompPort) (\<lambda>p. if p = INVALID_HANDLE_VALUE then retW False
      else bindW (api (Sys (Getenv (chars ''_FCGI_SHUTDOWN_EVENT_'')))) (\<lambda>v.
      bindW (case rstr v of None \<Rightarrow> retW True
             | Some ev \<Rightarrow> bindW (api (Sys (Beginthread (chars ''ShutdownRequestThread'')))) (\<lambda>a. retW (ret a \<noteq> - 1))) (\<lambda>ok.
      if \<not> ok then retW False
      else bindW (getW acceptMutex) (\<lambda>m.
        if m = INVALID_HANDLE_VALUE
        then bindW (api (Sys (Getenv (chars ''_FCGI_MUTEX_'')))) (\<lambda>v.
          thenW (case rstr v of None \<Rightarrow> retW () | Some str \<Rightarrow> modW (\<lambda>w. w\<lparr>acceptMutex := strToHandle str\<rparr>)) (retW True))
        else retW True))))))"

abbreviation (input) STD_INPUT_HANDLE :: int where "STD_INPUT_HANDLE \<equiv> - 10"
abbreviation (input) STD_OUTPUT_HANDLE :: int where "STD_OUTPUT_HANDLE \<equiv> - 11"
abbreviation (input) STD_ERROR_HANDLE :: int where "STD_ERROR_HANDLE \<equiv> - 12"

definition std_handle :: "int \<Rightarrow> HANDLE win" where
  "std_handle n = bindW (api (Handle (GetStdHandle n))) (\<lambda>a. retW (ret a))"

text \<open>Whether the process was started with a listening handle as its standard input, and of which type.\<close>

definition is_listener :: "bool win" where
  "is_listener =
     bindW (std_handle STD_OUTPUT_HANDLE) (\<lambda>h. if h \<noteq> INVALID_HANDLE_VALUE then retW False
     else bindW (std_handle STD_ERROR_HANDLE) (\<lambda>h. if h \<noteq> INVALID_HANDLE_VALUE then retW False
     else bindW (std_handle STD_INPUT_HANDLE) (\<lambda>h. retW (h \<noteq> INVALID_HANDLE_VALUE))))"

definition LibInit_listen :: "bool win" where
  "LibInit_listen =
     bindW is_listener (\<lambda>b. if \<not> b then retW True
     else bindW (std_handle STD_INPUT_HANDLE) (\<lambda>oldStdIn.
       bindW (api (Handle (DuplicateHandle oldStdIn))) (\<lambda>a.
       if ret a = 0 then retW False
       else thenW (modW (\<lambda>w. w\<lparr>hListen := ret a\<rparr>))
        (bindW (api (Handle (SetStdHandle STD_INPUT_HANDLE (ret a)))) (\<lambda>s.
         if ret s = 0 then retW False
         else thenW (api (Handle (CloseHandle oldStdIn)))
          (bindW (api (Pipe (SetNamedPipeHandleState (ret a)))) (\<lambda>p.
           thenW (modW (\<lambda>w. w\<lparr>listenType := if ret p \<noteq> 0 then FD_PIPE_SYNC else FD_SOCKET_SYNC\<rparr>)) (retW True))))))))"

text \<open>
  A standard handle becomes a descriptor.  The result is the descriptor, or nothing when there is
  no room for it.
\<close>

definition std_descriptor :: "int \<Rightarrow> HANDLE \<Rightarrow> int option win" where
  "std_descriptor n h =
     thenW (assertW (int_handle h))
     (bindW (Win32NewDescriptor FD_PIPE_SYNC h n) (\<lambda>fd. retW (if fd = - 1 then None else Some fd)))"

definition std_output :: "int \<Rightarrow> int \<Rightarrow> int option win" where
  "std_output n std =
     bindW (std_handle std) (\<lambda>h.
     thenW (modW (\<lambda>w. w\<lparr>stdioHandles := (stdioHandles w)[nat n := h]\<rparr>))
     (bindW (api (Handle (SetHandleInformation h False))) (\<lambda>a.
      if ret a = 0 then failW (Exit 99) else std_descriptor n h)))"

definition std_input :: "int option win" where
  "std_input =
     bindW (std_handle STD_INPUT_HANDLE) (\<lambda>h.
     thenW (modW (\<lambda>w. w\<lparr>stdioHandles := (stdioHandles w)[0 := h]\<rparr>))
     (thenW (api (Handle (SetHandleInformation h False))) (std_descriptor STDIN_NO h)))"

definition stdin_port :: "bool win" where
  "stdin_port =
     bindW (getW hStdinCompPort) (\<lambda>p.
     thenW (whenW (p = INVALID_HANDLE_VALUE) (bindW (api (Handle (CreateIoCompletionPort INVALID_HANDLE_VALUE NULL_HANDLE 0)))
       (\<lambda>a. modW (\<lambda>w. w\<lparr>hStdinCompPort := ret a\<rparr>))))
     (bindW (getW hStdinCompPort) (\<lambda>p. if p = INVALID_HANDLE_VALUE then retW False
      else bindW (api (Sys (Getenv (chars ''CONTENT_LENGTH'')))) (\<lambda>v.
        if (case rstr v of None \<Rightarrow> False | Some len \<Rightarrow> 0 < atoi len)
        then bindW (api (Sys (Beginthread (chars ''StdinThread'')))) (\<lambda>a.
          thenW (modW (\<lambda>w. w\<lparr>hStdinThread := ret a\<rparr>)) (retW (ret a \<noteq> - 1)))
        else retW True))))"

text \<open>The descriptors of the standard handles, as far as they were stored, and the result.\<close>

definition LibInit_stdio :: "(int \<times> int list) win" where
  "LibInit_stdio =
     bindW std_input (\<lambda>i. case i of None \<Rightarrow> retW (- 1, []) | Some i \<Rightarrow>
     bindW stdin_port (\<lambda>ok. if \<not> ok then retW (- 1, [i]) else
     bindW (std_output 1 STD_OUTPUT_HANDLE) (\<lambda>d. case d of None \<Rightarrow> retW (- 1, [i]) | Some d \<Rightarrow>
     bindW (std_output 2 STD_ERROR_HANDLE) (\<lambda>e. case e of None \<Rightarrow> retW (- 1, [i, d]) | Some e \<Rightarrow>
     retW (0, [i, d, e])))))"

text \<open>\<open>stdio\<close>: whether an array for the standard descriptors is passed.\<close>

definition OS_LibInit_win32 :: "bool \<Rightarrow> (int \<times> int list) win" where
  "OS_LibInit_win32 stdio =
     bindW (getW wLibInitialized) (\<lambda>ini. if ini then retW (0, []) else
     bindW (api (Sock WSAStartup)) (\<lambda>a.
     if ret a \<noteq> 0 then thenW (api (Sock WSAGetLastError)) (failW (Exit 111)) else
     bindW LibInit_ports (\<lambda>ok. if \<not> ok then retW (- 1, []) else
     bindW LibInit_listen (\<lambda>ok. if \<not> ok then retW (- 1, []) else
     if \<not> stdio then thenW (modW (\<lambda>w. w\<lparr>wLibInitialized := True\<rparr>)) (retW (0, []))
     else LibInit_stdio))))"

definition OS_LibShutdown_win32 :: "unit win" where
  "OS_LibShutdown_win32 =
     bindW (getW hIoCompPort) (\<lambda>p.
     thenW (whenW (p \<noteq> INVALID_HANDLE_VALUE)
       (thenW (api (Handle (CloseHandle p))) (modW (\<lambda>w. w\<lparr>hIoCompPort := INVALID_HANDLE_VALUE\<rparr>))))
     (bindW (getW hStdinCompPort) (\<lambda>p.
      thenW (whenW (p \<noteq> INVALID_HANDLE_VALUE)
       (thenW (api (Handle (CloseHandle p))) (modW (\<lambda>w. w\<lparr>hStdinCompPort := INVALID_HANDLE_VALUE\<rparr>))))
     (bindW (getW acceptMutex) (\<lambda>m. thenW (whenW (m \<noteq> INVALID_HANDLE_VALUE) (api (Sys (ReleaseMutex m))))
     (bindW (getW hListen) (\<lambda>h. thenW (api (Pipe (DisconnectNamedPipe h))) (thenW (api (Handle (CancelIo h)))
     (thenW (api (Sock WSACleanup)) (retW ()))))))))))"

section \<open>Listening and connecting\<close>

definition getPort :: "bytes \<Rightarrow> 16 word" where
  "getPort bindPath =
     (case dropWhile (\<lambda>b. b \<noteq> 58) bindPath of
        [] \<Rightarrow> 0
      | _ # p \<Rightarrow> if p = [] then 0 else word_of_int (atoi (take 5 p)))"

abbreviation (input) LOCALHOST :: bytes where "LOCALHOST \<equiv> chars ''localhost''"

text \<open>\<open>bindPathPrefix\<close>\<close>

definition bindPathPrefix :: bytes where
  "bindPathPrefix = [92, 92, 46, 92] @ chars ''pipe'' @ [92] @ chars ''FastCGI'' @ [92]"

definition accept_mutex :: "int win" where
  "accept_mutex =
     bindW (getW acceptMutex) (\<lambda>m. if m \<noteq> INVALID_HANDLE_VALUE then retW 0 else
     bindW (api (Sys CreateMutex)) (\<lambda>a.
     thenW (modW (\<lambda>w. w\<lparr>acceptMutex := ret a\<rparr>))
     (if ret a = NULL_HANDLE then retW (- 2)
      else bindW (api (Handle (SetHandleInformation (ret a) True))) (\<lambda>s. retW (if ret s = 0 then - 3 else 0)))))"

definition listen_port :: "16 word \<Rightarrow> int \<Rightarrow> int win" where
  "listen_port port backlog =
     bindW (api (Sock Socket)) (\<lambda>s. if ret s = INVALID_SOCKET then retW (- 4) else
     bindW (api (Sock (Bind (ret s) port))) (\<lambda>a. if ret a \<noteq> 0 then retW (- 12) else
     bindW (api (Sock (Listen (ret s) backlog))) (\<lambda>a. if ret a \<noteq> 0 then retW (- 5) else
     thenW (assertW (int_handle (ret s)))
     (bindW (getW listenType) (\<lambda>ty. bindW (Win32NewDescriptor ty (ret s) (- 1)) (\<lambda>fd.
      if fd = - 1 then thenW (api (Sock (Closesocket (ret s)))) (retW (- 6))
      else thenW (modW (\<lambda>w. w\<lparr>hListen := ret s\<rparr>)) (retW fd)))))))"

definition listen_pipe :: "bytes \<Rightarrow> int win" where
  "listen_pipe bindPath =
     bindW (api (Sys (Malloc (int (length bindPathPrefix + length bindPath + 1))))) (\<lambda>a. if ret a = 0 then retW (- 7) else
     bindW (api (Pipe (CreateNamedPipe (bindPathPrefix @ bindPath)))) (\<lambda>h. if ret h = INVALID_HANDLE_VALUE then retW (- 8) else
     bindW (api (Handle (SetHandleInformation (ret h) True))) (\<lambda>a. if ret a = 0 then retW (- 9) else
     thenW (assertW (int_handle (ret h)))
     (bindW (getW listenType) (\<lambda>ty. bindW (Win32NewDescriptor ty (ret h) (- 1)) (\<lambda>fd.
      if fd = - 1 then thenW (api (Handle (CloseHandle (ret h)))) (retW (- 10))
      else thenW (modW (\<lambda>w. w\<lparr>hListen := ret h\<rparr>)) (retW fd)))))))"

definition OS_CreateLocalIpcFd_win32 :: "bytes \<Rightarrow> int \<Rightarrow> int win" where
  "OS_CreateLocalIpcFd_win32 bindPath backlog =
     (let port = getPort bindPath in
      bindW accept_mutex (\<lambda>rc. if rc \<noteq> 0 then retW rc
      else if port \<noteq> 0 \<and> hd bindPath \<noteq> 58 \<and> take 9 bindPath \<noteq> LOCALHOST then failW (Exit 1)
      else thenW (modW (\<lambda>w. w\<lparr>listenType := if port \<noteq> 0 then FD_SOCKET_SYNC else FD_PIPE_ASYNC\<rparr>))
        (if port \<noteq> 0 then listen_port port backlog else listen_pipe bindPath)))"

text \<open>
  The host name of \<open>OS_FcgiConnect\<close>: a block of \<open>len\<close> bytes is filled with the name and the colon,
  and the NUL is stored behind it.
\<close>

definition host_block :: "bytes \<Rightarrow> bytes option win" where
  "host_block bindPath =
     (if hd bindPath = 58 then retW None
      else let len = Suc (length (takeWhile (\<lambda>b. b \<noteq> 58) bindPath)) in
        bindW (api (Sys (Malloc (int len)))) (\<lambda>a.
        if ret a = 0 then failW NullDeref
        else let host = take len bindPath in
          if len < length host then retW (Some (host[len := 0])) else failW HeapOverflow))"

definition connect_port :: "bytes \<Rightarrow> 16 word \<Rightarrow> int win" where
  "connect_port bindPath port =
     bindW (host_block bindPath) (\<lambda>host.
     bindW (api (Sock (Gethostbyname (case host of Some h \<Rightarrow> cstr h | None \<Rightarrow> LOCALHOST)))) (\<lambda>hp.
     case rstr hp of None \<Rightarrow> retW (- 1) | Some addr \<Rightarrow>
     bindW (api (Sock Socket)) (\<lambda>s. if ret s = INVALID_SOCKET then retW (- 1) else
     bindW (api (Sock (Connect (ret s) addr port))) (\<lambda>c.
     if ret c = 0 then thenW (api (Sock (Closesocket (ret s)))) (retW (- 1)) else
     thenW (assertW (int_handle (ret s)))
     (bindW (Win32NewDescriptor FD_SOCKET_SYNC (ret s) (- 1)) (\<lambda>fd.
      if fd = - 1 then thenW (api (Sock (Closesocket (ret s)))) (retW (- 1)) else retW fd))))))"

definition connect_pipe :: "bytes \<Rightarrow> int win" where
  "connect_pipe bindPath =
     bindW (api (Sys (Malloc (int (length bindPathPrefix + length bindPath + 1))))) (\<lambda>a. if ret a = 0 then retW (- 1) else
     bindW (api (Pipe (CreateFile (bindPathPrefix @ bindPath)))) (\<lambda>h. if ret h = INVALID_HANDLE_VALUE then retW (- 1) else
     thenW (assertW (int_handle (ret h)))
     (bindW (Win32NewDescriptor FD_PIPE_ASYNC (ret h) (- 1)) (\<lambda>fd.
      if fd = - 1 then thenW (api (Handle (CloseHandle (ret h)))) (retW (- 1)) else
      bindW (getW hIoCompPort) (\<lambda>p. bindW (api (Handle (CreateIoCompletionPort (ret h) p fd))) (\<lambda>c.
      if ret c = 0 then thenW (Win32FreeDescriptor fd) (thenW (api (Handle (CloseHandle (ret h)))) (retW (- 1)))
      else retW fd))))))"

definition OS_FcgiConnect_win32 :: "bytes \<Rightarrow> int win" where
  "OS_FcgiConnect_win32 bindPath =
     (let port = getPort bindPath in if port \<noteq> 0 then connect_port bindPath port else connect_pipe bindPath)"

section \<open>Synchronous input and output\<close>

definition is_handle :: "FILE_TYPE \<Rightarrow> bool" where
  "is_handle t \<longleftrightarrow> t \<in> {FD_FILE_SYNC, FD_FILE_ASYNC, FD_PIPE_SYNC, FD_PIPE_ASYNC}"

definition is_socket :: "FILE_TYPE \<Rightarrow> bool" where
  "is_socket t \<longleftrightarrow> t \<in> {FD_SOCKET_SYNC, FD_SOCKET_ASYNC}"

text \<open>\<open>OS_Read\<close> returns its result and the bytes stored in the caller's buffer.\<close>

definition OS_Read_win32 :: "int \<Rightarrow> nat \<Rightarrow> (int \<times> bytes) win" where
  "OS_Read_win32 fd len =
     thenW (assertW (valid_fd fd))
     (bindW (getW wShutdownNow) (\<lambda>sd. if sd then retW (- 1, []) else
      bindW (entry fd) (\<lambda>e.
      if is_handle (ftype e)
      then thenW (assertW (int len \<le> ULONG_MAX)) (bindW (api (Handle (ReadFile (fid e) len None))) (\<lambda>a.
        if ret a \<noteq> 0 then retW (wrap32 (int (length (rbytes a))), rbytes a)
        else bindW (api (Sys GetLastError)) (\<lambda>err. thenW (set_entry fd (\<lambda>e. e\<lparr>fErrno := ret err\<rparr>)) (retW (- 1, [])))))
      else if is_socket (ftype e)
      then thenW (assertW (int len \<le> INT_MAX)) (bindW (api (Sock (Recv (fid e) len))) (\<lambda>a.
        if ret a = SOCKET_ERROR
        then bindW (api (Sock WSAGetLastError)) (\<lambda>err. thenW (set_entry fd (\<lambda>e. e\<lparr>fErrno := ret err\<rparr>)) (retW (- 1, [])))
        else retW (ret a, rbytes a)))
      else thenW (assertW False) (retW (- 1, [])))))"

definition OS_Write_win32 :: "int \<Rightarrow> bytes \<Rightarrow> int win" where
  "OS_Write_win32 fd buf =
     thenW (assertW (valid_fd fd))
     (bindW (getW wShutdownNow) (\<lambda>sd. if sd then retW (- 1) else
      bindW (entry fd) (\<lambda>e.
      if is_handle (ftype e)
      then thenW (assertW (int (length buf) \<le> ULONG_MAX)) (bindW (api (Handle (WriteFile (fid e) buf None))) (\<lambda>a.
        if ret a \<noteq> 0 then retW (wrap32 (int (length (rbytes a))))
        else bindW (api (Sys GetLastError)) (\<lambda>err. thenW (set_entry fd (\<lambda>e. e\<lparr>fErrno := ret err\<rparr>)) (retW (- 1)))))
      else if is_socket (ftype e)
      then thenW (assertW (int (length buf) \<le> INT_MAX)) (bindW (api (Sock (Send (fid e) buf))) (\<lambda>a.
        if ret a = SOCKET_ERROR
        then bindW (api (Sock WSAGetLastError)) (\<lambda>err. thenW (set_entry fd (\<lambda>e. e\<lparr>fErrno := ret err\<rparr>)) (retW (- 1)))
        else retW (ret a)))
      else thenW (assertW False) (retW (- 1)))))"

definition OS_SpawnChild_win32 :: "bytes \<Rightarrow> int \<Rightarrow> int win" where
  "OS_SpawnChild_win32 execPath listenFd =
     bindW (entry listenFd) (\<lambda>e.
     bindW (api (Handle (SetHandleInformation (fid e) True))) (\<lambda>a. if ret a = 0 then failW (Exit 99) else
     bindW (api (Sys (CreateProcess execPath (fid e)))) (\<lambda>a. retW (if ret a \<noteq> 0 then 0 else - 1))))"

section \<open>Overlapped input and output\<close>

definition new_ov :: "OVERLAPPED_REQUEST \<Rightarrow> nat win" where
  "new_ov r =
     bindW (api (Sys (Malloc 36))) (\<lambda>a. thenW (assertW (ret a \<noteq> 0))
     (bindW (getW nextOv) (\<lambda>ov. thenW (modW (\<lambda>w. w\<lparr>ovs := (ovs w)(ov \<mapsto> r), nextOv := Suc ov\<rparr>)) (retW ov))))"

definition OS_AsyncReadStdin_win32 :: "nat \<Rightarrow> nat \<Rightarrow> nat \<Rightarrow> nat \<Rightarrow> int win" where
  "OS_AsyncReadStdin_win32 buf len procPtr clientData =
     bindW (entry STDIN_NO) (\<lambda>e. thenW (assertW (ftype e \<noteq> FD_UNUSED))
     (bindW (new_ov \<lparr>ovOffset = 0, ovOffsetHigh = 0, ovInstance = finstance e, ovProc = procPtr, ovClientData = clientData,
        ovClientData1 = buf\<rparr>) (\<lambda>ov.
      bindW (getW hStdinCompPort) (\<lambda>p. thenW (post p (len, STDIN_NO, ov)) (retW 0)))))"

text \<open>The system goes on with an operation in the background.\<close>

definition in_progress :: "int \<Rightarrow> nat \<Rightarrow> unit win" where
  "in_progress fd ov = modW (\<lambda>w. w\<lparr>pending := pending w @ [(fd, ov)]\<rparr>)"

text \<open>The entry of a descriptor opened for overlapped I/O.\<close>

definition async_entry :: "int \<Rightarrow> FD_TABLE win" where
  "async_entry fd =
     thenW (assertW (valid_fd fd)) (bindW (entry fd) (\<lambda>e.
     thenW (assertW (ftype e \<notin> {FD_UNUSED, FD_FILE_SYNC, FD_PIPE_SYNC, FD_SOCKET_SYNC})) (retW e)))"

definition OS_AsyncRead_win32 :: "int \<Rightarrow> int \<Rightarrow> nat \<Rightarrow> nat \<Rightarrow> nat \<Rightarrow> int win" where
  "OS_AsyncRead_win32 fd off len procPtr clientData =
     bindW (async_entry fd) (\<lambda>e.
     bindW (new_ov \<lparr>ovOffset = (if ftype e = FD_FILE_ASYNC then word_of_int (if 0 \<le> foffset e then foffset e else off) else 0),
        ovOffsetHigh = 0, ovInstance = finstance e, ovProc = procPtr, ovClientData = clientData, ovClientData1 = 0\<rparr>) (\<lambda>ov.
     bindW (api (Handle (ReadFile (fid e) len (Some ov)))) (\<lambda>a. if ret a \<noteq> 0 then thenW (in_progress fd ov) (retW 0) else
     bindW (api (Sys GetLastError)) (\<lambda>err.
     thenW (set_entry fd (\<lambda>e. e\<lparr>fErrno := ret err\<rparr>))
     (bindW (getW hIoCompPort) (\<lambda>p.
      if ret err = ERROR_NO_DATA \<or> ret err = ERROR_PIPE_NOT_CONNECTED then thenW (post p (0, fd, ov)) (retW 0)
      else if ret err \<noteq> ERROR_IO_PENDING then thenW (post p (0, fd, ov)) (retW (- 1))
      else thenW (set_entry fd (\<lambda>e. e\<lparr>fErrno := 0\<rparr>)) (thenW (in_progress fd ov) (retW 0))))))))"

text \<open>The offsets of an overlapped write; a shared offset is taken and moved under its mutex.\<close>

definition load_dword :: "nat option \<Rightarrow> 32 word win" where
  "load_dword p = (case p of None \<Rightarrow> failW NullDeref | Some a \<Rightarrow> getW (\<lambda>w. dwords w a))"

definition add_dword :: "nat option \<Rightarrow> int \<Rightarrow> unit win" where
  "add_dword p n = (case p of None \<Rightarrow> failW NullDeref
     | Some a \<Rightarrow> modW (\<lambda>w. w\<lparr>dwords := (dwords w)(a := dwords w a + word_of_int n)\<rparr>))"

definition write_offsets :: "FD_TABLE \<Rightarrow> int \<Rightarrow> int \<Rightarrow> (32 word \<times> 32 word) win" where
  "write_offsets e off len =
     (if ftype e \<noteq> FD_FILE_ASYNC then retW (0, 0)
      else if foffset e < 0 then retW (0, word_of_int off)
      else if hMapMutex e = NULL_HANDLE then retW (0, word_of_int (foffset e))
      else thenW (api (Sys (WaitForSingleObject (hMapMutex e))))
        (bindW (load_dword (offsetHighPtr e)) (\<lambda>hi. bindW (load_dword (offsetLowPtr e)) (\<lambda>lo.
         thenW (add_dword (offsetHighPtr e) 0) (thenW (add_dword (offsetLowPtr e) len)
         (thenW (api (Sys (ReleaseMutex (hMapMutex e)))) (retW (hi, lo))))))))"

definition OS_AsyncWrite_win32 :: "int \<Rightarrow> int \<Rightarrow> bytes \<Rightarrow> nat \<Rightarrow> nat \<Rightarrow> int win" where
  "OS_AsyncWrite_win32 fd off buf procPtr clientData =
     bindW (async_entry fd) (\<lambda>e.
     bindW (new_ov \<lparr>ovOffset = 0, ovOffsetHigh = 0, ovInstance = finstance e, ovProc = procPtr, ovClientData = clientData,
        ovClientData1 = 0\<rparr>) (\<lambda>ov.
     bindW (write_offsets e off (int (length buf))) (\<lambda>(hi, lo).
     thenW (modW (\<lambda>w. w\<lparr>ovs := (ovs w)(ov := map_option (\<lambda>r. r\<lparr>ovOffset := lo, ovOffsetHigh := hi\<rparr>) (ovs w ov))\<rparr>))
     (bindW (api (Handle (WriteFile (fid e) buf (Some ov)))) (\<lambda>a.
      let advance = thenW (set_entry fd (\<lambda>e. if 0 \<le> foffset e then e\<lparr>foffset := wrap32 (foffset e + int (length buf))\<rparr> else e))
        (thenW (in_progress fd ov) (retW 0)) in
      if ret a \<noteq> 0 then advance
      else bindW (api (Sys GetLastError)) (\<lambda>err.
       thenW (set_entry fd (\<lambda>e. e\<lparr>fErrno := ret err\<rparr>))
       (if ret err \<noteq> ERROR_IO_PENDING then bindW (getW hIoCompPort) (\<lambda>p. thenW (post p (0, fd, ov)) (retW (- 1)))
        else thenW (set_entry fd (\<lambda>e. e\<lparr>fErrno := 0\<rparr>)) advance)))))))"

section \<open>Closing\<close>

text \<open>Data in flight is read until end of file, an error or two seconds without data.\<close>

primrec drain :: "nat \<Rightarrow> HANDLE \<Rightarrow> unit win" where
  "drain 0 sock = failW OutOfFuel"
| "drain (Suc k) sock =
     bindW (api (Sock (Select sock))) (\<lambda>rv. if \<not> 0 < ret rv then retW () else
     bindW (api (Sock (Recv sock 1024))) (\<lambda>a. if 0 < ret a then drain k sock else retW ()))"

definition OS_Close_win32 :: "nat \<Rightarrow> int \<Rightarrow> int win" where
  "OS_Close_win32 k fd =
     thenW (assertW (valid_fd fd)) (bindW (entry fd) (\<lambda>e.
     thenW (assertW (ftype e \<noteq> FD_UNUSED))
     (bindW
       (if is_handle (ftype e) then retW 0
        else if is_socket (ftype e)
        then bindW (api (Sock (Shutdown (fid e) 1))) (\<lambda>a.
          thenW (whenW (ret a = 0) (drain k (fid e))) (thenW (api (Sock (Closesocket (fid e)))) (retW 0)))
        else retW (- 1)) (\<lambda>r.
      thenW (Win32FreeDescriptor fd) (retW r)))))"

definition OS_CloseRead_win32 :: "int \<Rightarrow> int win" where
  "OS_CloseRead_win32 fd =
     thenW (assertW (valid_fd fd)) (bindW (entry fd) (\<lambda>e. thenW (assertW (is_socket (ftype e)))
     (bindW (api (Sock (Shutdown (fid e) 0))) (\<lambda>a. retW (if ret a = SOCKET_ERROR then - 1 else 0)))))"

section \<open>The dispatcher\<close>

text \<open>
  \<open>call\<close> runs the procedure of a completed operation on its client data and the number of bytes.
  Times are milliseconds; \<open>tmo\<close> is the timeout in seconds and microseconds.  The division of C
  rounds towards zero.
\<close>

type_synonym io_proc = "nat \<Rightarrow> nat \<Rightarrow> nat \<Rightarrow> unit win"

definition c_div :: "int \<Rightarrow> int \<Rightarrow> int" where
  "c_div a b = (if (a < 0) = (b < 0) then \<bar>a\<bar> div \<bar>b\<bar> else - (\<bar>a\<bar> div \<bar>b\<bar>))"

definition tmo_ms :: "int \<times> int \<Rightarrow> int" where "tmo_ms t = fst t * 1000 + c_div (snd t) 1000"

text \<open>\<open>free\<close> of a request: the block must be allocated.\<close>

definition free_ov :: "nat \<Rightarrow> unit win" where
  "free_ov ov = bindW (getW (\<lambda>w. ovs w ov)) (\<lambda>q. case q of
     None \<Rightarrow> failW UseAfterFree
   | Some _ \<Rightarrow> modW (\<lambda>w. w\<lparr>ovs := (ovs w)(ov := None)\<rparr>))"

definition dispatch_win32 :: "io_proc \<Rightarrow> completion \<Rightarrow> unit win" where
  "dispatch_win32 call c = (case c of (n, fd, ov) \<Rightarrow>
     thenW (assertW (valid_fd fd))
     (bindW (getW (\<lambda>w. ovs w ov)) (\<lambda>q. case q of
        None \<Rightarrow> failW UseAfterFree
      | Some r \<Rightarrow> bindW (entry fd) (\<lambda>e.
          thenW (whenW (ovInstance r = finstance e) (call (ovProc r) (ovClientData r) n)) (free_ov ov)))))"

primrec DoIo_loop :: "nat \<Rightarrow> io_proc \<Rightarrow> (int \<times> int) option \<Rightarrow> int \<Rightarrow> int \<Rightarrow> int win" where
  "DoIo_loop 0 call tmo ms ms_last = failW OutOfFuel"
| "DoIo_loop (Suc k) call tmo ms ms_last =
     (if ms < 0 then retW 0 else
      let ms = (case tmo of None \<Rightarrow> ms | Some t \<Rightarrow> min (tmo_ms t) 100) in
      thenW (assertW (0 \<le> ms \<and> ms < 4294967295))
      (bindW (getW hIoCompPort) (\<lambda>p. bindW (dequeue p ms) (\<lambda>c. case c of
         None \<Rightarrow> thenW (api (Sock WSAGetLastError)) (retW 0)
       | Some c \<Rightarrow> thenW (dispatch_win32 call c) (bindW (api (Sys Ftime)) (\<lambda>tb.
           DoIo_loop k call tmo (ms - (rtime tb - ms_last)) (rtime tb)))))))"

definition OS_DoIo_win32 :: "nat \<Rightarrow> io_proc \<Rightarrow> (int \<times> int) option \<Rightarrow> int win" where
  "OS_DoIo_win32 k call tmo =
     bindW (api (Sys Ftime)) (\<lambda>tb.
     DoIo_loop k call tmo (case tmo of None \<Rightarrow> 1000 | Some t \<Rightarrow> c_div (tmo_ms t) 2) (rtime tb))"

section \<open>Client addresses\<close>

text \<open>\<open>inet_ntoa\<close>, \<open>strstr\<close> and the test for a member of a string, of the C library.\<close>

definition octet :: "byte \<Rightarrow> bytes" where
  "octet b = (let n = unat b; d = (\<lambda>i. of_nat (48 + i)) in
     if n < 10 then [d n] else if n < 100 then [d (n div 10), d (n mod 10)]
     else [d (n div 100), d (n div 10 mod 10), d (n mod 10)])"

fun inet_ntoa :: "bytes \<Rightarrow> bytes" where
  "inet_ntoa [] = []"
| "inet_ntoa [b] = octet b"
| "inet_ntoa (b # bs) = octet b @ 46 # inet_ntoa bs"

fun strstr :: "bytes \<Rightarrow> bytes \<Rightarrow> nat option" where
  "strstr [] needle = (if needle = [] then Some 0 else None)"
| "strstr (c # str) needle =
     (if take (length needle) (c # str) = needle then Some 0 else map_option Suc (strstr str needle))"

definition byte_in :: "bytes \<Rightarrow> nat \<Rightarrow> byte" where "byte_in str i = (if i < length str then str ! i else 0)"

text \<open>\<open>strchr(token, c) != NULL\<close>: a separator, or the NUL that ends \<open>token\<close> itself.\<close>

definition is_token :: "byte \<Rightarrow> bool" where "is_token c \<longleftrightarrow> c \<in> {32, 44, 59, 58, 9, 0}"

definition isAddrOK :: "bytes \<Rightarrow> bytes option \<Rightarrow> bool" where
  "isAddrOK addr okAddrs = (case okAddrs of
     None \<Rightarrow> True
   | Some str \<Rightarrow> let ipaddr = inet_ntoa addr in
       (case strstr str ipaddr of
          None \<Rightarrow> False
        | Some p \<Rightarrow>
            if p = 0 then is_token (byte_in str (length ipaddr))
            else is_token (byte_in str (p - 1)) \<and> is_token (byte_in str (p + length ipaddr))))"

definition isAddrOKCallback :: "sockaddr_in \<Rightarrow> bytes option \<Rightarrow> bool" where
  "isAddrOKCallback sa okAddrs =
     (if okAddrs = None then True else if \<not> sin_inet sa then True else isAddrOK (sin_addr sa) okAddrs)"

section \<open>Accepting\<close>

definition printLastError :: "unit win" where
  "printLastError = thenW (api (Sys GetLastError)) (retW ())"

definition acceptNamedPipe :: "int win" where
  "acceptNamedPipe =
     bindW (getW hListen) (\<lambda>h. bindW (api (Pipe (ConnectNamedPipe h))) (\<lambda>a.
     thenW (whenW (ret a = 0) (bindW (api (Sys GetLastError)) (\<lambda>err. whenW (ret err \<noteq> ERROR_PIPE_CONNECTED) printLastError)))
     (thenW (assertW (int_handle h))
     (bindW (Win32NewDescriptor FD_PIPE_SYNC h (- 1)) (\<lambda>fd.
      thenW (whenW (fd = - 1) (api (Pipe (DisconnectNamedPipe h)))) (retW fd))))))"

text \<open>Waiting for a client, one second at a time; the result says whether one is there or shutdown is requested.\<close>

primrec accept_wait :: "nat \<Rightarrow> bool win" where
  "accept_wait 0 = failW OutOfFuel"
| "accept_wait (Suc k) =
     bindW (getW hListen) (\<lambda>h. bindW (api (Sock (Select h))) (\<lambda>a.
     if ret a \<noteq> 0 then retW True else
     bindW (getW wShutdownPending) (\<lambda>sd. if sd then thenW OS_LibShutdown_win32 (retW False) else accept_wait k)))"

text \<open>
  One try: the new socket, \<open>INVALID_SOCKET\<close> after a failure, or nothing when the client was refused and
  the loop goes on.  \<open>noWSA\<close> is the variant of the code for the macro \<open>NO_WSAACEPT\<close>.  \<open>WSAAccept\<close>
  refuses a client for which the condition function says so, with the error \<open>WSAECONNREFUSED\<close>.
\<close>

definition accept_try :: "bool \<Rightarrow> bytes option \<Rightarrow> HANDLE option win" where
  "accept_try noWSA webServerAddrs =
     bindW (getW hListen) (\<lambda>h.
     if noWSA
     then bindW (api (Sock (Accept h))) (\<lambda>a.
       if ret a = INVALID_SOCKET then retW (Some INVALID_SOCKET)
       else if isAddrOK (sin_addr (rpeer a)) webServerAddrs then retW (Some (ret a))
       else thenW (api (Sock (Closesocket (ret a)))) (retW None))
     else bindW (api (Sock (WSAAccept h))) (\<lambda>a.
       if ret a \<noteq> INVALID_SOCKET
       then if isAddrOKCallback (rpeer a) webServerAddrs then retW (Some (ret a))
         else thenW (api (Sock WSAGetLastError)) (retW None)
       else bindW (api (Sock WSAGetLastError)) (\<lambda>err.
         retW (if ret err \<noteq> WSAECONNREFUSED then Some INVALID_SOCKET else None))))"

text \<open>The accept loop: the socket, or nothing when shutdown was requested.\<close>

primrec accept_loop :: "nat \<Rightarrow> bool \<Rightarrow> bytes option \<Rightarrow> HANDLE option win" where
  "accept_loop 0 noWSA webServerAddrs = failW OutOfFuel"
| "accept_loop (Suc k) noWSA webServerAddrs =
     bindW (accept_wait (Suc k)) (\<lambda>there. if \<not> there then retW None else
     bindW (accept_try noWSA webServerAddrs) (\<lambda>s. case s of
       Some sock \<Rightarrow> retW (Some sock)
     | None \<Rightarrow> accept_loop k noWSA webServerAddrs))"

definition acceptSocket :: "nat \<Rightarrow> bool \<Rightarrow> bytes option \<Rightarrow> int win" where
  "acceptSocket k noWSA webServerAddrs =
     bindW (accept_loop k noWSA webServerAddrs) (\<lambda>s. case s of None \<Rightarrow> retW (- 1) | Some sock \<Rightarrow>
     if sock = INVALID_SOCKET then thenW (api (Sock WSAGetLastError)) (retW (- 1)) else
     thenW (assertW (int_handle sock))
     (bindW (Win32NewDescriptor FD_SOCKET_SYNC sock (- 1)) (\<lambda>fd.
      thenW (whenW (fd = - 1) (api (Sock (Closesocket sock)))) (retW fd))))"

definition OS_Accept_win32 :: "nat \<Rightarrow> bool \<Rightarrow> bytes option \<Rightarrow> int win" where
  "OS_Accept_win32 k noWSA webServerAddrs =
     bindW (getW wShutdownPending) (\<lambda>sd. if sd then thenW OS_LibShutdown_win32 (retW (- 1)) else
     bindW (getW acceptMutex) (\<lambda>m.
     bindW (if m \<noteq> INVALID_HANDLE_VALUE
            then bindW (api (Sys (WaitForSingleObject m))) (\<lambda>a.
              if ret a = WAIT_FAILED then thenW printLastError (retW False) else retW True)
            else retW True) (\<lambda>ok.
     if \<not> ok then retW (- 1) else
     bindW (getW wShutdownPending) (\<lambda>sd. bindW (getW listenType) (\<lambda>ty.
     bindW (if sd then thenW OS_LibShutdown_win32 (retW (- 1))
            else if ty = FD_PIPE_SYNC then acceptNamedPipe
            else if ty = FD_SOCKET_SYNC then acceptSocket k noWSA webServerAddrs
            else retW (- 1)) (\<lambda>fd.
     bindW (getW acceptMutex) (\<lambda>m.
     thenW (whenW (m \<noteq> INVALID_HANDLE_VALUE) (api (Sys (ReleaseMutex m)))) (retW fd))))))))"

definition OS_IpcClose_win32 :: "nat \<Rightarrow> int \<Rightarrow> int win" where
  "OS_IpcClose_win32 k ipcFd =
     (if ipcFd = - 1 then retW 0 else
      thenW (assertW (valid_fd ipcFd)) (bindW (entry ipcFd) (\<lambda>e.
      thenW (assertW (ftype e \<noteq> FD_UNUSED))
      (bindW (getW listenType) (\<lambda>ty.
       if ty = FD_PIPE_SYNC
       then bindW (api (Pipe (FlushFileBuffers (fid e)))) (\<lambda>a. if ret a = 0 then retW (- 1) else
         bindW (api (Pipe (DisconnectNamedPipe (fid e)))) (\<lambda>a. if ret a = 0 then retW (- 1) else
         thenW (OS_Close_win32 k ipcFd) (retW 0)))
       else if ty = FD_SOCKET_SYNC then thenW (OS_Close_win32 k ipcFd) (retW 0)
       else failW (Exit 106))))))"

definition OS_IsFcgi_win32 :: "int win" where
  "OS_IsFcgi_win32 = getW (\<lambda>w. if listenType w \<noteq> FD_UNUSED then 1 else 0)"

abbreviation (input) O_NONBLOCK_WIN32 :: int where "O_NONBLOCK_WIN32 \<equiv> 4"

definition OS_SetFlags_win32 :: "int \<Rightarrow> int \<Rightarrow> unit win" where
  "OS_SetFlags_win32 fd flags =
     bindW (entry fd) (\<lambda>e. whenW (ftype e = FD_SOCKET_SYNC \<and> flags = O_NONBLOCK_WIN32)
       (bindW (api (Sock (Ioctlsocket (fid e)))) (\<lambda>a.
        if ret a = SOCKET_ERROR then bindW (api (Sock WSAGetLastError)) (\<lambda>err. failW (Exit (ret err))) else
        bindW (getW hIoCompPort) (\<lambda>p. bindW (api (Handle (CreateIoCompletionPort (fid e) p fd))) (\<lambda>a.
        if ret a = 0 then bindW (api (Sys GetLastError)) (\<lambda>err. failW (Exit (ret err)))
        else set_entry fd (\<lambda>e. e\<lparr>ftype := FD_SOCKET_ASYNC\<rparr>))))))"

end
