(* ===== verification/Os_Win32_Safe.thy ===== *)
theory Os_Win32_Safe
  imports Os_Win32_Io
begin

text \<open>
  Safety of the Windows layer: with any behaviour of the Windows API, the operations keep the
  invariant of the descriptor table, fail no assertion and misuse no memory.
\<close>

section \<open>Rules for the operations\<close>

lemma wp_post: "winv w \<Longrightarrow> (\<And>w'. winv w' \<Longrightarrow> fdTable w' = fdTable w \<Longrightarrow> Q () w') \<Longrightarrow> wpW (post p c) Q w"
  by (auto simp: post_def wp_simps intro!: wp_api)

lemma wp_std_handle: "winv w \<Longrightarrow> (\<And>h w'. winv w' \<Longrightarrow> int_handle h \<Longrightarrow> Q h w') \<Longrightarrow> wpW (std_handle n) Q w"
  by (auto simp: std_handle_def wp_simps intro!: wp_api)

lemma wp_LibInit_ports: "winv w \<Longrightarrow> (\<And>b w'. winv w' \<Longrightarrow> Q b w') \<Longrightarrow> wpW LibInit_ports Q w"
  by (auto simp: LibInit_ports_def wp_simps intro!: wp_api split: option.splits)

lemma wp_LibInit_listen: "winv w \<Longrightarrow> (\<And>b w'. winv w' \<Longrightarrow> Q b w') \<Longrightarrow> wpW LibInit_listen Q w"
  by (auto simp: LibInit_listen_def is_listener_def wp_simps intro!: wp_api wp_std_handle split: option.splits)

lemma wp_std_descriptor: "winv w \<Longrightarrow> int_handle h \<Longrightarrow> (\<And>r w'. winv w' \<Longrightarrow> Q r w') \<Longrightarrow> wpW (std_descriptor n h) Q w"
  by (auto simp: std_descriptor_def wp_simps intro!: wp_new_descriptor)

lemma wp_std_input: "winv w \<Longrightarrow> (\<And>r w'. winv w' \<Longrightarrow> Q r w') \<Longrightarrow> wpW std_input Q w"
  by (auto simp: std_input_def wp_simps intro!: wp_api wp_std_handle wp_std_descriptor)

lemma wp_std_output: "winv w \<Longrightarrow> (\<And>r w'. winv w' \<Longrightarrow> Q r w') \<Longrightarrow> wpW (std_output n h) Q w"
  by (auto simp: std_output_def wp_simps intro!: wp_api wp_std_handle wp_std_descriptor)

lemma wp_stdin_port: "winv w \<Longrightarrow> (\<And>r w'. winv w' \<Longrightarrow> Q r w') \<Longrightarrow> wpW stdin_port Q w"
  by (auto simp: stdin_port_def wp_simps intro!: wp_api split: option.splits)

lemma wp_LibInit: "winv w \<Longrightarrow> (\<And>r w'. winv w' \<Longrightarrow> Q r w') \<Longrightarrow> wpW (OS_LibInit_win32 b) Q w"
  by (auto simp: OS_LibInit_win32_def LibInit_stdio_def wp_simps split: option.splits
      intro!: wp_api wp_LibInit_ports wp_LibInit_listen wp_std_input wp_std_output wp_stdin_port)

lemma wp_LibShutdown: "winv w \<Longrightarrow> (\<And>r w'. winv w' \<Longrightarrow> Q r w') \<Longrightarrow> wpW OS_LibShutdown_win32 Q w"
  by (auto simp: OS_LibShutdown_win32_def wp_simps intro!: wp_api)

lemma wp_accept_mutex: "winv w \<Longrightarrow> (\<And>r w'. winv w' \<Longrightarrow> r \<le> 0 \<Longrightarrow> Q r w') \<Longrightarrow> wpW accept_mutex Q w"
  by (auto simp: accept_mutex_def wp_simps intro!: wp_api)

lemma wp_listen_port: "winv w \<Longrightarrow> (\<And>r w'. winv w' \<Longrightarrow> Q r w') \<Longrightarrow> wpW (listen_port p n) Q w"
  by (auto simp: listen_port_def wp_simps winv_listen intro!: wp_api wp_new_descriptor)

lemma wp_listen_pipe: "winv w \<Longrightarrow> (\<And>r w'. winv w' \<Longrightarrow> Q r w') \<Longrightarrow> wpW (listen_pipe p) Q w"
  by (auto simp: listen_pipe_def wp_simps winv_listen intro!: wp_api wp_new_descriptor)

lemma wp_CreateLocalIpcFd: "winv w \<Longrightarrow> (\<And>r w'. winv w' \<Longrightarrow> Q r w') \<Longrightarrow> wpW (OS_CreateLocalIpcFd_win32 p n) Q w"
  by (auto simp: OS_CreateLocalIpcFd_win32_def Let_def wp_simps intro!: wp_accept_mutex wp_listen_port wp_listen_pipe)

text \<open>A path with a host name is left out: the name is copied out of bounds.\<close>

lemma wp_connect_port: "winv w \<Longrightarrow> hd path = 58 \<Longrightarrow> (\<And>r w'. winv w' \<Longrightarrow> Q r w') \<Longrightarrow> wpW (connect_port path p) Q w"
  by (auto simp: connect_port_def host_block_def wp_simps intro!: wp_api wp_new_descriptor split: option.splits)

lemma wp_connect_pipe: "winv w \<Longrightarrow> (\<And>r w'. winv w' \<Longrightarrow> Q r w') \<Longrightarrow> wpW (connect_pipe path) Q w"
  by (auto simp: connect_pipe_def wp_simps valid_fd_def intro!: wp_api wp_new_descriptor wp_free_descriptor split: option.splits)

lemma wp_FcgiConnect:
  "winv w \<Longrightarrow> getPort path = 0 \<or> hd path = 58 \<Longrightarrow> (\<And>r w'. winv w' \<Longrightarrow> Q r w') \<Longrightarrow> wpW (OS_FcgiConnect_win32 path) Q w"
  by (auto simp: OS_FcgiConnect_win32_def Let_def wp_simps intro!: wp_connect_port wp_connect_pipe)

text \<open>An open descriptor; memory for the requests of overlapped operations.\<close>

definition is_open :: "win32 \<Rightarrow> int \<Rightarrow> bool" where
  "is_open w fd \<longleftrightarrow> valid_fd fd \<and> \<not> unused (fdTable w) (nat fd)"

definition mem_ok :: "win32 \<Rightarrow> bool" where
  "mem_ok w \<longleftrightarrow> (\<forall>cs n. ret (win_answer w (cs @ [Sys (Malloc n)])) \<noteq> 0)"

lemma open_entry:
  assumes "winv w" "is_open w fd"
  shows "valid_fd fd" "0 \<le> fd" "nat fd < WIN32_OPEN_MAX" "plain_entry (fdTable w ! nat fd)" "ftype (fdTable w ! nat fd) \<noteq> FD_UNUSED"
    "is_handle (ftype (fdTable w ! nat fd)) \<or> is_socket (ftype (fdTable w ! nat fd))"
proof -
  show r: "valid_fd fd" "0 \<le> fd" "nat fd < WIN32_OPEN_MAX" "ftype (fdTable w ! nat fd) \<noteq> FD_UNUSED"
    using assms by (auto simp: is_open_def valid_fd_def unused_def)
  show "plain_entry (fdTable w ! nat fd)" using winv_entry assms(1) r by blast
  show "is_handle (ftype (fdTable w ! nat fd)) \<or> is_socket (ftype (fdTable w ! nat fd))"
    using r(4) by (cases "ftype (fdTable w ! nat fd)") (auto simp: is_handle_def is_socket_def)
qed

lemma plain_errno [simp]: "plain_entry (e\<lparr>fErrno := n\<rparr>) = plain_entry e" "plain_entry (e\<lparr>foffset := n\<rparr>) = plain_entry e"
  by (simp_all add: plain_entry_def)

lemma wp_Read:
  assumes "winv w" "is_open w fd" "int len \<le> INT_MAX" "\<And>r w'. winv w' \<Longrightarrow> Q r w'"
  shows "wpW (OS_Read_win32 fd len) Q w"
  using assms(1,3,4) open_entry [OF assms(1,2)]
  by (auto simp: OS_Read_win32_def wp_simps winv_length intro!: wp_api)

lemma wp_Write:
  assumes "winv w" "is_open w fd" "int (length buf) \<le> INT_MAX" "\<And>r w'. winv w' \<Longrightarrow> Q r w'"
  shows "wpW (OS_Write_win32 fd buf) Q w"
  using assms(1,3,4) open_entry [OF assms(1,2)]
  by (auto simp: OS_Write_win32_def wp_simps winv_length intro!: wp_api)

lemma wp_SpawnChild:
  assumes "winv w" "is_open w fd" "\<And>r w'. winv w' \<Longrightarrow> Q r w'"
  shows "wpW (OS_SpawnChild_win32 path fd) Q w"
  using assms(1,3) open_entry [OF assms(1,2)]
  by (auto simp: OS_SpawnChild_win32_def wp_simps winv_length intro!: wp_api)

lemma wp_drain: "winv w \<Longrightarrow> (\<And>r cs b. Q r (w\<lparr>calls := cs, wShutdownPending := b\<rparr>)) \<Longrightarrow> wpW (drain k sock) Q w"
proof (induction k arbitrary: w)
  case (Suc k)
  have "wpW (drain k sock) Q (w\<lparr>calls := cs, wShutdownPending := b\<rparr>)" for cs b
    using Suc.prems by (intro Suc.IH) auto
  with Suc.prems show ?case by (auto simp: wp_simps intro!: wp_api)
qed (simp add: wp_simps)

text \<open>A closed descriptor is unused, and the other entries are as before.\<close>

lemma wp_Close:
  assumes "winv w" "is_open w fd"
    and "\<And>r cs b t. winv (w\<lparr>fdTable := t\<rparr>) \<Longrightarrow> unused t (nat fd) \<Longrightarrow> (\<forall>i. i \<noteq> nat fd \<longrightarrow> t ! i = fdTable w ! i) \<Longrightarrow>
      Q r (w\<lparr>calls := cs, wShutdownPending := b, fdTable := t\<rparr>)"
  shows "wpW (OS_Close_win32 k fd) Q w"
proof -
  have Q: "wpW (Win32FreeDescriptor fd) (\<lambda>_. Q r) (w\<lparr>calls := cs, wShutdownPending := b\<rparr>)" for r cs b
    using assms open_entry(1) [OF assms(1,2)] by (intro wp_free_descriptor) auto
  from Q [where cs = "calls w" and b = "wShutdownPending w"] have "wpW (Win32FreeDescriptor fd) (\<lambda>_. Q r) w" for r by simp
  with assms(1) open_entry [OF assms(1,2)] Q show ?thesis
    by (auto simp: OS_Close_win32_def wp_simps winv_length intro!: wp_api wp_drain)
qed

lemma wp_CloseRead:
  assumes "winv w" "is_open w fd" "is_socket (ftype (fdTable w ! nat fd))" "\<And>r w'. winv w' \<Longrightarrow> Q r w'"
  shows "wpW (OS_CloseRead_win32 fd) Q w"
  using assms(1,3,4) open_entry [OF assms(1,2)]
  by (auto simp: OS_CloseRead_win32_def wp_simps winv_length intro!: wp_api)

lemma wp_SetFlags:
  assumes "winv w" "is_open w fd" "\<And>r w'. winv w' \<Longrightarrow> Q r w'"
  shows "wpW (OS_SetFlags_win32 fd fl) Q w"
  using assms(1,3) open_entry [OF assms(1,2)]
  by (auto simp: OS_SetFlags_win32_def wp_simps winv_length plain_entry_def intro!: wp_api)

section \<open>Overlapped operations\<close>

lemma wp_malloc:
  "mem_ok w \<Longrightarrow> (\<And>a cs b. ret a \<noteq> 0 \<Longrightarrow> Q a (w\<lparr>calls := cs, wShutdownPending := b\<rparr>)) \<Longrightarrow> wpW (api (Sys (Malloc n))) Q w"
  by (intro wp_api_log) (simp add: mem_ok_def)

lemma wp_new_ov_alloc:
  assumes "mem_ok w" "\<And>cs b. Q (nextOv w) (w\<lparr>calls := cs, wShutdownPending := b, ovs := (ovs w)(nextOv w \<mapsto> r), nextOv := Suc (nextOv w)\<rparr>)"
  shows "wpW (new_ov r) Q w"
  using assms by (auto simp: new_ov_def wp_simps intro!: wp_malloc)

text \<open>A descriptor open for overlapped I/O.\<close>

definition is_async :: "win32 \<Rightarrow> int \<Rightarrow> bool" where
  "is_async w fd \<longleftrightarrow> valid_fd fd \<and> ftype (fdTable w ! nat fd) \<in> {FD_PIPE_ASYNC, FD_SOCKET_ASYNC}"

lemma wp_async_entry:
  assumes "winv w" "is_async w fd" "plain_entry (fdTable w ! nat fd) \<Longrightarrow> Q (fdTable w ! nat fd) w"
  shows "wpW (async_entry fd) Q w"
  using assms winv_entry [OF assms(1), of fd]
  by (auto simp: async_entry_def wp_simps is_async_def valid_fd_def winv_length nat_less_iff)

lemma wp_set_plain:
  assumes "winv w" "valid_fd fd" "\<And>e. plain_entry e \<Longrightarrow> plain_entry (f e)" "\<And>w'. winv w' \<Longrightarrow> Q () w'"
  shows "wpW (set_entry fd f) Q w"
  using assms winv_entry [OF assms(1), of fd] by (auto simp: wp_simps valid_fd_def winv_length nat_less_iff)

lemma wp_new_ov_safe: "winv w \<Longrightarrow> mem_ok w \<Longrightarrow> (\<And>ov w'. winv w' \<Longrightarrow> Q ov w') \<Longrightarrow> wpW (new_ov r) Q w"
  by (rule wp_new_ov_alloc) simp_all

lemma wp_progress: "winv w \<Longrightarrow> (\<And>w'. winv w' \<Longrightarrow> Q () w') \<Longrightarrow> wpW (in_progress fd ov) Q w"
  by (simp add: in_progress_def wp_simps)

lemma wp_AsyncRead_safe:
  assumes "winv w" "mem_ok w" "is_async w fd" "\<And>r w'. winv w' \<Longrightarrow> Q r w'"
  shows "wpW (OS_AsyncRead_win32 fd off len p d) Q w"
  unfolding OS_AsyncRead_win32_def wp_combinators wp_cases using assms(1,2) assms(3) [unfolded is_async_def]
  by (auto intro!: wp_async_entry assms(3,4) wp_new_ov_safe wp_api wp_set_plain wp_post wp_progress)

lemma wp_AsyncWrite_safe:
  assumes "winv w" "mem_ok w" "is_async w fd" "\<And>r w'. winv w' \<Longrightarrow> Q r w'"
  shows "wpW (OS_AsyncWrite_win32 fd off buf p d) Q w"
proof -
  have fd: "valid_fd fd" "ftype (fdTable w ! nat fd) \<noteq> FD_FILE_ASYNC" using assms(3) by (auto simp: is_async_def)
  show ?thesis unfolding OS_AsyncWrite_win32_def wp_combinators wp_cases Let_def write_offsets_def
    using assms(1,2) fd
    by (auto simp: wp_combinators intro!: wp_async_entry assms(3,4) wp_new_ov_safe wp_api wp_set_plain wp_post wp_progress)
qed

lemma wp_AsyncReadStdin_safe:
  assumes "winv w" "mem_ok w" "is_open w STDIN_NO" "\<And>r w'. winv w' \<Longrightarrow> Q r w'"
  shows "wpW (OS_AsyncReadStdin_win32 buf len p d) Q w"
proof -
  have e: "0 < length (fdTable w)" "ftype (fdTable w ! 0) \<noteq> FD_UNUSED"
    using winv_length [OF assms(1)] open_entry(5) [OF assms(1,3)] by simp_all
  show ?thesis using assms(1,2,4) e
    by (auto simp: OS_AsyncReadStdin_win32_def wp_simps simp del: length_greater_0_conv intro!: wp_new_ov_safe wp_post)
qed

section \<open>Accepting\<close>

text \<open>The socket \<open>sock\<close> is one the API returned for a client that the list of addresses admits.\<close>

definition admitted_sock :: "win32 \<Rightarrow> bool \<Rightarrow> bytes option \<Rightarrow> HANDLE \<Rightarrow> bool" where
  "admitted_sock w noWSA addrs sock \<longleftrightarrow>
     (\<exists>cs. let a = win_answer w (cs @ [Sock (if noWSA then Accept (hListen w) else WSAAccept (hListen w))]) in
        ret a = sock \<and> (if noWSA then isAddrOK (sin_addr (rpeer a)) addrs else isAddrOKCallback (rpeer a) addrs))"

lemma admitted_sock_log [simp]:
  "admitted_sock (w\<lparr>calls := cs\<rparr>) = admitted_sock w" "admitted_sock (w\<lparr>wShutdownPending := b\<rparr>) = admitted_sock w"
  by (auto simp: admitted_sock_def fun_eq_iff)

lemma wp_accept_wait:
  "winv w \<Longrightarrow> (\<And>cs b. Q True (w\<lparr>calls := cs, wShutdownPending := b\<rparr>)) \<Longrightarrow> (\<And>w'. winv w' \<Longrightarrow> Q False w') \<Longrightarrow> wpW (accept_wait k) Q w"
proof (induction k arbitrary: w)
  case (Suc k)
  have "wpW (accept_wait k) Q (w\<lparr>calls := cs, wShutdownPending := b\<rparr>)" for cs b
    using Suc.prems by (intro Suc.IH) auto
  with Suc.prems show ?case by (auto simp: wp_simps intro!: wp_api wp_LibShutdown)
qed (simp add: wp_simps)

lemma wp_accept_try:
  assumes "winv w"
    and "\<And>s cs b. s = INVALID_SOCKET \<or> int_handle s \<and> admitted_sock w noWSA addrs s \<Longrightarrow> Q (Some s) (w\<lparr>calls := cs, wShutdownPending := b\<rparr>)"
    and "\<And>cs b. Q None (w\<lparr>calls := cs, wShutdownPending := b\<rparr>)"
  shows "wpW (accept_try noWSA addrs) Q w"
proof -
  have i: "int_handle (ret (win_answer w cs))" for cs using assms(1) by (simp add: winv_def)
  show ?thesis
  proof (cases noWSA)
    case True
    then show ?thesis unfolding accept_try_def wp_combinators wp_cases if_P [OF True]
      using assms i by (intro wp_api_log) (auto simp: wp_simps admitted_sock_def Let_def intro!: wp_api assms(2))
  next
    case False
    then show ?thesis unfolding accept_try_def wp_combinators wp_cases if_not_P [OF False]
      using assms i by (intro wp_api_log) (auto simp: wp_simps admitted_sock_def Let_def intro!: wp_api assms(2))
  qed
qed

lemma wp_accept_loop:
  assumes "winv w"
    and "\<And>s cs b. s = INVALID_SOCKET \<or> int_handle s \<and> admitted_sock w noWSA addrs s \<Longrightarrow> Q (Some s) (w\<lparr>calls := cs, wShutdownPending := b\<rparr>)"
    and "\<And>w'. winv w' \<Longrightarrow> Q None w'"
  shows "wpW (accept_loop k noWSA addrs) Q w"
  using assms
proof (induction k arbitrary: w)
  case (Suc k)
  have "wpW (accept_loop k noWSA addrs) Q (w\<lparr>calls := cs, wShutdownPending := b\<rparr>)" for cs b
    using Suc.prems by (intro Suc.IH) auto
  with Suc.prems show ?case
    by (auto simp: wp_simps simp del: accept_wait.simps intro!: wp_accept_wait wp_accept_try split: option.splits)
qed (simp add: wp_simps)

lemma wp_acceptSocket:
  assumes "winv w"
    and "\<And>s i cs b. int_handle s \<Longrightarrow> admitted_sock w noWSA addrs s \<Longrightarrow> valid_fd i \<Longrightarrow> unused (fdTable w) (nat i) \<Longrightarrow>
      winv (w\<lparr>fdTable := (fdTable w)[nat i := new_entry FD_SOCKET_SYNC s (fdTable w ! nat i)]\<rparr>) \<Longrightarrow>
      Q i (w\<lparr>calls := cs, wShutdownPending := b, fdTable := (fdTable w)[nat i := new_entry FD_SOCKET_SYNC s (fdTable w ! nat i)]\<rparr>)"
    and "\<And>w'. winv w' \<Longrightarrow> Q (- 1) w'"
  shows "wpW (acceptSocket k noWSA addrs) Q w"
  using assms
  by (auto simp: acceptSocket_def wp_simps valid_fd_def intro!: wp_accept_loop wp_api wp_new_descriptor split: option.splits)

lemma wp_acceptNamedPipe:
  assumes "winv w" "\<And>r w'. winv w' \<Longrightarrow> Q r w'"
  shows "wpW acceptNamedPipe Q w"
  using assms by (auto simp: acceptNamedPipe_def printLastError_def wp_simps winv_listen intro!: wp_api wp_new_descriptor)

lemma wp_IpcClose:
  assumes "winv w" "is_open w fd" "\<And>r w'. winv w' \<Longrightarrow> Q r w'"
  shows "wpW (OS_IpcClose_win32 k fd) Q w"
proof -
  have "wpW (OS_Close_win32 k fd) (\<lambda>_. Q 0) (w\<lparr>calls := cs, wShutdownPending := b\<rparr>)" for cs b
    using assms by (intro wp_Close) (auto simp: is_open_def)
  from this this [where cs = "calls w" and b = "wShutdownPending w"] show ?thesis
    using assms(1,3) open_entry [OF assms(1,2)]
    by (auto simp: OS_IpcClose_win32_def wp_simps winv_length intro!: wp_api)
qed

end
