(* ===== verification/Os_Win32_Listen.thy ===== *)
theory Os_Win32_Listen
  imports Os_Win32_Safe
begin

text \<open>
  Properties of the Windows layer: all its states satisfy the invariant of the descriptor table;
  whom \<open>OS_Accept\<close> admits; clients that leave early use up the descriptor table; a listener on a
  named pipe of the application's own, and connections over TCP, cannot be used.
\<close>

section \<open>States of the library\<close>

text \<open>
  The calls an application makes, apart from the dispatcher \<open>OS_DoIo\<close>, which runs procedures of the
  application.
\<close>

datatype win_op =
    Init bool | Shutdown_lib | Create_ipc bytes int | Connect_to bytes | Read_fd int nat | Write_fd int bytes | Spawn bytes int
  | Close_fd int | Close_read int | Accept_client "bytes option" | Ipc_close int | Set_flags int int
  | Async_read int int nat nat nat | Async_write int int bytes nat nat | Async_read_stdin nat nat nat nat

definition no_result :: "'a win \<Rightarrow> unit win" where "no_result m = thenW m (retW ())"

primrec run_op :: "nat \<Rightarrow> bool \<Rightarrow> win_op \<Rightarrow> unit win" where
  "run_op k noWSA (Init b) = no_result (OS_LibInit_win32 b)"
| "run_op k noWSA Shutdown_lib = OS_LibShutdown_win32"
| "run_op k noWSA (Create_ipc p n) = no_result (OS_CreateLocalIpcFd_win32 p n)"
| "run_op k noWSA (Connect_to p) = no_result (OS_FcgiConnect_win32 p)"
| "run_op k noWSA (Read_fd fd n) = no_result (OS_Read_win32 fd n)"
| "run_op k noWSA (Write_fd fd bs) = no_result (OS_Write_win32 fd bs)"
| "run_op k noWSA (Spawn p fd) = no_result (OS_SpawnChild_win32 p fd)"
| "run_op k noWSA (Close_fd fd) = no_result (OS_Close_win32 k fd)"
| "run_op k noWSA (Close_read fd) = no_result (OS_CloseRead_win32 fd)"
| "run_op k noWSA (Accept_client l) = no_result (OS_Accept_win32 k noWSA l)"
| "run_op k noWSA (Ipc_close fd) = no_result (OS_IpcClose_win32 k fd)"
| "run_op k noWSA (Set_flags fd n) = no_result (OS_SetFlags_win32 fd n)"
| "run_op k noWSA (Async_read fd off n p d) = no_result (OS_AsyncRead_win32 fd off n p d)"
| "run_op k noWSA (Async_write fd off bs p d) = no_result (OS_AsyncWrite_win32 fd off bs p d)"
| "run_op k noWSA (Async_read_stdin buf n p d) = no_result (OS_AsyncReadStdin_win32 buf n p d)"

text \<open>
  Its duties: descriptors are open and of the right kind, lengths are \<open>int\<close>, a TCP path has no host
  name, and overlapped operations find memory for their requests.
\<close>

primrec op_ok :: "win32 \<Rightarrow> win_op \<Rightarrow> bool" where
  "op_ok w (Init b) = True"
| "op_ok w Shutdown_lib = True"
| "op_ok w (Create_ipc p n) = True"
| "op_ok w (Connect_to p) = (getPort p = 0 \<or> hd p = 58)"
| "op_ok w (Read_fd fd n) = (is_open w fd \<and> int n \<le> INT_MAX)"
| "op_ok w (Write_fd fd bs) = (is_open w fd \<and> int (length bs) \<le> INT_MAX)"
| "op_ok w (Spawn p fd) = is_open w fd"
| "op_ok w (Close_fd fd) = is_open w fd"
| "op_ok w (Close_read fd) = (is_open w fd \<and> is_socket (ftype (fdTable w ! nat fd)))"
| "op_ok w (Accept_client l) = True"
| "op_ok w (Ipc_close fd) = is_open w fd"
| "op_ok w (Set_flags fd n) = is_open w fd"
| "op_ok w (Async_read fd off n p d) = (mem_ok w \<and> is_async w fd)"
| "op_ok w (Async_write fd off bs p d) = (mem_ok w \<and> is_async w fd)"
| "op_ok w (Async_read_stdin buf n p d) = (mem_ok w \<and> is_open w STDIN_NO)"

text \<open>The state of the static variables when the program starts.\<close>

definition zero_entry :: FD_TABLE where
  "zero_entry = \<lparr>fid = 0, ftype = FD_UNUSED, fpath = None, fErrno = 0, finstance = 0, fstatus = 0, foffset = 0,
     offsetHighPtr = None, offsetLowPtr = None, hMapMutex = NULL_HANDLE\<rparr>"

definition win_start :: "(win_call list \<Rightarrow> api_answer) \<Rightarrow> win32" where
  "win_start an = \<lparr>hIoCompPort = INVALID_HANDLE_VALUE, hStdinCompPort = INVALID_HANDLE_VALUE, hStdinThread = INVALID_HANDLE_VALUE,
     stdioHandles = replicate 3 INVALID_HANDLE_VALUE, acceptMutex = INVALID_HANDLE_VALUE, wShutdownPending = False,
     wShutdownNow = False, listenType = FD_UNUSED, hListen = INVALID_HANDLE_VALUE, wLibInitialized = False,
     fdTable = replicate WIN32_OPEN_MAX zero_entry, ovs = Map.empty, nextOv = 0, pending = [], queues = (\<lambda>_. []), dwords = (\<lambda>_. 0),
     calls = [], win_answer = an\<rparr>"

inductive win_reach :: "(win_call list \<Rightarrow> api_answer) \<Rightarrow> win32 \<Rightarrow> bool" for an where
  start: "win_reach an (win_start an)"
| step: "win_reach an w \<Longrightarrow> op_ok w op \<Longrightarrow> run_op k noWSA op w = Inr (u, w') \<Longrightarrow> win_reach an w'"

lemma wp_Accept:
  assumes "winv w" "\<And>r w'. winv w' \<Longrightarrow> Q r w'"
  shows "wpW (OS_Accept_win32 k noWSA l) Q w"
  using assms
  by (auto simp: OS_Accept_win32_def printLastError_def wp_simps intro!: wp_LibShutdown wp_api wp_acceptNamedPipe wp_acceptSocket)

lemma run_op_safe: "winv w \<Longrightarrow> op_ok w op \<Longrightarrow> wpW (run_op k noWSA op) (\<lambda>_. winv) w"
  by (cases op) (auto simp: no_result_def wp_simps
      intro!: wp_LibInit wp_LibShutdown wp_CreateLocalIpcFd wp_FcgiConnect wp_Read wp_Write wp_SpawnChild wp_Close wp_CloseRead wp_Accept
        wp_IpcClose wp_SetFlags wp_AsyncRead_safe wp_AsyncWrite_safe wp_AsyncReadStdin_safe)

lemma win_start_inv: "\<forall>cs. int_handle (ret (an cs)) \<Longrightarrow> winv (win_start an)"
  by (auto simp: winv_def win_start_def plain_entry_def zero_entry_def int_handle_def set_replicate_conv_if)

lemma win_reach_inv:
  assumes "win_reach an w" "\<forall>cs. int_handle (ret (an cs))" shows "winv w"
  using assms(1)
proof induction
  case start
  then show ?case using win_start_inv [OF assms(2)] .
next
  case (step w op k noWSA u w')
  from wpW_Inr [OF run_op_safe [OF step.IH step.hyps(2)] step.hyps(3)] show ?case .
qed

text \<open>
  C34.  Every state that calls of the library lead to satisfies the invariant of the descriptor table
  (its size, the kinds of its entries), whatever the Windows API answers; and a call that fulfils
  the duties of the application fails no assertion, accesses no memory out of bounds and uses
  no freed memory: it returns, waits, or ends the process by \<open>exit\<close>.  The calls are those of
  \<open>win_op\<close>: all operations of the file, the overlapped ones included, except the dispatcher \<open>OS_DoIo\<close> and
  the thread of the standard input.  Connecting to a TCP path with a host name is against the duties of \<open>op_ok\<close>:
  it overflows the heap.
\<close>

theorem win32_states_safe:
  assumes "\<forall>cs. int_handle (ret (an cs))" "win_reach an w"
  shows "winv w \<and> (op_ok w op \<longrightarrow> (case run_op k noWSA op w of Inl e \<Rightarrow> benign e | Inr (_, w') \<Rightarrow> winv w'))"
  using win_reach_inv [OF assms(2,1)] run_op_safe [of w op k noWSA] by (simp add: wpW_def)

definition win_quiet :: "win_call list \<Rightarrow> api_answer" where
  "win_quiet cs = \<lparr>ret = 0, rbytes = [], rstr = None, rpeer = \<lparr>sin_inet = True, sin_addr = [10, 0, 0, 1]\<rparr>, rdone = [], rtime = 0, rshut = False\<rparr>"

theorem win32_states_safe_witness:
  "winv (win_start win_quiet) \<and> (case run_op 3 False (Init True) (win_start win_quiet) of Inl e \<Rightarrow> benign e | Inr (_, w') \<Rightarrow> winv w')"
  using win32_states_safe [OF _ win_reach.start, of win_quiet "Init True" 3 False] by (simp add: win_quiet_def int_handle_def)

section \<open>Whom the library admits\<close>

lemma strstr_Some: "strstr str needle = Some p \<Longrightarrow> take (length needle) (drop p str) = needle \<and> p + length needle \<le> length str"
proof (induction str needle arbitrary: p rule: strstr.induct)
  case (2 c str needle)
  show ?case
  proof (cases "take (length needle) (c # str) = needle")
    case True
    then have "length needle \<le> length (c # str)" by (metis length_take min.cobounded2 nle_le take_all)
    with True 2 show ?thesis by auto
  qed (use 2 in auto)
qed (auto split: if_splits)

text \<open>An address stands in the list between separators or ends of the list.\<close>

definition listed :: "bytes \<Rightarrow> bytes \<Rightarrow> bool" where
  "listed ip str \<longleftrightarrow> (\<exists>pre post. str = pre @ ip @ post \<and> (pre = [] \<or> is_token (last pre)) \<and> (post = [] \<or> is_token (hd post)))"

lemma isAddrOK_listed:
  assumes "isAddrOK addr (Some str)"
  shows "listed (inet_ntoa addr) str"
proof -
  define ip where "ip = inet_ntoa addr"
  from assms obtain p where p: "strstr str ip = Some p"
    "p \<noteq> 0 \<Longrightarrow> is_token (byte_in str (p - 1))" "is_token (byte_in str (p + length ip))"
    by (auto simp: isAddrOK_def Let_def ip_def split: option.splits if_splits)
  note s = strstr_Some [OF p(1)]
  let ?pre = "take p str" and ?post = "drop (p + length ip) str"
  have "drop p str = ip @ ?post" using s append_take_drop_id [of "length ip" "drop p str"] by (simp add: add.commute)
  then have "str = ?pre @ ip @ ?post" using append_take_drop_id [of p str] by simp
  moreover have "?pre = [] \<or> is_token (last ?pre)"
  proof (cases "?pre = []")
    case False
    then have "last ?pre = byte_in str (p - 1)" using s by (subst last_conv_nth) (auto simp: byte_in_def)
    with False p(2) show ?thesis by auto
  qed simp
  moreover have "?post = [] \<or> is_token (hd ?post)"
    using p(3) by (cases "p + length ip < length str") (simp_all add: byte_in_def hd_drop_conv_nth)
  ultimately show ?thesis unfolding listed_def ip_def by blast
qed

text \<open>Only the first place where the digits of the address occur is looked at.\<close>

lemma isAddrOK_shadowed:
  assumes "\<not> is_token c" "inet_ntoa addr \<noteq> []"
  shows "\<not> isAddrOK addr (Some (inet_ntoa addr @ c # rest))"
proof -
  have "strstr (inet_ntoa addr @ c # rest) (inet_ntoa addr) = Some 0"
    using assms(2) by (cases "inet_ntoa addr") auto
  then show ?thesis using assms(1) by (simp add: isAddrOK_def byte_in_def)
qed

lemma wp_Accept_socket:
  assumes "winv w" "listenType w = FD_SOCKET_SYNC"
    and "\<And>s i w'. admitted_sock w noWSA l s \<Longrightarrow> valid_fd i \<Longrightarrow> unused (fdTable w) (nat i) \<Longrightarrow>
      fdTable w' = (fdTable w)[nat i := new_entry FD_SOCKET_SYNC s (fdTable w ! nat i)] \<Longrightarrow> Q i w'"
    and "\<And>w'. Q (- 1) w'"
  shows "wpW (OS_Accept_win32 k noWSA l) Q w"
  using assms by (auto simp: OS_Accept_win32_def printLastError_def wp_simps intro!: wp_LibShutdown wp_api wp_acceptSocket)

text \<open>
  C35.  On a listening socket \<open>OS_Accept\<close> returns only descriptors of admitted clients: the descriptor's
  entry was unused and now holds a socket the API returned for a client, no other entry changed, and if a
  list of addresses is given and the client has an IPv4 address, that address stands in the list
  between separators.
\<close>

theorem accept_win32_admits:
  assumes "winv w" "listenType w = FD_SOCKET_SYNC" "OS_Accept_win32 k False l w = Inr (fd, w')" "fd \<noteq> - 1"
  shows "valid_fd fd \<and> unused (fdTable w) (nat fd)
    \<and> (\<exists>cs. let a = win_answer w (cs @ [Sock (WSAAccept (hListen w))]) in
         fdTable w' = (fdTable w)[nat fd := new_entry FD_SOCKET_SYNC (ret a) (fdTable w ! nat fd)]
         \<and> (\<forall>str. l = Some str \<and> sin_inet (rpeer a) \<longrightarrow> listed (inet_ntoa (sin_addr (rpeer a))) str))"
proof -
  have "wpW (OS_Accept_win32 k False l) (\<lambda>fd w'. fd \<noteq> - 1 \<longrightarrow> valid_fd fd \<and> unused (fdTable w) (nat fd)
      \<and> (\<exists>s. admitted_sock w False l s \<and> fdTable w' = (fdTable w)[nat fd := new_entry FD_SOCKET_SYNC s (fdTable w ! nat fd)])) w"
    by (rule wp_Accept_socket [OF assms(1,2)]) auto
  from wpW_Inr [OF this assms(3)] assms(4) show ?thesis
    by (auto simp: admitted_sock_def Let_def isAddrOKCallback_def dest: isAddrOK_listed split: if_splits)
qed

text \<open>A listening socket 5, and an API with a client on socket 6 in the list.\<close>

definition one_client :: "win_call list \<Rightarrow> api_answer" where
  "one_client cs = (win_quiet cs)\<lparr>ret := (case last cs of Sock (WSAAccept _) \<Rightarrow> 6 | Sock (Select _) \<Rightarrow> 1 | _ \<Rightarrow> 0)\<rparr>"

definition win_listening :: win32 where
  "win_listening = (win_start one_client)\<lparr>listenType := FD_SOCKET_SYNC, hListen := 5\<rparr>"

lemma win_listening_inv: "winv win_listening"
  unfolding win_listening_def
  by (intro winv_update win_start_inv) (auto simp: one_client_def int_handle_def split: win_call.splits sock_call.splits)

theorem accept_win32_admits_witness:
  "\<exists>w'. OS_Accept_win32 (Suc 0) False (Some (chars ''10.0.0.1'')) win_listening = Inr (6, w')
    \<and> valid_fd 6 \<and> unused (fdTable win_listening) (nat 6)
    \<and> (\<exists>cs. let a = win_answer win_listening (cs @ [Sock (WSAAccept (hListen win_listening))]) in
         fdTable w' = (fdTable win_listening)[nat 6 := new_entry FD_SOCKET_SYNC (ret a) (fdTable win_listening ! nat 6)]
         \<and> (\<forall>str. Some (chars ''10.0.0.1'') = Some str \<and> sin_inet (rpeer a) \<longrightarrow> listed (inet_ntoa (sin_addr (rpeer a))) str))"
proof -
  obtain w' where w: "OS_Accept_win32 (Suc 0) False (Some (chars ''10.0.0.1'')) win_listening = Inr (6, w')"
    by (simp add: OS_Accept_win32_def acceptSocket_def accept_try_def bindW_def thenW_def getW_def retW_def whenW_def modW_def api_def assertW_def
      win_listening_def win_start_def one_client_def win_quiet_def isAddrOKCallback_def isAddrOK_def chars_def octet_def byte_in_def is_token_def
      int_handle_def Win32NewDescriptor_def new_index_def valid_fd_def unused_def zero_entry_def set_entry_def entry_def Let_def)
  have "listenType win_listening = FD_SOCKET_SYNC" by (simp add: win_listening_def)
  from accept_win32_admits [OF win_listening_inv this w] w show ?thesis by auto
qed

section \<open>Clients that leave early\<close>

text \<open>Running code step by step when no shutdown is signalled.\<close>

lemma run_combinators:
  "retW x w = Inr (x, w)" "failW e w = Inl e" "bindW m f w = bindR (m w) (\<lambda>(x, w). f x w)" "thenW m n w = bindR (m w) (\<lambda>(_, w). n w)"
  "getW g w = Inr (g w, w)" "modW h w = Inr ((), h w)" "assertW b w = bindR (ASSERT b) (\<lambda>_. Inr ((), w))"
  "whenW b m w = (if b then bindR (m w) (\<lambda>(_, w). Inr ((), w)) else Inr ((), w))"
  by (simp_all add: retW_def failW_def bindW_def thenW_def getW_def modW_def assertW_def whenW_def)

lemma run_api: "\<not> rshut (win_answer w (calls w @ [c])) \<Longrightarrow> api c w = Inr (win_answer w (calls w @ [c]), w\<lparr>calls := calls w @ [c]\<rparr>)"
  by (simp add: api_def run_combinators)

text \<open>
  A server on a named pipe whose clients are gone when the response is complete, so that
  \<open>FlushFileBuffers\<close> fails.
\<close>

definition early_leavers :: "win32 \<Rightarrow> bool" where
  "early_leavers w \<longleftrightarrow> winv w \<and> listenType w = FD_PIPE_SYNC \<and> \<not> wShutdownPending w \<and> 0 < hListen w
     \<and> (\<forall>cs. \<not> rshut (win_answer w cs)) \<and> (\<forall>cs h. ret (win_answer w (cs @ [Pipe (FlushFileBuffers h)])) = 0)
     \<and> (\<forall>cs m. ret (win_answer w (cs @ [Sys (WaitForSingleObject m)])) \<noteq> WAIT_FAILED)"

definition free_slots :: "FD_TABLE list \<Rightarrow> nat set" where
  "free_slots t = {i \<in> {1..<WIN32_OPEN_MAX}. unused t i}"

definition serve_pipe :: "nat \<Rightarrow> bool win" where
  "serve_pipe k = bindW (OS_Accept_win32 k False None) (\<lambda>fd.
     if fd = - 1 then retW False else thenW (OS_IpcClose_win32 k fd) (retW True))"

primrec serve_all :: "nat \<Rightarrow> nat \<Rightarrow> bool list win" where
  "serve_all k 0 = retW []"
| "serve_all k (Suc n) = bindW (serve_pipe k) (\<lambda>b. bindW (serve_all k n) (\<lambda>bs. retW (b # bs)))"

lemma new_index_pipe:
  assumes "0 < h"
  shows "if free_slots t = {} then new_index t h (- 1) = - 1
    else new_index t h (- 1) \<noteq> - 1 \<and> nat (new_index t h (- 1)) \<in> free_slots t"
proof (cases "h < int WIN32_OPEN_MAX \<and> unused t (nat h)")
  case True
  then have "nat h \<in> free_slots t" using assms by (auto simp: free_slots_def)
  with True assms show ?thesis by (auto simp: new_index_def valid_fd_def)
next
  case False
  then have n: "new_index t h (- 1) = (case find (unused t) [1..<WIN32_OPEN_MAX] of Some i \<Rightarrow> int i | None \<Rightarrow> - 1)"
    using assms by (auto simp: new_index_def valid_fd_def)
  show ?thesis
  proof (cases "find (unused t) [1..<WIN32_OPEN_MAX]")
    case None
    then have "free_slots t = {}" by (auto simp: free_slots_def find_None_iff)
    with n None show ?thesis by simp
  next
    case (Some i)
    then have "i \<in> free_slots t" using find_unused by (auto simp: free_slots_def)
    with n Some show ?thesis by auto
  qed
qed

lemma free_slots_take: "i \<in> free_slots t \<Longrightarrow> length t = WIN32_OPEN_MAX \<Longrightarrow> ftype e \<noteq> FD_UNUSED \<Longrightarrow> free_slots (t[i := e]) = free_slots t - {i}"
  by (auto simp: free_slots_def unused_def nth_list_update)

lemma accept_pipe_run:
  assumes "early_leavers w"
  shows "\<exists>cs. OS_Accept_win32 k noWSA l w =
    (let i = new_index (fdTable w) (hListen w) (- 1) in
     Inr (i, w\<lparr>calls := cs, fdTable := if i = - 1 then fdTable w
       else (fdTable w)[nat i := new_entry FD_PIPE_SYNC (hListen w) (fdTable w ! nat i)]\<rparr>))"
proof -
  let ?i = "new_index (fdTable w) (hListen w) (- 1)"
  have e: "winv w" "listenType w = FD_PIPE_SYNC" "\<not> wShutdownPending w" "\<And>cs. \<not> rshut (win_answer w cs)"
    "\<And>cs m. ret (win_answer w (cs @ [Sys (WaitForSingleObject m)])) \<noteq> - 1" "int_handle (hListen w)"
    using assms by (auto simp: early_leavers_def winv_def)
  have new: "Win32NewDescriptor FD_PIPE_SYNC (hListen w) (- 1) (w\<lparr>calls := cs\<rparr>) = Inr (?i, w\<lparr>calls := cs, fdTable := if ?i = - 1 then fdTable w
       else (fdTable w)[nat ?i := new_entry FD_PIPE_SYNC (hListen w) (fdTable w ! nat ?i)]\<rparr>)" for cs
    using new_index_range [of "fdTable w" "hListen w" "- 1"] winv_length [OF e(1)]
    by (auto simp: Win32NewDescriptor_def run_combinators set_entry_def entry_def new_entry_def nat_less_iff)
  have "\<exists>cs'. acceptNamedPipe (w\<lparr>calls := cs\<rparr>) = Inr (?i, w\<lparr>calls := cs', fdTable := if ?i = - 1 then fdTable w
       else (fdTable w)[nat ?i := new_entry FD_PIPE_SYNC (hListen w) (fdTable w ! nat ?i)]\<rparr>)" for cs
    using e(4,6) new by (auto simp: acceptNamedPipe_def printLastError_def run_combinators run_api)
  then obtain f where f: "\<And>cs. acceptNamedPipe (w\<lparr>calls := cs\<rparr>) = Inr (?i, w\<lparr>calls := f cs, fdTable := if ?i = - 1 then fdTable w
       else (fdTable w)[nat ?i := new_entry FD_PIPE_SYNC (hListen w) (fdTable w ! nat ?i)]\<rparr>)" by metis
  have comm: "w\<lparr>fdTable := t, calls := cs\<rparr> = w\<lparr>calls := cs, fdTable := t\<rparr>" for t cs by simp
  from f [of "calls w"] f e show ?thesis
    by (auto simp: OS_Accept_win32_def run_combinators run_api Let_def comm)
qed

lemma serve_pipe_run:
  assumes "early_leavers w"
  shows "\<exists>w'. serve_pipe k w = Inr (free_slots (fdTable w) \<noteq> {}, w') \<and> early_leavers w'
    \<and> card (free_slots (fdTable w')) = card (free_slots (fdTable w)) - 1"
proof -
  let ?i = "new_index (fdTable w) (hListen w) (- 1)"
  have e: "winv w" "listenType w = FD_PIPE_SYNC" "\<And>cs. \<not> rshut (win_answer w cs)" "0 < hListen w"
    "\<And>cs h. ret (win_answer w (cs @ [Pipe (FlushFileBuffers h)])) = 0"
    using assms by (auto simp: early_leavers_def)
  note n = new_index_pipe [OF e(4), of "fdTable w"]
  obtain cs where a: "OS_Accept_win32 k False None w = (if ?i = - 1 then Inr (- 1, w\<lparr>calls := cs\<rparr>)
      else Inr (?i, w\<lparr>calls := cs, fdTable := (fdTable w)[nat ?i := new_entry FD_PIPE_SYNC (hListen w) (fdTable w ! nat ?i)]\<rparr>))"
    using accept_pipe_run [OF assms, of k False None] by (auto simp: Let_def split: if_splits)
  show ?thesis
  proof (cases "free_slots (fdTable w) = {}")
    case True
    with n a assms show ?thesis by (auto simp: serve_pipe_def run_combinators early_leavers_def)
  next
    case False
    let ?t = "(fdTable w)[nat ?i := new_entry FD_PIPE_SYNC (hListen w) (fdTable w ! nat ?i)]"
    let ?w = "w\<lparr>calls := cs, fdTable := ?t\<rparr>"
    have i: "?i \<noteq> - 1" "nat ?i \<in> free_slots (fdTable w)" using n False by auto
    note r = new_index_range [OF i(1)]
    have p: "plain_entry (fdTable w ! nat ?i)" using r by (intro winv_entry [OF e(1)]) simp_all
    have w: "winv ?w" using e(1) p by (simp add: plain_entry_def new_entry_def)
    let ?h = "Pipe (FlushFileBuffers (hListen w))"
    have c: "OS_IpcClose_win32 k ?i ?w = Inr (- 1, ?w\<lparr>calls := cs @ [?h]\<rparr>)"
      using i(1) r e(2,3,5) winv_length [OF e(1)]
      by (simp add: OS_IpcClose_win32_def run_combinators run_api entry_def valid_fd_def nat_less_iff new_entry_def)
    have "free_slots ?t = free_slots (fdTable w) - {nat ?i}"
      using i(2) winv_length [OF e(1)] by (intro free_slots_take) (simp_all add: new_entry_def)
    then have "card (free_slots ?t) = card (free_slots (fdTable w)) - 1" using i(2) by simp
    moreover have "early_leavers (?w\<lparr>calls := cs @ [?h]\<rparr>)" using assms w by (simp add: early_leavers_def)
    ultimately show ?thesis using a i(1) c False by (simp add: serve_pipe_def run_combinators)
  qed
qed

text \<open>
  C37.  A web server closes its end of the pipe before the response is complete, so that \<open>OS_IpcClose\<close>
  cannot flush the pipe and returns without closing the descriptor.  Each such client uses up
  an entry of the table for ever: as many clients are served as there were free entries, 127 at
  most, and then \<open>OS_Accept\<close> fails for every further client.
\<close>

theorem pipe_clients_exhaust:
  assumes "early_leavers w" "card (free_slots (fdTable w)) \<le> n"
  shows "\<exists>w'. serve_all k n w = Inr (replicate (card (free_slots (fdTable w))) True @ replicate (n - card (free_slots (fdTable w))) False, w')"
  using assms
proof (induction n arbitrary: w)
  case (Suc n)
  let ?f = "\<lambda>w. card (free_slots (fdTable w))"
  from serve_pipe_run [OF Suc.prems(1), of k] obtain w1 where
    w1: "serve_pipe k w = Inr (free_slots (fdTable w) \<noteq> {}, w1)" "early_leavers w1" "?f w1 = ?f w - 1" by blast
  have "?f w1 \<le> n" using Suc.prems(2) w1(3) by linarith
  from Suc.IH [OF w1(2) this] obtain w' where w': "serve_all k n w1 = Inr (replicate (?f w1) True @ replicate (n - ?f w1) False, w')" by blast
  have run: "serve_all k (Suc n) w = Inr ((free_slots (fdTable w) \<noteq> {}) # replicate (?f w1) True @ replicate (n - ?f w1) False, w')"
    using w1(1) w' by (simp add: run_combinators)
  have fin: "finite (free_slots (fdTable w))" by (simp add: free_slots_def)
  show ?case
  proof (cases "free_slots (fdTable w) = {}")
    case True
    with run w1(3) show ?thesis by simp
  next
    case False
    then obtain m where "?f w = Suc m" using fin by (metis card_0_eq not0_implies_Suc)
    with run w1(3) False show ?thesis by simp
  qed
qed (simp add: run_combinators)

definition win_pipe :: win32 where
  "win_pipe = (win_start win_quiet)\<lparr>listenType := FD_PIPE_SYNC, hListen := 5\<rparr>"

lemma win_pipe: "early_leavers win_pipe" "free_slots (fdTable win_pipe) = {1..<WIN32_OPEN_MAX}"
proof -
  have "winv win_pipe" unfolding win_pipe_def by (intro winv_update win_start_inv) (auto simp: win_quiet_def int_handle_def)
  then show "early_leavers win_pipe" by (simp add: early_leavers_def win_pipe_def win_start_def win_quiet_def)
  show "free_slots (fdTable win_pipe) = {1..<WIN32_OPEN_MAX}"
    by (auto simp: free_slots_def unused_def win_pipe_def win_start_def zero_entry_def)
qed

theorem pipe_clients_exhaust_witness: "\<exists>w'. serve_all 9 130 win_pipe = Inr (replicate 127 True @ replicate 3 False, w')"
  using pipe_clients_exhaust [OF win_pipe(1), of 130 9] unfolding win_pipe(2) by simp

section \<open>Listening and connecting\<close>

lemma is_open_new:
  assumes "winv w" "0 \<le> i" "i < int WIN32_OPEN_MAX" "ty \<noteq> FD_UNUSED"
  shows "is_open (w\<lparr>fdTable := (fdTable w)[nat i := new_entry ty h (fdTable w ! nat i)]\<rparr>) i"
  using assms winv_length [OF assms(1)] by (simp add: is_open_def valid_fd_def unused_def new_entry_def nat_less_iff)

lemma is_open_update [simp]:
  "is_open (w\<lparr>calls := cs\<rparr>) = is_open w" "is_open (w\<lparr>wShutdownPending := b\<rparr>) = is_open w" "is_open (w\<lparr>hListen := h\<rparr>) = is_open w"
  "is_open (w\<lparr>calls := cs, fdTable := t\<rparr>) = is_open (w\<lparr>fdTable := t\<rparr>)" "is_open (w\<lparr>wShutdownPending := b, fdTable := t\<rparr>) = is_open (w\<lparr>fdTable := t\<rparr>)"
  by (simp_all add: fun_eq_iff is_open_def)

lemma wp_listen_pipe_open:
  assumes "winv w" "listenType w \<noteq> FD_UNUSED" "\<And>r w'. winv w' \<Longrightarrow> listenType w' = listenType w \<Longrightarrow> is_open w' r \<Longrightarrow> Q r w'"
    and "\<And>r w'. r < 0 \<Longrightarrow> Q r w'"
  shows "wpW (listen_pipe path) Q w"
  using assms by (auto simp: listen_pipe_def wp_simps winv_listen is_open_new intro!: wp_api wp_new_descriptor)

text \<open>
  C38.  A listener that the application opens itself on a named pipe is useless: \<open>OS_CreateLocalIpcFd\<close>
  marks it as \<open>FD_PIPE_ASYNC\<close>, a type \<open>OS_Accept\<close> does not know.  \<open>OS_IsFcgi\<close> says that the process is a FastCGI
  process, but every \<open>OS_Accept\<close> that returns returns \<open>-1\<close>, and \<open>OS_IpcClose\<close> of an open descriptor ends the process.
\<close>

theorem own_pipe_never_accepts:
  assumes "winv w" "getPort path = 0" "OS_CreateLocalIpcFd_win32 path n w = Inr (fd, w')" "0 \<le> fd"
  shows "OS_IsFcgi_win32 w' = Inr (1, w') \<and> (\<forall>k noWSA l r w''. OS_Accept_win32 k noWSA l w' = Inr (r, w'') \<longrightarrow> r = - 1)
    \<and> OS_IpcClose_win32 k fd w' = Inl (Exit 106)"
proof -
  have "wpW (OS_CreateLocalIpcFd_win32 path n) (\<lambda>fd w'. 0 \<le> fd \<longrightarrow> winv w' \<and> listenType w' = FD_PIPE_ASYNC \<and> is_open w' fd) w"
    using assms(1,2)
    by (auto simp: OS_CreateLocalIpcFd_win32_def Let_def wp_simps intro!: wp_accept_mutex wp_listen_pipe_open)
  from wpW_Inr [OF this assms(3)] assms(4) have w: "winv w'" "listenType w' = FD_PIPE_ASYNC" "is_open w' fd" by auto
  have "wpW (OS_Accept_win32 k noWSA l) (\<lambda>r _. r = - 1) w'" for k noWSA l
    using w(1,2) by (auto simp: OS_Accept_win32_def printLastError_def wp_simps intro!: wp_api wp_LibShutdown)
  then have acc: "OS_Accept_win32 k noWSA l w' = Inr (r, w'') \<Longrightarrow> r = - 1" for k noWSA l r w'' by (rule wpW_Inr)
  have "OS_IpcClose_win32 k fd w' = Inl (Exit 106)"
    using w(2) open_entry(1,2,3,5) [OF w(1,3)] winv_length [OF w(1)] assms(4)
    by (simp add: OS_IpcClose_win32_def run_combinators entry_def)
  with acc w(2) show ?thesis by (simp add: OS_IsFcgi_win32_def getW_def)
qed

definition make_pipe :: "win_call list \<Rightarrow> api_answer" where "make_pipe cs = (win_quiet cs)\<lparr>ret := 9\<rparr>"

theorem own_pipe_never_accepts_witness:
  "\<exists>w'. OS_CreateLocalIpcFd_win32 (chars ''app'') 5 (win_start make_pipe) = Inr (9, w')
    \<and> OS_IsFcgi_win32 w' = Inr (1, w') \<and> (\<forall>k noWSA l r w''. OS_Accept_win32 k noWSA l w' = Inr (r, w'') \<longrightarrow> r = - 1)
    \<and> OS_IpcClose_win32 3 9 w' = Inl (Exit 106)"
proof -
  have port: "getPort (chars ''app'') = 0" by (simp add: getPort_def chars_def)
  have inv: "winv (win_start make_pipe)" by (rule win_start_inv) (simp add: make_pipe_def int_handle_def)
  obtain w' where w: "OS_CreateLocalIpcFd_win32 (chars ''app'') 5 (win_start make_pipe) = Inr (9, w')"
    using port by (simp add: OS_CreateLocalIpcFd_win32_def accept_mutex_def listen_pipe_def run_combinators run_api win_start_def make_pipe_def win_quiet_def
      int_handle_def Win32NewDescriptor_def new_index_def valid_fd_def unused_def zero_entry_def set_entry_def entry_def Let_def)
  from own_pipe_never_accepts [OF inv port w] w show ?thesis by auto
qed

lemma host_block_overflows:
  assumes "hd path \<noteq> 58" "mem_ok w" "\<forall>cs. \<not> rshut (win_answer w cs)"
  shows "host_block path w = Inl HeapOverflow"
  using assms by (simp add: host_block_def run_combinators run_api mem_ok_def Let_def)

lemma host_block_faults: "hd path \<noteq> 58 \<Longrightarrow> host_block path w \<noteq> Inr r"
  by (cases r) (auto simp: host_block_def run_combinators bindR_eq_Inr Let_def split: if_splits)

lemma wp_connect_port_log:
  assumes "winv w" "hd path = 58"
    and "\<And>s addr i v cs. ret (win_answer w (calls v)) \<noteq> 0 \<Longrightarrow> calls v = cs @ [Sock (Connect s addr p)] \<Longrightarrow> is_open v i \<Longrightarrow>
      fdTable v ! nat i = new_entry FD_SOCKET_SYNC s (fdTable w ! nat i) \<Longrightarrow> Q i v"
    and "\<And>w'. Q (- 1) w'"
  shows "wpW (connect_port path p) Q w"
  using assms
  by (auto simp: connect_port_def host_block_def wp_simps is_open_new winv_length nat_less_iff winv_def split: option.splits
      intro!: wp_api [where c = "Sock (Gethostbyname h)" for h] wp_api [where c = "Sock Socket"] wp_api [where c = "Sock (Closesocket s)" for s]
        wp_api_log [where c = "Sock (Connect s a p)" for s a] wp_new_descriptor)

text \<open>
  C39.  \<open>OS_FcgiConnect\<close> over TCP is wrong in every case.  With a local port it returns a descriptor only
  for a socket that failed to connect: the last call of the API was that of \<open>connect\<close>, it returned an error,
  and the descriptor holds its socket.  With a host name it never returns: the name's block is too small for the
  NUL, which is stored behind the block unless the allocation fails or the process is shut down before.
\<close>

theorem connect_tcp_wrong:
  assumes "winv w" "getPort path \<noteq> 0"
  shows "(hd path = 58 \<longrightarrow> (\<forall>fd w'. OS_FcgiConnect_win32 path w = Inr (fd, w') \<and> fd \<noteq> - 1 \<longrightarrow>
      (\<exists>cs sock addr. calls w' = cs @ [Sock (Connect sock addr (getPort path))] \<and> ret (win_answer w (calls w')) \<noteq> 0
         \<and> ftype (fdTable w' ! nat fd) = FD_SOCKET_SYNC \<and> fid (fdTable w' ! nat fd) = sock)))
    \<and> (hd path \<noteq> 58 \<longrightarrow> (\<forall>r. OS_FcgiConnect_win32 path w \<noteq> Inr r)
         \<and> (mem_ok w \<and> (\<forall>cs. \<not> rshut (win_answer w cs)) \<longrightarrow> OS_FcgiConnect_win32 path w = Inl HeapOverflow))"
proof -
  let ?P = "\<lambda>fd w'. \<exists>cs sock addr. calls w' = cs @ [Sock (Connect sock addr (getPort path))] \<and> ret (win_answer w (calls w')) \<noteq> 0
         \<and> ftype (fdTable w' ! nat fd) = FD_SOCKET_SYNC \<and> fid (fdTable w' ! nat fd) = sock"
  have wp: "wpW (connect_port path (getPort path)) (\<lambda>fd w'. fd \<noteq> - 1 \<longrightarrow> ?P fd w') w" if "hd path = 58"
  proof (rule wp_connect_port_log [OF assms(1) that])
    fix s addr i v cs
    assume "ret (win_answer w (calls v)) \<noteq> 0" "calls v = cs @ [Sock (Connect s addr (getPort path))]"
      "fdTable v ! nat i = new_entry FD_SOCKET_SYNC s (fdTable w ! nat i)"
    then show "i \<noteq> - 1 \<longrightarrow> ?P i v" by (simp add: new_entry_def)
  qed simp
  have tcp: "?P fd w'" if "hd path = 58" "OS_FcgiConnect_win32 path w = Inr (fd, w')" "fd \<noteq> - 1" for fd w'
  proof -
    have "connect_port path (getPort path) w = Inr (fd, w')" using that(2) assms(2) by (simp add: OS_FcgiConnect_win32_def)
    from wpW_Inr [OF wp [OF that(1)] this] that(3) show ?thesis by blast
  qed
  have "OS_FcgiConnect_win32 path w \<noteq> Inr r" if "hd path \<noteq> 58" for r
    using assms(2) host_block_faults [OF that, of w]
    by (auto simp: OS_FcgiConnect_win32_def connect_port_def bindW_def bindR_eq_Inr)
  moreover have "OS_FcgiConnect_win32 path w = Inl HeapOverflow" if "hd path \<noteq> 58" "mem_ok w" "\<forall>cs. \<not> rshut (win_answer w cs)"
    using assms(2) host_block_overflows [OF that] by (simp add: OS_FcgiConnect_win32_def connect_port_def bindW_def)
  ultimately show ?thesis using tcp by (intro conjI impI allI) auto
qed

text \<open>An API that refuses every connection.\<close>

definition refusing :: "win_call list \<Rightarrow> api_answer" where
  "refusing cs = (win_quiet cs)\<lparr>ret := (case last cs of Sock Socket \<Rightarrow> 7 | Sock (Connect _ _ _) \<Rightarrow> - 1 | _ \<Rightarrow> 0), rstr := Some [127, 0, 0, 1]\<rparr>"

theorem connect_tcp_wrong_witness:
  "\<exists>w'. OS_FcgiConnect_win32 (chars '':80'') (win_start refusing) = Inr (7, w')
    \<and> (\<exists>cs sock addr. calls w' = cs @ [Sock (Connect sock addr (getPort (chars '':80'')))] \<and> ret (win_answer (win_start refusing) (calls w')) \<noteq> 0
         \<and> ftype (fdTable w' ! nat 7) = FD_SOCKET_SYNC \<and> fid (fdTable w' ! nat 7) = sock)
    \<and> OS_FcgiConnect_win32 (chars ''www:80'') (win_start make_pipe) = Inl HeapOverflow"
proof -
  have port: "getPort (chars '':80'') = 80"
    by (simp add: getPort_def chars_def atoi_def is_space_def is_digit_def digits_value_def)
  have inv: "winv (win_start refusing)"
    by (rule win_start_inv) (auto simp: refusing_def int_handle_def split: win_call.splits sock_call.splits)
  obtain w' where w: "OS_FcgiConnect_win32 (chars '':80'') (win_start refusing) = Inr (7, w')"
    using port by (simp add: OS_FcgiConnect_win32_def connect_port_def host_block_def run_combinators run_api win_start_def refusing_def win_quiet_def chars_def
      int_handle_def Win32NewDescriptor_def new_index_def valid_fd_def unused_def zero_entry_def set_entry_def entry_def Let_def)
  have h: "hd (chars '':80'') = 58" by (simp add: chars_def)
  have "getPort (chars ''www:80'') \<noteq> 0" "hd (chars ''www:80'') \<noteq> 58"
    by (simp_all add: getPort_def chars_def atoi_def is_space_def is_digit_def digits_value_def)
  moreover have "winv (win_start make_pipe)" by (rule win_start_inv) (simp add: make_pipe_def int_handle_def)
  moreover have "mem_ok (win_start make_pipe)" "\<forall>cs. \<not> rshut (win_answer (win_start make_pipe) cs)"
    by (simp_all add: mem_ok_def win_start_def make_pipe_def win_quiet_def)
  ultimately have "OS_FcgiConnect_win32 (chars ''www:80'') (win_start make_pipe) = Inl HeapOverflow"
    using connect_tcp_wrong [of "win_start make_pipe" "chars ''www:80''"] by blast
  with connect_tcp_wrong [OF inv, of "chars '':80''"] port h w show ?thesis by auto
qed

end
