(* ===== verification/Os_Win32_Async.thy ===== *)
theory Os_Win32_Async
  imports Os_Win32_Listen "HOL-Library.Multiset"
begin

text \<open>
  Overlapped operations of the Windows layer: the requests in progress, in the completion port
  and in the port of the standard input are allocated blocks, each in one place only; the
  operations and the dispatcher keep it so, with any client procedures that do.
\<close>

section \<open>The requests\<close>

definition io_ovs :: "win32 \<Rightarrow> nat list" where
  "io_ovs w = map (snd \<circ> snd) (queues w (hIoCompPort w)) @ map snd (pending w) @ map (snd \<circ> snd) (queues w (hStdinCompPort w))"

definition io_keys :: "win32 \<Rightarrow> int list" where
  "io_keys w = map (fst \<circ> snd) (queues w (hIoCompPort w)) @ map fst (pending w)"

definition io_inv :: "win32 \<Rightarrow> bool" where
  "io_inv w \<longleftrightarrow> winv w \<and> mem_ok w \<and> hIoCompPort w \<noteq> hStdinCompPort w \<and> distinct (io_ovs w) \<and> dom (ovs w) \<subseteq> {..<nextOv w}
     \<and> (\<forall>ov \<in> set (io_ovs w). ov < nextOv w \<and> ovs w ov \<noteq> None) \<and> (\<forall>fd \<in> set (io_keys w). valid_fd fd)
     \<and> (\<forall>(n, fd, ov) \<in> set (queues w (hStdinCompPort w)). fd = STDIN_NO \<and> ovClientData1 (the (ovs w ov)) \<noteq> 0)"

text \<open>
  A request is out of the system's reach when its block is allocated and it is in no queue: the one
  that is just being dispatched, or one that nobody will ever free.
\<close>

definition loose :: "win32 \<Rightarrow> nat set" where
  "loose w = dom (ovs w) - set (io_ovs w)"

text \<open>
  From \<open>w\<close> to \<open>w'\<close> the invariant is kept, no request that was in no queue is put into one or freed,
  and no allocated request is lost.
\<close>

definition io_keeps :: "win32 \<Rightarrow> win32 \<Rightarrow> bool" where
  "io_keeps w w' \<longleftrightarrow> io_inv w' \<and> nextOv w \<le> nextOv w' \<and> (\<forall>ov \<in> set (io_ovs w'). ov < nextOv w \<longrightarrow> ov \<in> set (io_ovs w))
     \<and> loose w' = loose w"

lemma io_keeps_refl [simp]: "io_keeps w w \<longleftrightarrow> io_inv w"
  by (simp add: io_keeps_def)

lemma io_keeps_trans:
  assumes "io_keeps w w'" "io_keeps w' w''" shows "io_keeps w w''"
  using assms less_le_trans [of _ "nextOv w" "nextOv w'"] by (simp add: io_keeps_def)

lemma io_ovs_update [simp]:
  "io_ovs (w\<lparr>calls := cs\<rparr>) = io_ovs w" "io_ovs (w\<lparr>wShutdownPending := b\<rparr>) = io_ovs w" "io_ovs (w\<lparr>fdTable := t\<rparr>) = io_ovs w"
  "io_keys (w\<lparr>calls := cs\<rparr>) = io_keys w" "io_keys (w\<lparr>wShutdownPending := b\<rparr>) = io_keys w" "io_keys (w\<lparr>fdTable := t\<rparr>) = io_keys w"
  "io_ovs (w\<lparr>ovs := q\<rparr>) = io_ovs w" "io_ovs (w\<lparr>nextOv := n\<rparr>) = io_ovs w" "io_keys (w\<lparr>ovs := q\<rparr>) = io_keys w" "io_keys (w\<lparr>nextOv := n\<rparr>) = io_keys w"
  by (simp_all add: io_ovs_def io_keys_def)

lemma loose_update [simp]:
  "loose (w\<lparr>calls := cs\<rparr>) = loose w" "loose (w\<lparr>wShutdownPending := b\<rparr>) = loose w" "loose (w\<lparr>fdTable := t\<rparr>) = loose w"
  by (simp_all add: loose_def)

lemma mem_ok_update [simp]:
  "mem_ok (w\<lparr>calls := cs\<rparr>) = mem_ok w" "mem_ok (w\<lparr>wShutdownPending := b\<rparr>) = mem_ok w" "mem_ok (w\<lparr>fdTable := t\<rparr>) = mem_ok w"
  "mem_ok (w\<lparr>ovs := q\<rparr>) = mem_ok w" "mem_ok (w\<lparr>nextOv := n\<rparr>) = mem_ok w" "mem_ok (w\<lparr>queues := u\<rparr>) = mem_ok w" "mem_ok (w\<lparr>pending := ps\<rparr>) = mem_ok w"
  by (simp_all add: mem_ok_def)

lemma io_inv_update [simp]:
  "io_inv (w\<lparr>calls := cs\<rparr>) = io_inv w" "io_inv (w\<lparr>wShutdownPending := b\<rparr>) = io_inv w"
  by (simp_all add: io_inv_def)

lemma io_inv_table: "io_inv w \<Longrightarrow> winv (w\<lparr>fdTable := t\<rparr>) \<Longrightarrow> io_inv (w\<lparr>fdTable := t\<rparr>)"
  by (simp add: io_inv_def)

lemma io_inv_winv: "io_inv w \<Longrightarrow> winv w"
  by (simp add: io_inv_def)

lemma stdin_ovs: "(n, fd, ov) \<in> set (queues w (hStdinCompPort w)) \<Longrightarrow> ov \<in> set (io_ovs w)"
  by (force simp: io_ovs_def)

text \<open>A request that is in no queue may be freed.\<close>

lemma io_inv_free: "io_inv w \<Longrightarrow> ov \<notin> set (io_ovs w) \<Longrightarrow> io_inv (w\<lparr>ovs := (ovs w)(ov := None)\<rparr>)"
  by (auto simp: io_inv_def dest: stdin_ovs)

lemma loose_free: "loose (w\<lparr>ovs := (ovs w)(ov := None)\<rparr>) = loose w - {ov}"
  by (auto simp: loose_def)

section \<open>Completion\<close>

lemma complete_io_mset:
  "complete_io ds ps = (cs, rest) \<Longrightarrow> mset (map snd cs) + mset rest = mset ps"
proof (induction ds ps arbitrary: cs rest rule: complete_io.induct)
  case (2 i n ds ps)
  show ?case
  proof (cases "i < length ps")
    case True
    obtain cs' rest' where c: "complete_io ds (take i ps @ drop (Suc i) ps) = (cs', rest')" by fastforce
    have "mset ps = add_mset (ps ! i) (mset (take i ps @ drop (Suc i) ps))"
      using id_take_nth_drop [OF True] by (metis mset_append mset.simps(2) union_mset_add_mset_right)
    with 2(1) [OF True c] 2(3) True c show ?thesis by auto
  qed (use 2 in auto)
qed simp

lemma io_inv_arrive:
  assumes "io_inv w" "complete_io ds (pending w) = (cs, ps)"
  shows "io_keeps w (w\<lparr>pending := ps, queues := (queues w)(hIoCompPort w := queues w (hIoCompPort w) @ cs)\<rparr>)" (is "io_keeps w ?w")
proof -
  note m = complete_io_mset [OF assms(2)]
  have ne: "hStdinCompPort w \<noteq> hIoCompPort w" using assms(1) by (auto simp: io_inv_def)
  have "mset (map snd (map snd cs)) + mset (map snd ps) = mset (map snd (pending w))"
    using arg_cong [OF m, of "image_mset snd"] by (simp del: map_map)
  then have o: "mset (io_ovs ?w) = mset (io_ovs w)" using ne by (simp add: io_ovs_def del: mset_map flip: map_map)
  have "mset (map fst (map snd cs)) + mset (map fst ps) = mset (map fst (pending w))"
    using arg_cong [OF m, of "image_mset fst"] by (simp del: map_map)
  then have k: "mset (io_keys ?w) = mset (io_keys w)" by (simp add: io_keys_def del: mset_map flip: map_map)
  show ?thesis
    using assms(1) ne mset_eq_imp_distinct_iff [OF o] mset_eq_setD [OF o] mset_eq_setD [OF k]
    by (simp add: io_keeps_def io_inv_def loose_def)
qed

lemma wp_dequeue:
  assumes "io_inv w" "port = hIoCompPort w"
    and "\<And>w'. io_keeps w w' \<Longrightarrow> Q None w'"
    and "\<And>n fd ov w'. io_inv w' \<Longrightarrow> valid_fd fd \<Longrightarrow> ov \<in> loose w' \<Longrightarrow> loose w' - {ov} = loose w \<Longrightarrow> Q (Some (n, fd, ov)) w'"
  shows "wpW (dequeue port ms) Q w"
  unfolding dequeue_def wp_combinators(3)
proof (rule wp_api [OF io_inv_winv [OF assms(1)]])
  fix a cs b
  let ?v = "w\<lparr>calls := cs, wShutdownPending := b\<rparr>"
  obtain ds ps where c: "complete_io (rdone a) (pending w) = (ds, ps)" by fastforce
  let ?w = "?v\<lparr>pending := ps, queues := (queues w)(hIoCompPort w := queues w (hIoCompPort w) @ ds)\<rparr>"
  have "io_keeps ?v ?w" using io_inv_arrive [of ?v "rdone a" ds ps] assms(1) c by simp
  then have k: "io_keeps w ?w" by (simp add: io_keeps_def)
  let ?q = "queues w (hIoCompPort w) @ ds"
  let ?u = "?w\<lparr>queues := (queues ?w)(port := tl ?q)\<rparr>"
  have ne: "hStdinCompPort w \<noteq> hIoCompPort w" using assms(1) by (auto simp: io_inv_def)
  have "wpW (retW (case ?q of [] \<Rightarrow> None | c # _ \<Rightarrow> Some c)) Q ?u"
  proof (cases ?q)
    case Nil
    then have "?u = ?w" using assms(2) by simp
    with k assms(3) Nil show ?thesis by (simp add: wp_simps)
  next
    case (Cons c q)
    obtain n fd ov where c: "c = (n, fd, ov)" by (cases c) auto
    have o: "io_ovs ?w = ov # io_ovs ?u" "io_keys ?w = fd # io_keys ?u" "queues ?u (hStdinCompPort w) = queues ?w (hStdinCompPort w)"
      using Cons c assms(2) ne by (auto simp: io_ovs_def io_keys_def)
    have i: "io_inv ?w" using k by (simp add: io_keeps_def)
    have "winv ?u" "mem_ok ?u" using i by (simp_all add: io_inv_def)
    with i o have "io_inv ?u" unfolding io_inv_def by simp
    moreover have "valid_fd fd" "ov \<in> loose ?u" using i o by (auto simp: io_inv_def loose_def)
    moreover have "loose ?u - {ov} = loose ?w" using o(1) by (auto simp: loose_def)
    then have "loose ?u - {ov} = loose w" using k by (simp add: io_keeps_def)
    ultimately show ?thesis using assms(4) Cons c by (simp add: wp_simps)
  qed
  with c assms(2) show "wpW (thenW (arrive (rdone a)) (bindW (getW (\<lambda>w. queues w port)) (\<lambda>q.
      thenW (modW (\<lambda>w. w\<lparr>queues := (queues w)(port := tl q)\<rparr>)) (retW (case q of [] \<Rightarrow> None | c # _ \<Rightarrow> Some c))))) Q ?v"
    by (simp add: arrive_def wp_simps)
qed

section \<open>Starting an operation\<close>

text \<open>A request allocated since \<open>w\<close>, in no queue, and the only new one of that kind.\<close>

definition fresh_ov :: "win32 \<Rightarrow> win32 \<Rightarrow> nat \<Rightarrow> bool" where
  "fresh_ov w w' ov \<longleftrightarrow> io_inv w' \<and> nextOv w \<le> nextOv w' \<and> (\<forall>ov \<in> set (io_ovs w'). ov < nextOv w \<longrightarrow> ov \<in> set (io_ovs w))
     \<and> nextOv w \<le> ov \<and> ov \<in> loose w' \<and> loose w' - {ov} = loose w"

text \<open>A new request is in no queue.\<close>

lemma wp_new_ov:
  assumes "io_inv w"
    and "\<And>w'. fresh_ov w w' (nextOv w) \<Longrightarrow> ovs w' (nextOv w) = Some r \<Longrightarrow> fdTable w' = fdTable w \<Longrightarrow> Q (nextOv w) w'"
  shows "wpW (new_ov r) Q w"
proof -
  let ?w = "\<lambda>cs b. w\<lparr>calls := cs, wShutdownPending := b, ovs := (ovs w)(nextOv w \<mapsto> r), nextOv := Suc (nextOv w)\<rparr>"
  have fresh: "nextOv w \<notin> set (io_ovs w)" using assms(1) by (auto simp: io_inv_def)
  then have "(n, fd, nextOv w) \<notin> set (queues w (hStdinCompPort w))" for n fd using stdin_ovs by blast
  with assms(1) have "io_inv (?w cs b)" for cs b by (auto simp: io_inv_def less_Suc_eq)
  moreover have "nextOv w \<notin> loose w" using assms(1) by (auto simp: io_inv_def loose_def)
  ultimately have "fresh_ov w (?w cs b) (nextOv w)" for cs b using fresh by (auto simp: fresh_ov_def loose_def)
  with assms(2) have "Q (nextOv w) (?w cs b)" for cs b by simp
  with assms(1) show ?thesis by (intro wp_new_ov_alloc) (auto simp: io_inv_def)
qed

lemma fresh_ov_update [simp]:
  "fresh_ov w (v\<lparr>calls := cs\<rparr>) = fresh_ov w v" "fresh_ov w (v\<lparr>wShutdownPending := b\<rparr>) = fresh_ov w v"
  "io_keeps w (v\<lparr>calls := cs\<rparr>) = io_keeps w v" "io_keeps w (v\<lparr>wShutdownPending := b\<rparr>) = io_keeps w v"
  by (simp_all add: fresh_ov_def io_keeps_def fun_eq_iff)

lemma fresh_ov_winv: "fresh_ov w v ov \<Longrightarrow> winv v"
  by (simp add: fresh_ov_def io_inv_def)

lemma fresh_ov_table: "fresh_ov w v ov \<Longrightarrow> winv (v\<lparr>fdTable := t\<rparr>) \<Longrightarrow> fresh_ov w (v\<lparr>fdTable := t\<rparr>) ov"
  by (simp add: fresh_ov_def io_inv_table)

text \<open>It may be put into a queue.\<close>

lemma fresh_ov_push:
  assumes "fresh_ov w v ov" "mset (io_ovs v') = add_mset ov (mset (io_ovs v))" "ovs v' = ovs v" "nextOv v' = nextOv v"
    "winv v'" "mem_ok v'" "hIoCompPort v' \<noteq> hStdinCompPort v'" "\<forall>fd \<in> set (io_keys v'). valid_fd fd"
    "\<forall>(n, fd, ov) \<in> set (queues v' (hStdinCompPort v')). fd = STDIN_NO \<and> ovClientData1 (the (ovs v' ov)) \<noteq> 0"
  shows "io_keeps w v'"
proof -
  have v: "io_inv v" "ov \<in> dom (ovs v)" "ov \<notin> set (io_ovs v)" "loose v - {ov} = loose w" "nextOv w \<le> ov" "nextOv w \<le> nextOv v"
    "\<forall>ov \<in> set (io_ovs v). ov < nextOv w \<longrightarrow> ov \<in> set (io_ovs w)"
    using assms(1) by (auto simp: fresh_ov_def loose_def)
  have m: "mset (io_ovs v') = mset (ov # io_ovs v)" using assms(2) by simp
  then have s: "set (io_ovs v') = insert ov (set (io_ovs v))" by (metis list.simps(15) mset_eq_setD)
  have d: "distinct (io_ovs v')" using mset_eq_imp_distinct_iff [OF m] v(1,3) by (simp add: io_inv_def)
  have "dom (ovs v) \<subseteq> {..<nextOv v}" "\<forall>ov \<in> set (io_ovs v). ov < nextOv v \<and> ovs v ov \<noteq> None" using v(1) by (simp_all add: io_inv_def)
  then have "io_inv v'" using assms(3-9) d s v(2) unfolding io_inv_def by auto
  moreover have "loose v' = loose w" using v(4) s assms(3) by (auto simp: loose_def)
  ultimately show ?thesis using assms(4) s v(5-7) by (auto simp: io_keeps_def)
qed

lemma fresh_ov_queue:
  assumes "fresh_ov w v ov" "valid_fd fd"
  shows "io_keeps w (v\<lparr>queues := (queues v)(hIoCompPort v := queues v (hIoCompPort v) @ [(n, fd, ov)])\<rparr>)"
    and "io_keeps w (v\<lparr>pending := pending v @ [(fd, ov)]\<rparr>)"
proof -
  have "io_inv v" using assms(1) by (simp add: fresh_ov_def)
  note v = this [unfolded io_inv_def]
  show "io_keeps w (v\<lparr>queues := (queues v)(hIoCompPort v := queues v (hIoCompPort v) @ [(n, fd, ov)])\<rparr>)"
    by (rule fresh_ov_push [OF assms(1)]) (use v assms(2) in \<open>auto simp: io_ovs_def io_keys_def\<close>)
  show "io_keeps w (v\<lparr>pending := pending v @ [(fd, ov)]\<rparr>)"
    by (rule fresh_ov_push [OF assms(1)]) (use v assms(2) in \<open>auto simp: io_ovs_def io_keys_def\<close>)
qed

lemma fresh_ov_stdin:
  assumes "fresh_ov w v ov" "ovClientData1 (the (ovs v ov)) \<noteq> 0"
  shows "io_keeps w (v\<lparr>queues := (queues v)(hStdinCompPort v := queues v (hStdinCompPort v) @ [(n, STDIN_NO, ov)])\<rparr>)"
proof -
  have "io_inv v" using assms(1) by (simp add: fresh_ov_def)
  note v = this [unfolded io_inv_def]
  show ?thesis by (rule fresh_ov_push [OF assms(1)]) (use v assms(2) in \<open>auto simp: io_ovs_def io_keys_def\<close>)
qed

lemma wp_post_io:
  assumes "fresh_ov w v ov" "valid_fd fd" "p = hIoCompPort v" "\<And>v'. io_keeps w v' \<Longrightarrow> Q () v'"
  shows "wpW (post p (n, fd, ov)) Q v"
proof -
  have "io_keeps w (v\<lparr>calls := cs, wShutdownPending := b, queues := (queues v)(p := queues v p @ [(n, fd, ov)])\<rparr>)" for cs b
    using fresh_ov_queue(1) [of w "v\<lparr>calls := cs, wShutdownPending := b\<rparr>" ov fd n] assms by simp
  with assms(4) fresh_ov_winv [OF assms(1)] show ?thesis by (auto simp: post_def wp_simps intro!: wp_api)
qed

lemma wp_set_fresh:
  assumes "fresh_ov w v ov" "valid_fd fd" "\<And>e. plain_entry e \<Longrightarrow> plain_entry (f e)" "\<And>v'. fresh_ov w v' ov \<Longrightarrow> Q () v'"
  shows "wpW (set_entry fd f) Q v"
proof -
  note i = fresh_ov_winv [OF assms(1)]
  have r: "0 \<le> fd" "nat fd < WIN32_OPEN_MAX" using assms(2) by (auto simp: valid_fd_def)
  have "winv (v\<lparr>fdTable := (fdTable v)[nat fd := f (fdTable v ! nat fd)]\<rparr>)"
    using i assms(3) [OF winv_entry [OF i r]] by simp
  from fresh_ov_table [OF assms(1) this] assms(4) r i show ?thesis by (simp add: wp_simps winv_length)
qed

lemma wp_in_progress:
  assumes "fresh_ov w v ov" "valid_fd fd" "\<And>v'. io_keeps w v' \<Longrightarrow> Q () v'"
  shows "wpW (in_progress fd ov) Q v"
  using assms fresh_ov_queue(2) [OF assms(1,2)] by (simp add: in_progress_def wp_simps)

lemma wp_AsyncRead:
  assumes "io_inv w" "is_async w fd" "\<And>r w'. io_keeps w w' \<Longrightarrow> Q r w'"
  shows "wpW (OS_AsyncRead_win32 fd off len p d) Q w"
proof -
  have v: "valid_fd fd" using assms(2) by (simp add: is_async_def)
  show ?thesis unfolding OS_AsyncRead_win32_def wp_combinators wp_cases
    using assms(1) v
    by (auto simp: fresh_ov_winv io_inv_winv
      intro!: wp_async_entry assms(2) wp_new_ov wp_api wp_set_fresh [where w = w] assms(3) wp_post_io wp_in_progress)
qed

lemma wp_AsyncWrite:
  assumes "io_inv w" "is_async w fd" "\<And>r w'. io_keeps w w' \<Longrightarrow> Q r w'"
  shows "wpW (OS_AsyncWrite_win32 fd off buf p d) Q w"
proof -
  have v: "valid_fd fd" "ftype (fdTable w ! nat fd) \<noteq> FD_FILE_ASYNC" using assms(2) by (auto simp: is_async_def)
  have "fresh_ov w v ov \<Longrightarrow> fresh_ov w (v\<lparr>ovs := (ovs v)(ov \<mapsto> r)\<rparr>) ov" for v ov r
    by (auto simp: fresh_ov_def io_inv_def loose_def dest: stdin_ovs)
  then show ?thesis unfolding OS_AsyncWrite_win32_def wp_combinators wp_cases Let_def write_offsets_def
    using assms(1) v
    by (auto simp: fresh_ov_winv io_inv_winv wp_combinators
      intro!: wp_async_entry assms(2) wp_new_ov wp_api wp_set_fresh [where w = w] assms(3) wp_post_io wp_in_progress)
qed

lemma wp_AsyncReadStdin:
  assumes "io_inv w" "is_open w STDIN_NO" "buf \<noteq> 0" "\<And>r w'. io_keeps w w' \<Longrightarrow> Q r w'"
  shows "wpW (OS_AsyncReadStdin_win32 buf len p d) Q w"
proof -
  have k: "fresh_ov w v ov \<Longrightarrow> ovs v ov = Some r \<Longrightarrow> ovClientData1 r = buf \<Longrightarrow>
      io_keeps w (v\<lparr>calls := cs, wShutdownPending := b, queues := (queues v)(hStdinCompPort v := queues v (hStdinCompPort v) @ [(len, STDIN_NO, ov)])\<rparr>)"
    for v ov r cs b
    using fresh_ov_stdin [of w "v\<lparr>calls := cs, wShutdownPending := b\<rparr>" ov len] assms(3) by simp
  show ?thesis unfolding OS_AsyncReadStdin_win32_def wp_combinators
    using assms(1,2) winv_length [OF io_inv_winv [OF assms(1)]] open_entry [OF io_inv_winv [OF assms(1)] assms(2)]
    by (auto simp: fresh_ov_winv io_inv_winv wp_simps post_def intro!: wp_new_ov wp_api assms(4) k)
qed

section \<open>The dispatcher\<close>

text \<open>
  What the dispatcher relies on: a client procedure keeps the invariant, fails no assertion, queues
  only requests of its own, and neither frees nor loses a request.
\<close>

locale io_client =
  fixes call :: io_proc
  assumes call_keeps: "io_inv w \<Longrightarrow> wpW (call p d n) (\<lambda>_. io_keeps w) w"
begin

lemma wp_dispatch:
  assumes "io_inv w" "valid_fd fd" "ov \<in> loose w" "\<And>w'. io_inv w' \<Longrightarrow> loose w' = loose w - {ov} \<Longrightarrow> Q () w'"
  shows "wpW (dispatch_win32 call (n, fd, ov)) Q w"
proof -
  obtain r where r: "ovs w ov = Some r" using assms(3) by (auto simp: loose_def)
  have free: "wpW (free_ov ov) Q w'" if "io_keeps w w'" for w'
  proof -
    have "ov \<in> loose w'" "io_inv w'" "loose w' = loose w" using that assms(3) by (auto simp: io_keeps_def)
    moreover from this have "Q () (w'\<lparr>ovs := (ovs w')(ov := None)\<rparr>)"
      by (intro assms(4) io_inv_free) (auto simp: loose_def)
    ultimately show ?thesis by (auto simp: free_ov_def wp_simps loose_def)
  qed
  have "wpW (call (ovProc r) (ovClientData r) n) (\<lambda>_. wpW (free_ov ov) Q) w"
    by (rule wpW_mono [OF call_keeps [OF assms(1)]]) (rule free)
  moreover have "0 \<le> fd" "nat fd < length (fdTable w)"
    using assms(2) winv_length [OF io_inv_winv [OF assms(1)]] by (auto simp: valid_fd_def)
  ultimately show ?thesis using assms(1,2) free [of w] r by (simp add: dispatch_win32_def wp_simps)
qed

lemma wp_DoIo_loop:
  assumes "io_inv w" "0 \<le> tmo_ms t"
  shows "wpW (DoIo_loop k call (Some t) ms ms_last) (\<lambda>r w'. r = 0 \<and> io_inv w' \<and> loose w' = loose w) w"
  using assms(1)
proof (induction k arbitrary: w ms ms_last)
  case (Suc k)
  let ?Q = "\<lambda>r w'. r = 0 \<and> io_inv w' \<and> loose w' = loose w"
  let ?next = "\<lambda>c. case c of None \<Rightarrow> thenW (api (Sock WSAGetLastError)) (retW 0)
    | Some c \<Rightarrow> thenW (dispatch_win32 call c) (bindW (api (Sys Ftime)) (\<lambda>tb.
        DoIo_loop k call (Some t) (min (tmo_ms t) 100 - (rtime tb - ms_last)) (rtime tb)))"
  have again: "wpW (DoIo_loop k call (Some t) m l) ?Q (v\<lparr>calls := cs, wShutdownPending := b\<rparr>)"
    if "io_inv v" "loose v = loose w" for v m l cs b
    using Suc.IH [of "v\<lparr>calls := cs, wShutdownPending := b\<rparr>" m l] that by simp
  have "wpW (dequeue (hIoCompPort w) (min (tmo_ms t) 100)) (\<lambda>c. wpW (?next c) ?Q) w"
  proof (rule wp_dequeue [OF Suc.prems refl])
    fix v assume "io_keeps w v"
    then show "wpW (?next None) ?Q v" by (auto simp: wp_simps io_keeps_def io_inv_winv intro!: wp_api)
  next
    fix n fd ov v assume "io_inv v" "valid_fd fd" "ov \<in> loose v" "loose v - {ov} = loose w"
    then show "wpW (?next (Some (n, fd, ov))) ?Q v"
      unfolding option.case wp_combinators by (intro wp_dispatch wp_api again) (simp_all add: io_inv_winv)
  qed
  with Suc.prems assms(2) show ?case by (simp add: wp_simps Let_def min_less_iff_disj)
qed (simp add: wp_simps)

lemma wp_DoIo:
  assumes "io_inv w" "0 \<le> tmo_ms t"
  shows "wpW (OS_DoIo_win32 k call (Some t)) (\<lambda>r w'. r = 0 \<and> io_inv w' \<and> loose w' = loose w) w"
  unfolding OS_DoIo_win32_def wp_combinators
proof (rule wp_api [OF io_inv_winv [OF assms(1)]])
  fix a cs b
  show "wpW (DoIo_loop k call (Some t) (case Some t of None \<Rightarrow> 1000 | Some t \<Rightarrow> c_div (tmo_ms t) 2) (rtime a))
    (\<lambda>r w'. r = 0 \<and> io_inv w' \<and> loose w' = loose w) (w\<lparr>calls := cs, wShutdownPending := b\<rparr>)"
    using wp_DoIo_loop [of "w\<lparr>calls := cs, wShutdownPending := b\<rparr>" t k] assms by simp
qed

end

text \<open>A client that reads on as long as its descriptor is open for overlapped I/O and gives data.\<close>

definition read_on :: "nat \<Rightarrow> io_proc" where
  "read_on len p d n = bindW (getW (\<lambda>w. is_async w (int d))) (\<lambda>ok.
     if ok \<and> 0 < n then thenW (OS_AsyncRead_win32 (int d) 0 len p d) (retW ()) else retW ())"

interpretation win_reader: io_client "read_on len" for len
  by unfold_locales (auto simp: read_on_def wp_simps intro!: wp_AsyncRead)

text \<open>
  C36.  \<open>OS_DoIo\<close> with a timeout that is not negative, any client that meets the contract and any order in which Windows completes the
  overlapped operations: no assertion fails, every request is a live block when its procedure is
  called and when it is freed (a second \<open>free\<close> would be a fault), and when \<open>OS_DoIo\<close> returns, which is with 0,
  the invariant holds again and the allocated requests that are in no queue are those of before: every
  request that was dispatched has been freed and no other one is lost.
\<close>

theorem doio_win32_safe:
  assumes "io_client call" "io_inv w" "0 \<le> tmo_ms t"
  shows "case OS_DoIo_win32 k call (Some t) w of Inl e \<Rightarrow> benign e | Inr (r, w') \<Rightarrow> r = 0 \<and> io_inv w' \<and> loose w' = loose w"
  using io_client.wp_DoIo [OF assms] by (simp add: wpW_def)

text \<open>A socket with a read in progress that completes at once.\<close>

definition busy :: "win_call list \<Rightarrow> api_answer" where "busy cs = (win_quiet cs)\<lparr>ret := 1, rdone := [(0, 4)]\<rparr>"

definition win_busy :: win32 where
  "win_busy = (win_start busy)\<lparr>fdTable := (fdTable (win_start busy))[7 := zero_entry\<lparr>ftype := FD_SOCKET_ASYNC, fid := 7\<rparr>],
     hIoCompPort := 20, hStdinCompPort := 21, nextOv := 1, pending := [(7, 0)],
     ovs := [0 \<mapsto> \<lparr>ovOffset = 0, ovOffsetHigh = 0, ovInstance = 0, ovProc = 3, ovClientData = 7, ovClientData1 = 0\<rparr>]\<rparr>"

lemma win_busy: "io_inv win_busy" "is_async win_busy 7"
proof -
  have "winv (win_start busy)" by (rule win_start_inv) (simp add: busy_def int_handle_def)
  then have "winv win_busy" by (simp add: win_busy_def plain_entry_def zero_entry_def)
  then show "io_inv win_busy"
    by (simp add: io_inv_def win_busy_def win_start_def mem_ok_def busy_def io_ovs_def io_keys_def valid_fd_def)
  show "is_async win_busy 7" by (simp add: is_async_def valid_fd_def win_busy_def win_start_def)
qed

theorem doio_win32_safe_witness:
  "case OS_DoIo_win32 5 (read_on 100) (Some (1, 0)) win_busy of Inl e \<Rightarrow> benign e | Inr (r, w') \<Rightarrow> r = 0 \<and> io_inv w' \<and> loose w' = {}"
proof -
  have l: "loose win_busy = {}" by (auto simp: loose_def win_busy_def win_start_def io_ovs_def split: if_splits)
  show ?thesis
    using doio_win32_safe [OF win_reader.io_client_axioms win_busy(1), of "(1, 0)" 5 100, unfolded l] by (simp add: tmo_ms_def c_div_def)
qed

section \<open>Completions after a close\<close>

lemma wp_AsyncRead_request:
  assumes "io_inv w" "is_async w fd"
  shows "wpW (OS_AsyncRead_win32 fd off len p d) (\<lambda>_ v. winv v \<and> is_open v fd
    \<and> (\<exists>r. ovs v (nextOv w) = Some r \<and> ovInstance r = 0 \<and> ovProc r = p \<and> ovClientData r = d)) w"
proof -
  have v: "valid_fd fd" "0 \<le> fd" "nat fd < 128" "nat fd < length (fdTable w)" "ftype (fdTable w ! nat fd) \<noteq> FD_UNUSED"
    using assms winv_length [OF io_inv_winv [OF assms(1)]] by (auto simp: is_async_def valid_fd_def)
  have p: "plain_entry (fdTable w ! nat fd)" using winv_entry [OF io_inv_winv [OF assms(1)] v(2,3)] .
  have m: "mem_ok w" "winv w" using assms(1) by (auto simp: io_inv_def)
  show ?thesis unfolding OS_AsyncRead_win32_def wp_combinators wp_cases
    using v p m
    by (auto simp: wp_simps post_def in_progress_def is_open_def unused_def plain_entry_def
      intro!: wp_async_entry assms(2) wp_new_ov_alloc wp_api)
qed

text \<open>
  C40.  A read is started and its descriptor closed before the read completes.  When the completion
  arrives, the dispatcher runs the procedure of the read all the same: the instance numbers that
  should tell the closed file from a later one are never changed, so they always match.
\<close>

theorem closed_still_called:
  assumes "io_inv w" "is_async w fd"
    and "OS_AsyncRead_win32 fd off len p d w = Inr (rc, w1)" "OS_Close_win32 k fd w1 = Inr (rc', w2)"
  shows "unused (fdTable w2) (nat fd) \<and> dispatch_win32 call (n, fd, nextOv w) w2 =
    bindR (call p d n w2) (\<lambda>(_, w3). free_ov (nextOv w) w3)"
proof -
  obtain r where w1: "winv w1" "is_open w1 fd"
    and r: "ovs w1 (nextOv w) = Some r" "ovInstance r = 0" "ovProc r = p" "ovClientData r = d"
    using wpW_Inr [OF wp_AsyncRead_request [OF assms(1,2)] assms(3)] by blast
  have "wpW (OS_Close_win32 k fd) (\<lambda>_ v. winv v \<and> unused (fdTable v) (nat fd) \<and> ovs v = ovs w1) w1"
    by (rule wp_Close [OF w1]) auto
  from wpW_Inr [OF this assms(4)] have w2: "winv w2" "unused (fdTable w2) (nat fd)" "ovs w2 = ovs w1" by auto
  have fd: "valid_fd fd" "0 \<le> fd" "nat fd < 128" using open_entry [OF w1] by auto
  then have "finstance (fdTable w2 ! nat fd) = 0" using winv_entry [OF w2(1)] by (simp add: plain_entry_def)
  with w2 r fd winv_length [OF w2(1)] show ?thesis
    by (auto simp: dispatch_win32_def run_combinators entry_def bindR_def split: sum.splits)
qed

theorem closed_still_called_witness:
  "\<exists>w1 w2. OS_AsyncRead_win32 7 0 100 3 7 win_busy = Inr (0, w1) \<and> OS_Close_win32 5 7 w1 = Inr (0, w2)
    \<and> unused (fdTable w2) (nat 7) \<and> dispatch_win32 (read_on 100) (4, 7, nextOv win_busy) w2 =
      bindR (read_on 100 3 7 4 w2) (\<lambda>(_, w3). free_ov (nextOv win_busy) w3)"
proof -
  have "\<exists>w1 w2. OS_AsyncRead_win32 7 0 100 3 7 win_busy = Inr (0, w1) \<and> OS_Close_win32 5 7 w1 = Inr (0, w2)"
    by (simp add: OS_AsyncRead_win32_def OS_Close_win32_def async_entry_def new_ov_def in_progress_def Win32FreeDescriptor_def
        run_combinators run_api entry_def set_entry_def win_busy_def win_start_def busy_def win_quiet_def zero_entry_def valid_fd_def
        is_handle_def is_socket_def Let_def)
  with closed_still_called [OF win_busy] show ?thesis by blast
qed

end
