(* ===== verification/Spec2Isabelle.thy ===== *)
theory Spec2Isabelle
  imports Fcgi_Wire Fcgi_Transparent Fcgi_Streambuf Os_Async Os_Win32_Async
begin

text \<open>
  Verification of the FastCGI C library of the Eiffel Web Framework,
  \<open>library/server/libfcgi/Clib/libfcgi\<close>: the code that lets an application serve requests of a web
  server over the FastCGI protocol, in C and C++.

  \<^bold>\<open>The program.\<close>  A web server opens a connection and sends records: a begin record, name-value
  pairs, input data.  \<open>FCGX_Accept_r\<close> (\<open>fcgiapp.c\<close>) accepts the connection through the operating
  system layer (\<open>os_unix.c\<close> or \<open>os_win32.c\<close>), reads the begin record and the parameters with a reader
  stream, and creates one input and two output streams.  A stream (\<open>FCGX_Stream\<close>) is a buffer with
  two procedures: \<open>FillBuffProc\<close> takes records apart when the buffer is empty, \<open>EmptyBuffProc\<close> makes
  records when it is full.  \<open>FCGX_Finish_r\<close> closes the streams, sends the end-request record and
  keeps or closes the connection.  On top of the streams there are formatted output
  (\<open>FCGX_VFPrintF\<close>), an emulation of stdio (\<open>fcgi_stdio.c\<close>) that also runs as CGI, and a C++
  stream buffer (\<open>fcgio.cpp\<close>).  The operating system layer also offers asynchronous I/O to
  web servers.

  \<^bold>\<open>The theories, with the code they model.\<close>

  \<^item> \<open>Fcgi_Prelude\<close>: faults (a failed assertion, a heap, stack or array overflow, a null or freed pointer, \<open>exit\<close>, a
    call that blocks, fuel used up), the result type with its sequencing operator, 32-bit wrap-around, C
    strings, byte buffers.
  \<^item> \<open>Fcgi_Protocol\<close>: \<open>fastcgi.h\<close> and the record makers of \<open>fcgiapp.c\<close>: headers, bodies, alignment.
  \<^item> \<open>Os_Unix\<close>, \<open>Os_Listen\<close>, \<open>Os_Async\<close>: \<open>os_unix.c\<close>; the static variables are a record, the kernel's
    answers (data in chunks, partial writes, signals, clients, locks) are part of it as event lists that the
    operations consume, and a connection records how it was closed.  \<open>Os_Accept\<close>: the properties of accepting
    and closing.  \<open>Os_Async\<close> has the locale \<open>async_client\<close> (the procedures the dispatcher calls), interpreted as
    \<open>own\<close> (procedures that leave the library alone) and \<open>again\<close> (an application that reads on).
  \<^item> \<open>Fcgi_Stream\<close>: the stream record and \<open>FCGX_GetChar\<close>, \<open>FCGX_GetStr\<close>, \<open>FCGX_GetLine\<close>, \<open>FCGX_PutStr\<close>
    and the other operations.  Two locales state what they rely on: \<open>byte_source\<close> (a fill procedure delivers
    a byte sequence and then its end) and \<open>byte_sink\<close> (an empty procedure takes the buffer); what the
    operations do is proved once in them.
  \<^item> \<open>Fcgi_Params\<close>: the environment vector, \<open>ReadParams\<close>, \<open>FCGX_GetParam\<close>; locale \<open>param_source\<close>.
  \<^item> \<open>Fcgi_Writer\<close>: \<open>EmptyBuffProc\<close>, \<open>WriteCloseRecords\<close>, \<open>write_it_all\<close>; interpretations \<open>rec_sink\<close> and
    \<open>raw_sink\<close> of \<open>byte_sink\<close>.
  \<^item> \<open>Fcgi_Reader\<close>: \<open>FillBuffProc\<close>, \<open>ProcessHeader\<close>, \<open>ProcessBeginRecord\<close>, \<open>ProcessManagementRecord\<close>;
    \<open>deliver\<close> is the specification on bytes; interpretations \<open>eor\<close> and \<open>str\<close> of \<open>param_source\<close>.
  \<^item> \<open>Fcgi_Request\<close>: the request record, \<open>FCGX_Init\<close>, \<open>FCGX_InitRequest\<close>, \<open>FCGX_Accept_r\<close>, \<open>FCGX_Finish_r\<close>,
    \<open>FCGX_Free\<close>, \<open>FCGX_StartFilterData\<close>, stream creation.  \<open>Fcgi_Wire\<close>: what mixed and hostile traffic leads to.
  \<^item> \<open>Fcgi_Printf\<close>, \<open>Fcgi_Format\<close>: \<open>FCGX_VFPrintF\<close> with its fast and slow path and buffers, and the text it
    prints; locale \<open>printf_sink\<close>, interpretation \<open>rec_printf\<close>.
  \<^item> \<open>Fcgi_Stdio\<close>, \<open>Fcgi_Transparent\<close>: every wrapper of \<open>fcgi_stdio.c\<close> over files of the C library and streams
    of a request; locale \<open>std_io\<close> (standard input and output), interpreted for both (\<open>cgi\<close>, \<open>fcgi\<close>).
  \<^item> \<open>Fcgi_Streambuf\<close>: \<open>fcgio.cpp\<close>; its lemmas extend \<open>byte_sink\<close> and \<open>byte_source\<close>.
  \<^item> \<open>Os_Win32\<close>, \<open>Os_Win32_Io\<close>: \<open>os_win32.c\<close> in a state and fault monad over the Windows API, an arbitrary
    function from the calls made to their results; \<open>wpW\<close> and its rules give weakest preconditions.
    \<open>Os_Win32_Safe\<close>: one rule per operation.  \<open>Os_Win32_Listen\<close>, \<open>Os_Win32_Async\<close>: the properties; locale
    \<open>io_client\<close> (the procedures the dispatcher calls), interpreted as \<open>win_reader\<close>.

  \<^bold>\<open>What is shown.\<close>

  \<^item> Requests end to end (this theory): a request of a server is accepted with its role, parameters and input;
    a response arrives in records, ended as the protocol says; reading refines \<open>deliver\<close> for every
    input and chunking; what is written is read back.
  \<^item> The wire (\<open>Fcgi_Wire\<close>): multiplexed and management traffic of the kinds \<open>item_ok\<close> lists does not disturb a
    stream; decoding of name-value pairs for arbitrary content; records that overflow the response buffer or a heap
    block, or make the reader lose or invent data (an empty record of another request, an unknown management record
    with content).
  \<^item> The Unix layer: \<open>OS_Accept\<close> returns admitted clients only and finds the first one; closing shuts down, reads what
    is in flight and closes, in this order; the dispatcher of asynchronous I/O calls each procedure once, as long as
    the procedures leave the library's state alone, and can run for ever with an application that reads on; and the
    states from which it stalls, loops or leaves its table.
  \<^item> Output: \<open>FCGX_FPrintF\<close> prints what the C standard prescribes, its format buffer never overflows, a wide
    field of \<open>%d\<close> overflows its data buffer.
  \<^item> stdio: any program of stdio calls behaves the same as CGI and as FastCGI.
  \<^item> C++: a stream buffer of any size carries output and input exactly; ungetting after the end returns the
    byte behind the get area or reads outside the buffer.
  \<^item> Windows: every state that calls other than the dispatcher lead to satisfies the invariant of the descriptor table, and
    a call that fulfils its duties (\<open>op_ok\<close>) misuses no memory; the dispatcher never uses a freed request, frees every
    request it dispatches once and loses none; \<open>OS_Accept\<close> admits listed clients only; and what is wrong with named
    pipes, TCP connections and closed descriptors.

  \<^bold>\<open>Bounds and fuel.\<close>  A loop whose length depends on the environment takes a number of rounds and fails with
  \<open>OutOfFuel\<close> when it is used up.  The theorems that say a call returns need a number of rounds above the
  number of input bytes (\<open>length L < k\<close>, since every round of a reader takes at least one byte) or above the length of
  the string written; the accept loop needs two rounds per client.  Memory allocation fails above
  \<open>heapLimit\<close>; machine integers wrap or carry range hypotheses (\<open>INT_MAX\<close>).  Lengths on the wire are below 65536.

  \<^bold>\<open>Not modelled.\<close>  The Eiffel code of the framework, which uses the library through an external interface, and the
  copies of the headers for its build.  Of the C library: threads (the mutex macros of \<open>fcgiapp.c\<close> are empty
  in the default build; the Windows helper threads run at calls of the API), the text of messages to the
  standard error, the declarations of the headers, and floating point output of \<open>sprintf\<close>, whose text is a parameter.
  Descriptors that are polled alone (\<open>OS_Close\<close>, \<open>is_af_unix_keeper\<close>) are taken to be below \<open>FD_SETSIZE\<close>, and the
  environment vector of a request keeps its contents in the model after its parameters have been freed.
\<close>

section \<open>Requests end to end\<close>

text \<open>
  C1.  A web server opens a connection and sends a request: a begin record, parameter records and
  input records with any split into records, padded as the library itself pads them, and in any
  chunks.  Then \<open>FCGX_Accept_r\<close> returns 0, and the request has the role, the id and the keep
  connection flag of the begin record; every parameter is found by \<open>FCGX_GetParam\<close>; reading
  the input stream gives exactly the input and then end of file without an error; nothing was
  sent to the server; both output streams are open.
\<close>

theorem accept_end_to_end:
  assumes lib: "libInitialized lib" and req: "idle_request req"
    and acc: "accepts w = AccConn fd sa c False # es" "0 \<le> fd" "admitted (webServerAddressList lib) sa c w"
    and idle: "\<not> shutdownPending w" "locks w = []" "unlocks w = []"
    and conn: "conn_ok fd (w\<lparr>conns := (conns w)(fd := c)\<rparr>)"
      "rx_bytes (rx c) = request_bytes rid rl fl precs srecs tail"
    and fuel: "length (rx_bytes (rx c)) < k"
    and rid: "0 < rid" "rid \<le> 65535" and rl: "role_string rl = Some roleStr"
    and params: "stream_records FCGI_PARAMS precs" "content_of FCGI_PARAMS precs = encode_pairs kvs"
      "\<forall>kv \<in> set kvs. pair_fits (heapLimit w) kv" "16 * Suc (length kvs) \<le> heapLimit w"
      "2 * int (Suc (length kvs)) \<le> INT_MAX"
    and input: "stream_records FCGI_STDIN srecs" "int (length (content_of FCGI_STDIN srecs)) < m"
  shows "\<exists>req' w' i d e. FCGX_Accept_r (Suc n) k lib req w = Inr (0, req', w')
    \<and> rdata req' = (begun_by ((rdata req)\<lparr>ipcFd := fd\<rparr>) rid rl fl)\<lparr>nWriters := 2\<rparr>
    \<and> (\<forall>name. FCGX_GetParam (Some name) (envp req') = Inr (lookup_env (cstr name) (roleStr # map pair_entry kvs)))
    \<and> in_stream req' = Some i
    \<and> (\<exists>s. FCGX_GetStr (FillBuffProc k []) k m (attach i (rdata req') w') = Inr (content_of FCGI_STDIN srecs, s)
         \<and> isClosed s \<and> FCGI_errno s = 0)
    \<and> sent (conns w' fd) = sent c
    \<and> out_stream req' = Some d \<and> writer_inv FCGI_STDOUT (rdata req') (attach d (rdata req') w')
    \<and> err_stream req' = Some e \<and> writer_inv FCGI_STDERR (rdata req') (attach e (rdata req') w')"
proof -
  let ?r = "(rdata req)\<lparr>ipcFd := fd\<rparr>" and ?L = "wire rid srecs @ record_bytes FCGI_STDIN rid [] [] @ tail"
  have B: "incoming w ?r (rx_bytes (rx c)) = Some (begun_by ?r rid rl fl, roleStr, kvs, [], ?L)"
    unfolding conn(2) by (rule incoming_request [OF rid rl params])
  have "8 < length (rx_bytes (rx c))" by (simp add: conn(2) request_bytes_def record_bytes_def begin_body_def)
  then have "1 < k" using fuel by simp
  from Accept_r_first [OF lib req acc idle conn(1) fuel this B, of n] obtain req' w' where
    a: "FCGX_Accept_r (Suc n) k lib req w = Inr (0, req', w')" "accepted req' w' ?L (roleStr # map pair_entry kvs)"
      "rdata req' = (begun_by ?r rid rl fl)\<lparr>nWriters := 2\<rparr>" "sent (conns w' fd) = sent c" by auto
  then obtain i d e p where s: "in_stream req' = Some i" "out_stream req' = Some d" "err_stream req' = Some e"
    "envp req' = Some (vec p)" "params_rel p (roleStr # map pair_entry kvs)"
    "ready_reader FCGI_STDIN (rdata req') i w' ?L"
    "writer_inv FCGI_STDOUT (rdata req') (attach d (rdata req') w')"
    "writer_inv FCGI_STDERR (rdata req') (attach e (rdata req') w')"
    unfolding accepted_def fresh_writer_def by blast
  have id: "requestId (rdata req') = rid" using a(3) by (simp add: begun_by_def)
  have "length ?L \<le> length (rx_bytes (rx c))" by (simp add: conn(2) request_bytes_def)
  then obtain t where "FCGX_GetStr (FillBuffProc k []) k m (attach i (rdata req') w') =
      Inr (content_of FCGI_STDIN srecs, t)" "isClosed t" "FCGI_errno t = 0"
    using read_input [of FCGI_STDIN "rdata req'" i w' srecs tail k m] s(6) input rid fuel id by auto
  with a s GetParam_rel [OF s(5)] show ?thesis by metis
qed

theorem accept_end_to_end_witness:
  "\<exists>req' w' i d e. FCGX_Accept_r (Suc 0) 100 demo_lib (snd (FCGX_InitRequest 0 0)) demo_os = Inr (0, req', w')
    \<and> rdata req' = (begun_by ((rdata (snd (FCGX_InitRequest 0 0)))\<lparr>ipcFd := 5\<rparr>) 1 1 0)\<lparr>nWriters := 2\<rparr>
    \<and> (\<forall>name. FCGX_GetParam (Some name) (envp req') =
         Inr (lookup_env (cstr name) (chars ''FCGI_ROLE=RESPONDER'' # map pair_entry demo_pairs)))
    \<and> in_stream req' = Some i
    \<and> (\<exists>s. FCGX_GetStr (FillBuffProc 100 []) 100 10 (attach i (rdata req') w') =
           Inr (content_of FCGI_STDIN [(FCGI_STDIN, chars ''hi'')], s)
         \<and> isClosed s \<and> FCGI_errno s = 0)
    \<and> sent (conns w' 5) = sent demo_conn
    \<and> out_stream req' = Some d \<and> writer_inv FCGI_STDOUT (rdata req') (attach d (rdata req') w')
    \<and> err_stream req' = Some e \<and> writer_inv FCGI_STDERR (rdata req') (attach e (rdata req') w')"
proof (rule accept_end_to_end [where es = "[]" and c = demo_conn and sa = Sockaddr_un
      and precs = "[(FCGI_PARAMS, encode_pairs demo_pairs)]" and tail = "[]"])
  show "conn_ok 5 (demo_os\<lparr>conns := (conns demo_os)(5 := demo_conn)\<rparr>)"
    using demo_length
    by (auto simp: conn_ok_def demo_os_def demo_conn_def tx_ok_def HEAP_MIN_def simp flip: length_0_conv)
  show "length (rx_bytes (rx demo_conn)) < 100" using demo_length by (simp add: demo_conn_def)
qed (simp_all add: demo_lib_def demo_os_def demo_conn_def idle_request_def FCGX_InitRequest_def admitted_def addr_ok_def readable_def
    role_string_def stream_records_def encode_pairs_def encode_pair_def encode_len_def demo_pairs_def chars_def pair_fits_def)

text \<open>The request accepted in the example, and the operating system after it.\<close>

definition demo_accepted :: "int \<times> FCGX_Request \<times> os_unix" where
  "demo_accepted = projr (FCGX_Accept_r (Suc 0) 100 demo_lib (snd (FCGX_InitRequest 0 0)) demo_os)"

definition demo_req :: FCGX_Request where "demo_req = fst (snd demo_accepted)"
definition demo_w :: os_unix where "demo_w = snd (snd demo_accepted)"

definition demo_rest :: bytes where
  "demo_rest = wire 1 [(FCGI_STDIN, chars ''hi'')] @ record_bytes FCGI_STDIN 1 [] [] @ []"

lemma demo_state:
  "accepted demo_req demo_w demo_rest (chars ''FCGI_ROLE=RESPONDER'' # map pair_entry demo_pairs)"
  "rdata demo_req = (begun_by ((rdata (snd (FCGX_InitRequest 0 0)))\<lparr>ipcFd := 5\<rparr>) 1 1 0)\<lparr>nWriters := 2\<rparr>"
  "\<not> asyncIoInUse demo_w" "opened (conns demo_w 5)"
proof -
  let ?r = "(rdata (snd (FCGX_InitRequest 0 0)))\<lparr>ipcFd := 5\<rparr>"
  have B: "incoming demo_os ?r (rx_bytes (rx demo_conn)) =
      Some (begun_by ?r 1 1 0, chars ''FCGI_ROLE=RESPONDER'', demo_pairs, [], demo_rest)"
    using incoming_request [of 1 1 "chars ''FCGI_ROLE=RESPONDER''" "[(FCGI_PARAMS, encode_pairs demo_pairs)]" demo_pairs
        demo_os ?r 0 "[(FCGI_STDIN, chars ''hi'')]" "[]"]
    by (simp add: demo_conn_def demo_rest_def demo_os_def role_string_def stream_records_def encode_pairs_def encode_pair_def
        encode_len_def demo_pairs_def chars_def pair_fits_def)
  have "conn_ok 5 (demo_os\<lparr>conns := (conns demo_os)(5 := demo_conn)\<rparr>)" "length (rx_bytes (rx demo_conn)) < 100"
    using demo_length
    by (auto simp: conn_ok_def demo_os_def demo_conn_def tx_ok_def HEAP_MIN_def simp flip: length_0_conv)
  with Accept_r_first [OF _ _ _ _ _ _ _ _ _ _ _ B, of demo_lib Sockaddr_un "[]" 100 0]
  obtain req' w' where
    "FCGX_Accept_r (Suc 0) 100 demo_lib (snd (FCGX_InitRequest 0 0)) demo_os = Inr (0, req', w')"
    "accepted req' w' demo_rest (chars ''FCGI_ROLE=RESPONDER'' # map pair_entry demo_pairs)"
    "rdata req' = (begun_by ?r 1 1 0)\<lparr>nWriters := 2\<rparr>" "\<not> asyncIoInUse w'" "opened (conns w' 5)"
    by (auto simp: demo_lib_def demo_os_def demo_conn_def idle_request_def FCGX_InitRequest_def admitted_def addr_ok_def readable_def)
  then show "accepted demo_req demo_w demo_rest (chars ''FCGI_ROLE=RESPONDER'' # map pair_entry demo_pairs)"
    "rdata demo_req = (begun_by ((rdata (snd (FCGX_InitRequest 0 0)))\<lparr>ipcFd := 5\<rparr>) 1 1 0)\<lparr>nWriters := 2\<rparr>"
    "\<not> asyncIoInUse demo_w" "opened (conns demo_w 5)"
    by (simp_all add: demo_req_def demo_w_def demo_accepted_def)
qed

lemma demo_data [simp]:
  "ipcFd (rdata demo_req) = 5" "requestId (rdata demo_req) = 1" "role (rdata demo_req) = 1"
  "keepConnection (rdata demo_req) = False" "isBeginProcessed (rdata demo_req)"
  by (simp_all add: demo_state(2) begun_by_def FCGX_InitRequest_def)

text \<open>
  C2.  An application writes any byte strings to the output and the error stream of an accepted
  request, in any order, and the request is finished.  Then the web server receives, after what
  it received before, a sequence of records of the request in which the output records carry
  exactly the bytes written to the output stream and the error records those of the error stream;
  an end-of-stream record for the error stream if anything was written to it, one for the output
  stream, and last the end-request record with the exit status.  The connection is closed exactly
  when the server did not ask to keep it, and the request has no streams any more.
\<close>

theorem respond_end_to_end:
  assumes "accepted req w L es" "\<forall>wr \<in> set wrs. length (snd wr) < k"
    and "\<not> asyncIoInUse w" "0 \<le> ipcFd (rdata req)" "opened (conns w (ipcFd (rdata req)))"
  shows "\<exists>req1 w1 req2 w2 recs r2. app_writes k wrs req w = Inr (req1, w1) \<and> FCGX_Finish_r req1 w1 = Inr (req2, w2)
    \<and> sent (conns w2 (ipcFd (rdata req))) = sent (conns w (ipcFd (rdata req)))
        @ wire (requestId (rdata req)) (finish_records (rdata req) (written True wrs) recs r2)
    \<and> content_of FCGI_STDOUT (recs @ r2) = written False wrs \<and> content_of FCGI_STDERR (recs @ r2) = written True wrs
    \<and> opened (conns w2 (ipcFd (rdata req))) = keepConnection (rdata req)
    \<and> rdata req2 = (rdata req)\<lparr>nWriters := 0, ipcFd := if keepConnection (rdata req) then ipcFd (rdata req) else - 1\<rparr>
    \<and> in_stream req2 = None \<and> out_stream req2 = None \<and> err_stream req2 = None \<and> paramsPtr req2 = None"
  by (rule respond_ok [OF assms])

theorem respond_end_to_end_witness:
  "\<exists>req1 w1 req2 w2 recs r2. app_writes 10 [(False, chars ''a''), (True, chars ''bc''), (False, chars ''d'')] demo_req demo_w =
      Inr (req1, w1) \<and> FCGX_Finish_r req1 w1 = Inr (req2, w2)
    \<and> sent (conns w2 5) = sent (conns demo_w 5) @ wire 1 (finish_records (rdata demo_req) (chars ''bc'') recs r2)
    \<and> content_of FCGI_STDOUT (recs @ r2) = chars ''ad'' \<and> content_of FCGI_STDERR (recs @ r2) = chars ''bc''
    \<and> opened (conns w2 5) = False"
proof -
  have w: "written True [(False, chars ''a''), (True, chars ''bc''), (False, chars ''d'')] = chars ''bc''"
    "written False [(False, chars ''a''), (True, chars ''bc''), (False, chars ''d'')] = chars ''ad''"
    by (simp_all add: written_def chars_def)
  have l: "\<forall>wr \<in> set [(False, chars ''a''), (True, chars ''bc''), (False, chars ''d'')]. length (snd wr) < 10"
    by (simp add: chars_def)
  have c: "0 \<le> ipcFd (rdata demo_req)" "opened (conns demo_w (ipcFd (rdata demo_req)))"
    using demo_state(4) by simp_all
  show ?thesis using respond_end_to_end [OF demo_state(1) l demo_state(3) c] unfolding w demo_data by blast
qed

section \<open>Reading a stream\<close>

text \<open>
  C3.  Reading an input stream to its end is determined by the input bytes alone, however they
  arrive in chunks: \<open>FCGX_GetStr\<close> returns the content \<open>deliver\<close> computes for these bytes and
  ends the way it says.  The input is arbitrary: a stream that breaks off, a wrong version, a
  record of the wrong type, management records and records of other requests are all covered.  At
  the end the peer has received exactly the replies of \<open>deliver\<close>; the stream is closed without an
  error and the bytes after it are untouched, or closed with the error code of \<open>deliver\<close>.
\<close>

theorem reader_delivers:
  assumes "stream_inv md r s" "rm_begun md" "rdNext s = stop s" "length (avail s) < k"
    and "deliver md (contentLen s) (paddingLen s) (skip s) (avail s) = (xs, out, e)" "e \<noteq> Undef"
    and "int (length xs) < n"
  shows "\<exists>s'. FCGX_GetStr (FillBuffProc k []) k n s = Inr (xs, s') \<and> isClosed s'
    \<and> sent (conns (os s') (ipcFd r)) = sent (conns (os s) (ipcFd r)) @ out
    \<and> (case e of
         EndOfStream left p sk \<Rightarrow> FCGI_errno s' = 0 \<and> reqDataPtr s' = r \<and> ahead s' = left \<and> paddingLen s' = p
       | Failed err \<Rightarrow> FCGI_errno s' = err
       | _ \<Rightarrow> False)"
proof -
  have "str.src k md r e (os s) out s xs"
    using assms(1-6) unfolding str.src_def str_inv_def str_rest_def
    by (auto simp: window_def)
  moreover have "length xs < k" using deliver_length [OF assms(5)] assms(4) by simp
  moreover have "0 \<le> n" "length xs < nat n" using assms(7) by linarith+
  ultimately obtain s' where s': "FCGX_GetStr (FillBuffProc k []) k n s = Inr (xs, s')"
    "str_fin md r (os s) out e s'"
    using str.GetStr_short by blast
  have "\<nexists>i b l q. e = BeginRequest i b l q" using deliver_begun [OF assms(2,5)] by blast
  then show ?thesis using s' traffic_keeps(5)
    by (cases e) (auto simp: str_fin_def ended_def reader_frame_def)
qed

text \<open>The input stream of the example.\<close>

definition demo_in :: stream_io where
  "demo_in = attach (the (in_stream demo_req)) (rdata demo_req) demo_w"

lemma demo_in:
  "ready_reader FCGI_STDIN (rdata demo_req) (the (in_stream demo_req)) demo_w demo_rest"
  "stream_inv (mode_for FCGI_STDIN (rdata demo_req) demo_w) (rdata demo_req) demo_in"
  "rm_begun (mode_for FCGI_STDIN (rdata demo_req) demo_w)" "rdNext demo_in = stop demo_in" "length (avail demo_in) < 100"
  "deliver (mode_for FCGI_STDIN (rdata demo_req) demo_w) (contentLen demo_in) (paddingLen demo_in) (skip demo_in)
    (avail demo_in) = (chars ''hi'', [], EndOfStream [] 0 False)"
proof -
  let ?md = "mode_for FCGI_STDIN (rdata demo_req) demo_w"
  show r: "ready_reader FCGI_STDIN (rdata demo_req) (the (in_stream demo_req)) demo_w demo_rest"
    using demo_state(1) by (auto simp: accepted_def)
  then show "stream_inv ?md (rdata demo_req) demo_in" "rdNext demo_in = stop demo_in"
    by (simp_all add: ready_reader_def demo_in_def)
  show "rm_begun ?md" by (simp add: mode_for_def)
  have a: "avail demo_in = demo_rest" using r by (simp add: ready_reader_def demo_in_def)
  show "length (avail demo_in) < 100"
    by (simp add: a demo_rest_def wire_def wrap_record_def record_bytes_def chars_def pad_of_def)
  have "rm_id ?md = 1" "rm_type ?md = FCGI_STDIN" by (simp_all add: mode_for_def)
  moreover have "stream_records FCGI_STDIN [(FCGI_STDIN, chars ''hi'')]" by (simp add: stream_records_def chars_def)
  ultimately have "deliver ?md 0 0 False demo_rest = (chars ''hi'', [], EndOfStream [] 0 False)"
    using deliver_stream [of ?md "[(FCGI_STDIN, chars ''hi'')]" "[]"] by (simp add: demo_rest_def)
  then show "deliver ?md (contentLen demo_in) (paddingLen demo_in) (skip demo_in) (avail demo_in) =
      (chars ''hi'', [], EndOfStream [] 0 False)"
    using r a by (simp add: ready_reader_def demo_in_def)
qed

theorem reader_delivers_witness:
  "\<exists>s'. FCGX_GetStr (FillBuffProc 100 []) 100 3 demo_in = Inr (chars ''hi'', s') \<and> isClosed s'
    \<and> sent (conns (os s') 5) = sent (conns (os demo_in) 5) @ []
    \<and> FCGI_errno s' = 0 \<and> reqDataPtr s' = rdata demo_req \<and> ahead s' = [] \<and> paddingLen s' = 0"
proof -
  have "int (length (chars ''hi'')) < 3" by (simp add: chars_def)
  from reader_delivers [OF demo_in(2-6) _ this] show ?thesis by simp
qed

section \<open>From a writer to a reader\<close>

text \<open>
  C4.  Round trip: byte strings are written to a new output stream, which is then closed; a reader
  of the same stream type and request id that receives these bytes, in chunks of any size and
  followed by anything, delivers exactly the concatenation of the strings and then end of file
  without an error.  (An error stream that took nothing sends no end-of-stream record.)
\<close>

theorem writer_reader_roundtrip:
  assumes "writer_inv ty r s" "wrNext s = 8" "\<not> isAnythingWritten s" "nWriters r \<noteq> 1"
    and "\<forall>b \<in> set strs. length b < k" "ty = FCGI_STDERR \<longrightarrow> concat strs \<noteq> []"
    and "ty \<noteq> FCGI_BEGIN_REQUEST" "0 \<le> ty" "ty \<le> 255" "0 < requestId r" "requestId r \<le> 65535"
    and "ready_reader ty r' d w (projr (transmit k strs s) @ tail)" "requestId r' = requestId r"
    and "length (projr (transmit k strs s) @ tail) < K" "int (length (concat strs)) < n"
  shows "(\<exists>b. transmit k strs s = Inr b)
    \<and> (\<exists>s'. FCGX_GetStr (FillBuffProc K []) K n (attach d r' w) = Inr (concat strs, s')
         \<and> isClosed s' \<and> FCGI_errno s' = 0)"
proof -
  from transmit_ok [OF assms(1-6)] obtain recs where
    t: "transmit k strs s = Inr (wire (requestId r') recs @ record_bytes ty (requestId r') [] [])"
      "stream_records ty recs" "content_of ty recs = concat strs" unfolding assms(13) by blast
  with read_input [of ty r' d w recs tail K n] assms(7-15) show ?thesis by auto
qed

definition demo_bytes :: bytes where
  "demo_bytes = projr (transmit 10 [chars ''ab'', chars ''c''] demo_writer)"

definition demo_back :: os_unix where
  "demo_back = idle_os\<lparr>conns := (\<lambda>_. idle_conn\<lparr>rx := [RData demo_bytes]\<rparr>)\<rparr>"

definition demo_reader :: "FCGX_Stream_Data \<times> os_unix" where
  "demo_reader = projr (NewReader 64 FCGI_STDOUT demo_back)"

abbreviation (input) demo_data_r :: ReqData where
  "demo_data_r \<equiv> zero_data\<lparr>requestId := 7, isBeginProcessed := True\<rparr>"

lemma demo_back:
  "8 \<le> length demo_bytes" "ready_reader FCGI_STDOUT demo_data_r (fst demo_reader) (snd demo_reader) (demo_bytes @ [])"
proof -
  from transmit_ok [OF demo_writer, of "[chars ''ab'', chars ''c'']" 10] obtain recs where
    recs: "demo_bytes = wire 7 recs @ record_bytes FCGI_STDOUT 7 [] []"
    by (auto simp: chars_def demo_bytes_def)
  show l: "8 \<le> length demo_bytes" unfolding recs by (simp add: record_bytes_def)
  then have "conn_ok (ipcFd demo_data_r) demo_back"
    by (auto simp: conn_ok_def demo_back_def tx_ok_def HEAP_MIN_def)
  from new_ready_reader [OF this, of 64 FCGI_STDOUT]
  show "ready_reader FCGI_STDOUT demo_data_r (fst demo_reader) (snd demo_reader) (demo_bytes @ [])"
    by (auto simp: demo_reader_def) (simp add: demo_back_def)
qed

theorem writer_reader_roundtrip_witness:
  "(\<exists>b. transmit 10 [chars ''ab'', chars ''c''] demo_writer = Inr b)
    \<and> (\<exists>s'. FCGX_GetStr (FillBuffProc (Suc (length demo_bytes)) []) (Suc (length demo_bytes)) 4
          (attach (fst demo_reader) demo_data_r (snd demo_reader)) = Inr (concat [chars ''ab'', chars ''c''], s')
         \<and> isClosed s' \<and> FCGI_errno s' = 0)"
proof (rule writer_reader_roundtrip [OF demo_writer, where tail = "[]"])
  show "ready_reader FCGI_STDOUT demo_data_r (fst demo_reader) (snd demo_reader)
      (projr (transmit 10 [chars ''ab'', chars ''c''] demo_writer) @ [])"
    using demo_back(2) by (simp add: demo_bytes_def)
qed (simp_all add: chars_def demo_bytes_def [unfolded chars_def, simplified])

end
